(* ===== verification/Prelude.thy ===== *)
theory Prelude
  imports Main "HOL-Library.Word" "HOL-Library.FSet" "HOL-Library.Finite_Map"
begin

text \<open>
  Shared vocabulary of the Teaclave development: the outcome of a fallible
  Rust function, bytes, strings and fixed-width integers with their
  little-endian and big-endian byte images, and the generic lemmas the
  component theories use.

  \<^item> \<open>result\<close> is \<^verbatim>\<open>Result<T, E>\<close> with one more constructor, \<open>Panic\<close>, for
    \<^verbatim>\<open>unwrap\<close> on an error, a failed \<^verbatim>\<open>assert!\<close>, an index out of range and
    \<^verbatim>\<open>unimplemented!\<close>.
  \<^item> A Rust \<^verbatim>\<open>String\<close> is a \<^typ>\<open>string\<close>: one \<^typ>\<open>char\<close> per UTF-8 byte.
  \<^item> An \<^verbatim>\<open>anyhow::Error\<close> is its format string and the arguments printed by it.
\<close>

named_theorems res_simps \<open>unfolding of the outcome combinators\<close>

section \<open>Outcomes\<close>

datatype ('a, 'e) result = Ok 'a | Err 'e | Panic

datatype fmt_arg = FStr string | FNum nat | FId string "128 word"

datatype anyhow = Anyhow (err_template: string) (err_args: "fmt_arg list")

type_synonym 'a anyhow_result = "('a, anyhow) result"

definition bind_result :: "('a, 'e) result \<Rightarrow> ('a \<Rightarrow> ('b, 'e) result) \<Rightarrow> ('b, 'e) result" where
  "bind_result r f = (case r of Ok a \<Rightarrow> f a | Err e \<Rightarrow> Err e | Panic \<Rightarrow> Panic)"

definition map_err :: "('e \<Rightarrow> 'f) \<Rightarrow> ('a, 'e) result \<Rightarrow> ('a, 'f) result" where
  "map_err f r = (case r of Ok a \<Rightarrow> Ok a | Err e \<Rightarrow> Err (f e) | Panic \<Rightarrow> Panic)"

definition map_ok :: "('a \<Rightarrow> 'b) \<Rightarrow> ('a, 'e) result \<Rightarrow> ('b, 'e) result" where
  "map_ok f r = bind_result r (\<lambda>a. Ok (f a))"

definition ok_or :: "'e \<Rightarrow> 'a option \<Rightarrow> ('a, 'e) result" where
  "ok_or e x = (case x of Some a \<Rightarrow> Ok a | None \<Rightarrow> Err e)"

definition ensure :: "bool \<Rightarrow> 'e \<Rightarrow> (unit, 'e) result" where
  "ensure c e = (if c then Ok () else Err e)"

definition unwrap :: "('a, 'e) result \<Rightarrow> ('a, 'f) result" where
  "unwrap r = (case r of Ok a \<Rightarrow> Ok a | _ \<Rightarrow> Panic)"

fun is_ok :: "('a, 'e) result \<Rightarrow> bool" where
  "is_ok (Ok _) = True"
| "is_ok _ = False"

text \<open>
  A handler runs against a state and keeps the effects it had before it
  failed, so it returns its outcome and the new state.  \<open>bind_op\<close> is the
  question mark operator on such handlers.
\<close>

type_synonym ('s, 'a, 'e) op = "'s \<Rightarrow> ('a, 'e) result \<times> 's"

definition return_op :: "('a, 'e) result \<Rightarrow> ('s, 'a, 'e) op" where
  "return_op r s = (r, s)"

definition bind_op :: "('s, 'a, 'e) op \<Rightarrow> ('a \<Rightarrow> ('s, 'b, 'e) op) \<Rightarrow> ('s, 'b, 'e) op" where
  "bind_op m f s = (case m s of (Ok a, s') \<Rightarrow> f a s' | (Err e, s') \<Rightarrow> (Err e, s') | (Panic, s') \<Rightarrow> (Panic, s'))"

definition map_err_op :: "('e \<Rightarrow> 'f) \<Rightarrow> ('s, 'a, 'e) op \<Rightarrow> ('s, 'a, 'f) op" where
  "map_err_op f m s = (case m s of (r, s') \<Rightarrow> (map_err f r, s'))"

text \<open>A call whose outcome the caller inspects with \<^verbatim>\<open>match\<close> or passes on as a value.\<close>

definition try_op :: "('s, 'a, 'e) op \<Rightarrow> ('s, ('a, 'e) result, 'f) op" where
  "try_op m s = (case m s of (r, s') \<Rightarrow> (Ok r, s'))"

lemma bind_result_Ok_iff [res_simps]:
  "bind_result r f = Ok b \<longleftrightarrow> (\<exists>a. r = Ok a \<and> f a = Ok b)"
  by (cases r) (auto simp: bind_result_def)

lemma bind_result_Panic_iff [res_simps]:
  "bind_result r f = Panic \<longleftrightarrow> r = Panic \<or> (\<exists>a. r = Ok a \<and> f a = Panic)"
  by (cases r) (auto simp: bind_result_def)

lemma bind_result_simps [simp]:
  "bind_result (Ok a) f = f a" "bind_result (Err e) f = Err e" "bind_result Panic f = Panic"
  by (simp_all add: bind_result_def)

lemma map_err_simps [simp]:
  "map_err g (Ok a) = Ok a" "map_err g (Err e) = Err (g e)" "map_err g Panic = Panic"
  by (simp_all add: map_err_def)

lemma map_err_Ok_iff [res_simps]: "map_err g r = Ok a \<longleftrightarrow> r = Ok a"
  by (cases r) auto

lemma map_err_Panic_iff [res_simps]: "map_err g r = Panic \<longleftrightarrow> r = Panic"
  by (cases r) auto

lemma map_ok_Ok_iff [res_simps]: "map_ok g r = Ok b \<longleftrightarrow> (\<exists>a. r = Ok a \<and> b = g a)"
  by (auto simp: map_ok_def res_simps)

lemma map_ok_simps [simp]:
  "map_ok g (Ok a) = Ok (g a)" "map_ok g (Err e) = Err e" "map_ok g Panic = Panic"
  by (simp_all add: map_ok_def)

lemma ok_or_Ok_iff [res_simps]: "ok_or e x = Ok a \<longleftrightarrow> x = Some a"
  by (cases x) (auto simp: ok_or_def)

lemma ok_or_simps [simp]: "ok_or e (Some a) = Ok a" "ok_or e None = Err e"
  by (simp_all add: ok_or_def)

lemma ensure_Ok_iff [res_simps]: "ensure c e = Ok u \<longleftrightarrow> c"
  by (auto simp: ensure_def)

lemma ensure_simps [simp]: "ensure True e = Ok ()" "ensure False e = Err e"
  by (simp_all add: ensure_def)

lemma ensure_no_Panic [simp]: "ensure c e \<noteq> Panic"
  by (simp add: ensure_def)

lemma ok_or_no_Panic [simp]: "ok_or e x \<noteq> Panic"
  by (cases x) simp_all

lemma is_ok_iff: "is_ok r \<longleftrightarrow> (\<exists>a. r = Ok a)"
  by (cases r) auto

lemma bind_op_Ok_iff [res_simps]:
  "bind_op m f s = (Ok b, s'') \<longleftrightarrow> (\<exists>a s'. m s = (Ok a, s') \<and> f a s' = (Ok b, s''))"
  by (auto simp: bind_op_def split: prod.splits result.splits)

lemma return_op_iff [res_simps]: "return_op r s = (r', s') \<longleftrightarrow> r' = r \<and> s' = s"
  by (auto simp: return_op_def)

lemma map_err_op_Ok_iff [res_simps]: "map_err_op g m s = (Ok a, s') \<longleftrightarrow> m s = (Ok a, s')"
  by (auto simp: map_err_op_def res_simps split: prod.splits)

lemma try_op_iff [res_simps]: "try_op m s = (Ok r, s') \<longleftrightarrow> m s = (r, s')"
  by (auto simp: try_op_def split: prod.splits)

section \<open>Bytes, strings and integers\<close>

type_synonym byte = "8 word"
type_synonym bytes = "byte list"
type_synonym u32 = "32 word"
type_synonym u64 = "64 word"
type_synonym uuid = "128 word"

definition into_bytes :: "string \<Rightarrow> bytes" where
  "into_bytes s = map of_char s"

fun le_bytes :: "nat \<Rightarrow> nat \<Rightarrow> bytes" where
  "le_bytes 0 v = []"
| "le_bytes (Suc n) v = of_nat (v mod 256) # le_bytes n (v div 256)"

fun le_val :: "bytes \<Rightarrow> nat" where
  "le_val [] = 0"
| "le_val (b # bs) = unat b + 256 * le_val bs"

definition u32_to_le_bytes :: "u32 \<Rightarrow> bytes" where
  "u32_to_le_bytes w = le_bytes 4 (unat w)"

definition u32_from_le_bytes :: "bytes \<Rightarrow> u32" where
  "u32_from_le_bytes bs = of_nat (le_val bs)"

definition u64_to_le_bytes :: "u64 \<Rightarrow> bytes" where
  "u64_to_le_bytes w = le_bytes 8 (unat w)"

definition u64_from_le_bytes :: "bytes \<Rightarrow> u64" where
  "u64_from_le_bytes bs = of_nat (le_val bs)"

definition u64_to_be_bytes :: "u64 \<Rightarrow> bytes" where
  "u64_to_be_bytes w = rev (le_bytes 8 (unat w))"

definition u64_from_be_bytes :: "bytes \<Rightarrow> u64" where
  "u64_from_be_bytes bs = of_nat (le_val (rev bs))"

lemma length_into_bytes [simp]: "length (into_bytes s) = length s"
  by (simp add: into_bytes_def)

lemma into_bytes_append [simp]: "into_bytes (s @ t) = into_bytes s @ into_bytes t"
  by (simp add: into_bytes_def)

lemma of_char_byte_inj: "inj (of_char :: char \<Rightarrow> byte)"
proof (rule injI)
  fix c d :: char assume "(of_char c :: byte) = of_char d"
  then have "(of_nat (of_char c) :: byte) = of_nat (of_char d)" by (simp only: of_nat_of_char)
  then have "unat (of_nat (of_char c) :: byte) = unat (of_nat (of_char d) :: byte)" by (rule arg_cong)
  then show "c = d" by (simp add: unat_of_nat)
qed

lemma into_bytes_inj [simp]: "into_bytes s = into_bytes t \<longleftrightarrow> s = t"
  by (simp add: into_bytes_def inj_map_eq_map [OF of_char_byte_inj])

lemma unat_byte_less: "unat (b :: byte) < 256"
  using unsigned_less [of b, where ?'a = nat] by simp

lemma unat_u32_less: "unat (w :: u32) < 2 ^ 32"
  using unsigned_less [of w, where ?'a = nat] by simp

lemma unat_u64_less: "unat (w :: u64) < 2 ^ 64"
  using unsigned_less [of w, where ?'a = nat] by simp

lemma length_le_bytes [simp]: "length (le_bytes n v) = n"
  by (induction n arbitrary: v) auto

lemma le_val_less: "le_val bs < 256 ^ length bs"
proof (induction bs)
  case (Cons b bs)
  note unat_byte_less [of b]
  with Cons show ?case by simp
qed simp

lemma le_val_le_bytes: "le_val (le_bytes n v) = v mod 256 ^ n"
  by (induction n arbitrary: v) (auto simp: unat_of_nat mod_mult2_eq)

lemma le_bytes_le_val: "le_bytes (length bs) (le_val bs) = bs"
proof (induction bs)
  case (Cons b bs)
  note unat_byte_less [of b]
  with Cons show ?case by simp
qed simp

lemma le_bytes_4:
  "le_bytes 4 v = [of_nat (v mod 256), of_nat (v div 256 mod 256), of_nat (v div 256 div 256 mod 256),
     of_nat (v div 256 div 256 div 256 mod 256)]"
proof -
  have four: "(4 :: nat) = Suc (Suc (Suc (Suc 0)))" by simp
  show ?thesis unfolding four by (simp only: le_bytes.simps)
qed

lemma length_u32_to_le_bytes [simp]: "length (u32_to_le_bytes w) = 4"
  by (simp add: u32_to_le_bytes_def)

lemma length_u64_to_le_bytes [simp]: "length (u64_to_le_bytes w) = 8"
  by (simp add: u64_to_le_bytes_def)

lemma length_u64_to_be_bytes [simp]: "length (u64_to_be_bytes w) = 8"
  by (simp add: u64_to_be_bytes_def)

lemma u32_le_roundtrip [simp]: "u32_from_le_bytes (u32_to_le_bytes w) = w"
  using unat_u32_less [of w]
  by (simp add: u32_from_le_bytes_def u32_to_le_bytes_def le_val_le_bytes)

lemma u64_le_roundtrip [simp]: "u64_from_le_bytes (u64_to_le_bytes w) = w"
  using unat_u64_less [of w]
  by (simp add: u64_from_le_bytes_def u64_to_le_bytes_def le_val_le_bytes)

lemma u64_be_roundtrip [simp]: "u64_from_be_bytes (u64_to_be_bytes w) = w"
  using unat_u64_less [of w]
  by (simp add: u64_from_be_bytes_def u64_to_be_bytes_def le_val_le_bytes)

lemma u32_to_le_bytes_inj [simp]: "u32_to_le_bytes v = u32_to_le_bytes w \<longleftrightarrow> v = w"
  by (metis u32_le_roundtrip)

lemma u64_to_le_bytes_inj [simp]: "u64_to_le_bytes v = u64_to_le_bytes w \<longleftrightarrow> v = w"
  by (metis u64_le_roundtrip)

lemma u32_to_from_le_bytes: "length bs = 4 \<Longrightarrow> u32_to_le_bytes (u32_from_le_bytes bs) = bs"
  using le_val_less [of bs] le_bytes_le_val [of bs]
  by (simp add: u32_from_le_bytes_def u32_to_le_bytes_def unat_of_nat)

lemma u64_to_from_le_bytes: "length bs = 8 \<Longrightarrow> u64_to_le_bytes (u64_from_le_bytes bs) = bs"
  using le_val_less [of bs] le_bytes_le_val [of bs]
  by (simp add: u64_from_le_bytes_def u64_to_le_bytes_def unat_of_nat)

section \<open>Finite sets and maps\<close>

lemma fset_of_list_in_iff: "x |\<in>| fset_of_list xs \<longleftrightarrow> x \<in> set xs"
  by (simp add: fset_of_list.rep_eq)

lemma in_ffUnion_iff: "x |\<in>| ffUnion A \<longleftrightarrow> (\<exists>B. B |\<in>| A \<and> x |\<in>| B)"
  by (auto simp: ffUnion.rep_eq)

lemma in_fmran_iff: "v |\<in>| fmran m \<longleftrightarrow> (\<exists>k. fmlookup m k = Some v)"
  by (auto intro: fmranI)

lemma in_fmdom_iff: "k |\<in>| fmdom m \<longleftrightarrow> (\<exists>v. fmlookup m k = Some v)"
  by (simp add: fmlookup_dom_iff)

end
