(* ===== verification/Crypto.thy ===== *)
theory Crypto
  imports Prelude
begin

text \<open>
  File encryption keys and authentication tags: the key structs of
  \<^verbatim>\<open>crypto/src/lib.rs\<close> and \<^verbatim>\<open>FileAuthTag\<close>/\<^verbatim>\<open>FileCrypto\<close> of
  \<^verbatim>\<open>types/src/crypto.rs\<close>.  The AEAD primitive (the \<^verbatim>\<open>ring\<close> crate) and the hex
  codec (the \<^verbatim>\<open>hex\<close> crate) are parameters, the records \<open>ring\<close> and \<open>hex\<close>.
  A fixed-size array is a byte list; the constructors check the length and
  \<open>file_crypto_wf\<close>/\<open>file_auth_tag_wf\<close> state it.
\<close>

section \<open>External primitives\<close>

datatype aead_alg = AES_128_GCM | AES_256_GCM

text \<open>
  \<open>open_in_place\<close> gives the whole buffer after the call and the length of the
  plaintext that it now starts with.
\<close>

record ring =
  unbound_key :: "aead_alg \<Rightarrow> bytes \<Rightarrow> bool"
  nonce :: "bytes \<Rightarrow> bool"
  seal_in_place_append_tag :: "aead_alg \<Rightarrow> bytes \<Rightarrow> bytes \<Rightarrow> bytes \<Rightarrow> bytes \<Rightarrow> bytes option"
  open_in_place :: "aead_alg \<Rightarrow> bytes \<Rightarrow> bytes \<Rightarrow> bytes \<Rightarrow> bytes \<Rightarrow> (bytes \<times> nat) option"

record hex =
  hex_encode :: "bytes \<Rightarrow> string"
  hex_decode :: "string \<Rightarrow> bytes option"

text \<open>
  The documented contract of an AEAD with a 16 byte tag: sealing a message
  appends the tag to a ciphertext of the same length, and opening the sealed
  buffer under the same key, nonce and associated data restores the message in
  its prefix and leaves the tag after it.
\<close>

definition ring_ok :: "ring \<Rightarrow> bool" where
  "ring_ok rg \<longleftrightarrow>
     (\<forall>alg k iv aad p c. unbound_key rg alg k \<and> nonce rg iv \<and>
        seal_in_place_append_tag rg alg k iv aad p = Some c \<longrightarrow>
        length c = length p + 16 \<and>
        open_in_place rg alg k iv aad c = Some (p @ drop (length p) c, length p))"

definition hex_ok :: "hex \<Rightarrow> bool" where
  "hex_ok h \<longleftrightarrow> (\<forall>bs. hex_decode h (hex_encode h bs) = Some bs)"

section \<open>AEAD\<close>

definition AES_GCM_128_KEY_LENGTH :: nat where "AES_GCM_128_KEY_LENGTH = 16"
definition AES_GCM_128_IV_LENGTH :: nat where "AES_GCM_128_IV_LENGTH = 12"
definition AES_GCM_256_KEY_LENGTH :: nat where "AES_GCM_256_KEY_LENGTH = 32"
definition AES_GCM_256_IV_LENGTH :: nat where "AES_GCM_256_IV_LENGTH = 12"
definition TEACLAVE_FILE_128_ROOT_KEY_LENGTH :: nat where "TEACLAVE_FILE_128_ROOT_KEY_LENGTH = 16"
definition CMAC_LENGTH :: nat where "CMAC_LENGTH = 16"

definition aead_decrypt :: "ring \<Rightarrow> aead_alg \<Rightarrow> bytes \<Rightarrow> bytes \<Rightarrow> bytes \<Rightarrow> (bytes \<times> nat) anyhow_result" where
  "aead_decrypt rg alg in_out k iv =
     bind_result (ensure (unbound_key rg alg k) (Anyhow ''Aead unbound key init error'' [])) (\<lambda>_.
     bind_result (ensure (nonce rg iv) (Anyhow ''Aead iv init error'' [])) (\<lambda>_.
     ok_or (Anyhow ''Aead open_in_place error'' []) (open_in_place rg alg k iv (replicate 8 0) in_out)))"

definition aead_encrypt :: "ring \<Rightarrow> aead_alg \<Rightarrow> bytes \<Rightarrow> bytes \<Rightarrow> bytes \<Rightarrow> bytes anyhow_result" where
  "aead_encrypt rg alg in_out k iv =
     bind_result (ensure (unbound_key rg alg k) (Anyhow ''Aead unbound key init error'' [])) (\<lambda>_.
     bind_result (ensure (nonce rg iv) (Anyhow ''Aead iv init error'' [])) (\<lambda>_.
     ok_or (Anyhow ''Aead seal_in_place_append_tag error'' [])
       (seal_in_place_append_tag rg alg k iv (replicate 8 0) in_out)))"

text \<open>
  \<open>decrypt\<close> and \<open>encrypt\<close> have the same body in \<^verbatim>\<open>AesGcm128Key\<close> and
  \<^verbatim>\<open>AesGcm256Key\<close> up to the algorithm; both return the tag and the buffer.
  \<^verbatim>\<open>copy_from_slice\<close> panics when the slice is not \<^verbatim>\<open>CMAC_LENGTH\<close> long.
\<close>

definition aes_gcm_decrypt :: "ring \<Rightarrow> aead_alg \<Rightarrow> bytes \<Rightarrow> bytes \<Rightarrow> bytes \<Rightarrow> (bytes \<times> bytes) anyhow_result" where
  "aes_gcm_decrypt rg alg k iv in_out =
     bind_result (aead_decrypt rg alg in_out k iv) (\<lambda>(buf, plaintext_len).
       let cmac = drop plaintext_len buf
       in if length cmac = CMAC_LENGTH then Ok (cmac, take plaintext_len buf) else Panic)"

definition aes_gcm_encrypt :: "ring \<Rightarrow> aead_alg \<Rightarrow> bytes \<Rightarrow> bytes \<Rightarrow> bytes \<Rightarrow> (bytes \<times> bytes) anyhow_result" where
  "aes_gcm_encrypt rg alg k iv in_out =
     bind_result (aead_encrypt rg alg in_out k iv) (\<lambda>buf.
       if length buf < CMAC_LENGTH then Panic
       else Ok (drop (length buf - CMAC_LENGTH) buf, buf))"

section \<open>Keys\<close>

record aes_gcm_256_key =
  key256 :: bytes
  iv256 :: bytes

record aes_gcm_128_key =
  key128 :: bytes
  iv128 :: bytes

record teaclave_file_128_key =
  file_key :: bytes

definition AesGcm256Key_SCHEMA :: string where "AesGcm256Key_SCHEMA = ''aes-gcm-256''"
definition AesGcm128Key_SCHEMA :: string where "AesGcm128Key_SCHEMA = ''aes-gcm-128''"
definition TeaclaveFile128Key_SCHEMA :: string where "TeaclaveFile128Key_SCHEMA = ''teaclave-file-128''"

definition AesGcm256Key_new :: "bytes \<Rightarrow> bytes \<Rightarrow> aes_gcm_256_key anyhow_result" where
  "AesGcm256Key_new in_key in_iv =
     bind_result (ensure (length in_key = AES_GCM_256_KEY_LENGTH)
       (Anyhow ''Invalid key length for AesGcm256: {}'' [FNum (length in_key)])) (\<lambda>_.
     bind_result (ensure (length in_iv = AES_GCM_256_IV_LENGTH)
       (Anyhow ''Invalid iv length for AesGcm256: {}'' [FNum (length in_iv)])) (\<lambda>_.
     Ok \<lparr>key256 = in_key, iv256 = in_iv\<rparr>))"

definition AesGcm256Key_from_hex :: "hex \<Rightarrow> string \<Rightarrow> string \<Rightarrow> aes_gcm_256_key anyhow_result" where
  "AesGcm256Key_from_hex h in_key in_iv =
     bind_result (ok_or (Anyhow ''Illegal AesGcm256 key provided'' []) (hex_decode h in_key)) (\<lambda>k.
     bind_result (ok_or (Anyhow ''Illegal AesGcm256 iv provided'' []) (hex_decode h in_iv)) (\<lambda>iv.
     AesGcm256Key_new k iv))"

definition AesGcm128Key_new :: "bytes \<Rightarrow> bytes \<Rightarrow> aes_gcm_128_key anyhow_result" where
  "AesGcm128Key_new in_key in_iv =
     bind_result (ensure (length in_key = AES_GCM_128_KEY_LENGTH)
       (Anyhow ''Invalid key length for AesGcm128: {}'' [FNum (length in_key)])) (\<lambda>_.
     bind_result (ensure (length in_iv = AES_GCM_128_IV_LENGTH)
       (Anyhow ''Invalid iv length for AesGcm128: {}'' [FNum (length in_iv)])) (\<lambda>_.
     Ok \<lparr>key128 = in_key, iv128 = in_iv\<rparr>))"

definition AesGcm128Key_from_hex :: "hex \<Rightarrow> string \<Rightarrow> string \<Rightarrow> aes_gcm_128_key anyhow_result" where
  "AesGcm128Key_from_hex h in_key in_iv =
     bind_result (ok_or (Anyhow ''Illegal AesGcm128 key provided'' []) (hex_decode h in_key)) (\<lambda>k.
     bind_result (ok_or (Anyhow ''Illegal AesGcm128 iv provided'' []) (hex_decode h in_iv)) (\<lambda>iv.
     AesGcm128Key_new k iv))"

definition TeaclaveFile128Key_new :: "bytes \<Rightarrow> teaclave_file_128_key anyhow_result" where
  "TeaclaveFile128Key_new in_key =
     bind_result (ensure (length in_key = TEACLAVE_FILE_128_ROOT_KEY_LENGTH)
       (Anyhow ''Invalid key length for teaclave_file_128: {}'' [FNum (length in_key)])) (\<lambda>_.
     Ok \<lparr>file_key = in_key\<rparr>)"

definition AesGcm256Key_decrypt :: "ring \<Rightarrow> aes_gcm_256_key \<Rightarrow> bytes \<Rightarrow> (bytes \<times> bytes) anyhow_result" where
  "AesGcm256Key_decrypt rg k in_out = aes_gcm_decrypt rg AES_256_GCM (key256 k) (iv256 k) in_out"

definition AesGcm256Key_encrypt :: "ring \<Rightarrow> aes_gcm_256_key \<Rightarrow> bytes \<Rightarrow> (bytes \<times> bytes) anyhow_result" where
  "AesGcm256Key_encrypt rg k in_out = aes_gcm_encrypt rg AES_256_GCM (key256 k) (iv256 k) in_out"

definition AesGcm128Key_decrypt :: "ring \<Rightarrow> aes_gcm_128_key \<Rightarrow> bytes \<Rightarrow> (bytes \<times> bytes) anyhow_result" where
  "AesGcm128Key_decrypt rg k in_out = aes_gcm_decrypt rg AES_128_GCM (key128 k) (iv128 k) in_out"

definition AesGcm128Key_encrypt :: "ring \<Rightarrow> aes_gcm_128_key \<Rightarrow> bytes \<Rightarrow> (bytes \<times> bytes) anyhow_result" where
  "AesGcm128Key_encrypt rg k in_out = aes_gcm_encrypt rg AES_128_GCM (key128 k) (iv128 k) in_out"

section \<open>Authentication tags\<close>

definition FILE_AUTH_TAG_LENGTH :: nat where "FILE_AUTH_TAG_LENGTH = 16"

record file_auth_tag =
  tag :: bytes

definition FileAuthTag_from_bytes :: "bytes \<Rightarrow> file_auth_tag anyhow_result" where
  "FileAuthTag_from_bytes input =
     bind_result (ensure (length input = FILE_AUTH_TAG_LENGTH) (Anyhow ''Invalid length'' [])) (\<lambda>_.
     Ok \<lparr>tag = input\<rparr>)"

definition FileAuthTag_from_hex :: "hex \<Rightarrow> string \<Rightarrow> file_auth_tag anyhow_result" where
  "FileAuthTag_from_hex h input =
     bind_result (ok_or (Anyhow ''Illegal AuthTag provided'' []) (hex_decode h input)) (\<lambda>bs.
     bind_result (ensure (length bs = FILE_AUTH_TAG_LENGTH) (Anyhow ''Illegal AuthTag provided'' [])) (\<lambda>_.
     Ok \<lparr>tag = bs\<rparr>))"

definition FileAuthTag_to_hex :: "hex \<Rightarrow> file_auth_tag \<Rightarrow> string" where
  "FileAuthTag_to_hex h t = hex_encode h (tag t)"

definition FileAuthTag_to_bytes :: "file_auth_tag \<Rightarrow> bytes" where
  "FileAuthTag_to_bytes t = tag t"

definition file_auth_tag_wf :: "file_auth_tag \<Rightarrow> bool" where
  "file_auth_tag_wf t \<longleftrightarrow> length (tag t) = FILE_AUTH_TAG_LENGTH"

section \<open>File encryption schemes\<close>

datatype file_crypto =
    AesGcm128 aes_gcm_128_key
  | AesGcm256 aes_gcm_256_key
  | TeaclaveFile128 teaclave_file_128_key
  | Raw

definition FileCrypto_new :: "string \<Rightarrow> bytes \<Rightarrow> bytes \<Rightarrow> file_crypto anyhow_result" where
  "FileCrypto_new schema k iv =
     (if schema = AesGcm128Key_SCHEMA then map_ok AesGcm128 (AesGcm128Key_new k iv)
      else if schema = AesGcm256Key_SCHEMA then map_ok AesGcm256 (AesGcm256Key_new k iv)
      else if schema = TeaclaveFile128Key_SCHEMA then
        bind_result (ensure (iv = []) (Anyhow ''IV is not empty for teaclave_file_128'' [])) (\<lambda>_.
        map_ok TeaclaveFile128 (TeaclaveFile128Key_new k))
      else if schema = ''raw'' then Ok Raw
      else Err (Anyhow ''Invalid crypto schema: {}'' [FStr schema]))"

fun FileCrypto_schema :: "file_crypto \<Rightarrow> string" where
  "FileCrypto_schema (AesGcm128 _) = AesGcm128Key_SCHEMA"
| "FileCrypto_schema (AesGcm256 _) = AesGcm256Key_SCHEMA"
| "FileCrypto_schema (TeaclaveFile128 _) = TeaclaveFile128Key_SCHEMA"
| "FileCrypto_schema Raw = ''raw''"

fun FileCrypto_key_iv :: "file_crypto \<Rightarrow> bytes \<times> bytes" where
  "FileCrypto_key_iv (AesGcm128 c) = (key128 c, iv128 c)"
| "FileCrypto_key_iv (AesGcm256 c) = (key256 c, iv256 c)"
| "FileCrypto_key_iv (TeaclaveFile128 c) = (file_key c, [])"
| "FileCrypto_key_iv Raw = ([], [])"

fun file_crypto_wf :: "file_crypto \<Rightarrow> bool" where
  "file_crypto_wf (AesGcm128 c) \<longleftrightarrow>
     length (key128 c) = AES_GCM_128_KEY_LENGTH \<and> length (iv128 c) = AES_GCM_128_IV_LENGTH"
| "file_crypto_wf (AesGcm256 c) \<longleftrightarrow>
     length (key256 c) = AES_GCM_256_KEY_LENGTH \<and> length (iv256 c) = AES_GCM_256_IV_LENGTH"
| "file_crypto_wf (TeaclaveFile128 c) \<longleftrightarrow> length (file_key c) = TEACLAVE_FILE_128_ROOT_KEY_LENGTH"
| "file_crypto_wf Raw \<longleftrightarrow> True"

lemmas schema_defs = AesGcm256Key_SCHEMA_def AesGcm128Key_SCHEMA_def TeaclaveFile128Key_SCHEMA_def

lemmas crypto_length_defs =
  AES_GCM_128_KEY_LENGTH_def AES_GCM_128_IV_LENGTH_def AES_GCM_256_KEY_LENGTH_def
  AES_GCM_256_IV_LENGTH_def TEACLAVE_FILE_128_ROOT_KEY_LENGTH_def CMAC_LENGTH_def
  FILE_AUTH_TAG_LENGTH_def

lemmas key_new_defs = AesGcm256Key_new_def AesGcm128Key_new_def TeaclaveFile128Key_new_def

section \<open>Lemmas\<close>

lemma FileCrypto_new_wf: "FileCrypto_new schema k iv = Ok c \<Longrightarrow> file_crypto_wf c"
  by (auto simp: FileCrypto_new_def key_new_defs res_simps split: if_splits)

lemma FileCrypto_new_schema_key_iv:
  "FileCrypto_new schema k iv = Ok c \<Longrightarrow> c \<noteq> Raw \<Longrightarrow>
   FileCrypto_schema c = schema \<and> FileCrypto_key_iv c = (k, iv)"
  by (auto simp: FileCrypto_new_def key_new_defs res_simps split: if_splits)

lemma FileCrypto_new_of_parts:
  assumes "file_crypto_wf c" and "FileCrypto_key_iv c = (k, iv)"
  shows "FileCrypto_new (FileCrypto_schema c) k iv = Ok c"
  using assms
  by (cases c) (auto simp: FileCrypto_new_def key_new_defs schema_defs)

lemma aes_gcm_encrypt_decrypt:
  assumes "ring_ok rg" and "aes_gcm_encrypt rg alg k iv p = Ok (cmac, buf)"
  shows "aes_gcm_decrypt rg alg k iv buf = Ok (cmac, p) \<and> length buf = length p + CMAC_LENGTH"
proof -
  from assms(2) have key: "unbound_key rg alg k" "nonce rg iv"
    and seal: "seal_in_place_append_tag rg alg k iv (replicate 8 0) p = Some buf"
    and cmac: "cmac = drop (length buf - CMAC_LENGTH) buf"
    by (auto simp: aes_gcm_encrypt_def aead_encrypt_def res_simps split: if_splits)
  with assms(1) have len: "length buf = length p + 16"
    and opened: "open_in_place rg alg k iv (replicate 8 0) buf = Some (p @ drop (length p) buf, length p)"
    unfolding ring_ok_def by blast+
  with key cmac show ?thesis
    by (simp add: aes_gcm_decrypt_def aead_decrypt_def CMAC_LENGTH_def)
qed

end
