(* ===== verification/Types.thy ===== *)
theory Types
  imports Crypto "HOL-Library.Sublist"
begin

text \<open>
  The shared data types of \<^verbatim>\<open>types/src\<close>: executors (\<^verbatim>\<open>worker.rs\<close>), owner lists,
  external ids, task results and per-task file tables (\<^verbatim>\<open>task.rs\<close>), registered
  files (\<^verbatim>\<open>file.rs\<close>), functions (\<^verbatim>\<open>function.rs\<close>), staged tasks
  (\<^verbatim>\<open>staged_task.rs\<close>), the \<^verbatim>\<open>Storable\<close> trait (\<^verbatim>\<open>storage.rs\<close>) and the error type
  of the services (\<^verbatim>\<open>error.rs\<close>).

  A \<^verbatim>\<open>HashSet\<close> is an \<open>fset\<close> and a \<^verbatim>\<open>HashMap\<close> an \<open>fmap\<close>; where the code iterates
  over a map and the order can show, the model takes the entries as a list in
  the order of the iteration.  The single-field wrappers \<^verbatim>\<open>UserID\<close>,
  \<^verbatim>\<open>OwnerList\<close>, \<^verbatim>\<open>OutputsTags\<close>, \<^verbatim>\<open>TaskFileOwners\<close> and \<^verbatim>\<open>TaskFiles\<close> are type
  synonyms of their field.  The \<^verbatim>\<open>uuid\<close> crate and \<^verbatim>\<open>serde_json\<close> are parameters
  (\<open>uuid_lib\<close>, \<open>json\<close>); a fresh \<^verbatim>\<open>Uuid::new_v4()\<close> is an argument.
\<close>

section \<open>External libraries\<close>

record uuid_lib =
  uuid_to_string :: "uuid \<Rightarrow> string"
  uuid_parse_str :: "string \<Rightarrow> uuid option"

text \<open>Documented behaviour of the \<^verbatim>\<open>uuid\<close> crate: the hyphenated text has 36 characters and parses back.\<close>

definition uuid_ok :: "uuid_lib \<Rightarrow> bool" where
  "uuid_ok U \<longleftrightarrow>
     (\<forall>u. length (uuid_to_string U u) = 36 \<and> uuid_parse_str U (uuid_to_string U u) = Some u)"

text \<open>
  \<^verbatim>\<open>serde_json::to_vec\<close> and \<^verbatim>\<open>from_slice\<close> at one type.  The serialised form is a
  type parameter, since only the storage service looks at it as bytes.
\<close>

record ('a, 'v) json =
  json_to_vec :: "'a \<Rightarrow> 'v anyhow_result"
  json_from_slice :: "'v \<Rightarrow> 'a anyhow_result"

definition json_ok :: "('a, 'v) json \<Rightarrow> bool" where
  "json_ok j \<longleftrightarrow> (\<forall>x. \<exists>v. json_to_vec j x = Ok v \<and> json_from_slice j v = Ok x)"

datatype json_value =
  JNull | JBool bool | JNumber string | JString string
  | JArray "json_value list" | JObject "(string \<times> json_value) list"

type_synonym url = string

section \<open>Errors of a service\<close>

datatype teaclave_service_response_error =
  RequestError string | ConnectionError string | InternalError string

type_synonym 'a service_result = "('a, teaclave_service_response_error) result"

text \<open>\<^verbatim>\<open>From<anyhow::Error>\<close>; the message text is kept as its template.\<close>

definition service_error_from_anyhow :: "anyhow \<Rightarrow> teaclave_service_response_error" where
  "service_error_from_anyhow e = RequestError (err_template e)"

section \<open>Executors\<close>

datatype executor_type = Builtin | Python

definition ExecutorType_default :: executor_type where "ExecutorType_default = Builtin"

definition ExecutorType_try_from :: "string \<Rightarrow> executor_type anyhow_result" where
  "ExecutorType_try_from selector =
     (if selector = ''python'' then Ok Python
      else if selector = ''builtin'' then Ok Builtin
      else Err (Anyhow ''Invalid executor type: {}'' [FStr selector]))"

fun ExecutorType_to_string :: "executor_type \<Rightarrow> string" where
  "ExecutorType_to_string Builtin = ''builtin''"
| "ExecutorType_to_string Python = ''python''"

datatype executor = MesaPy | BuiltinExecutor

definition Executor_default :: executor where "Executor_default = MesaPy"

definition Executor_try_from :: "string \<Rightarrow> executor anyhow_result" where
  "Executor_try_from selector =
     (if selector = ''mesapy'' then Ok MesaPy
      else if selector = ''builtin'' then Ok BuiltinExecutor
      else Err (Anyhow ''Unsupported executor: {}'' [FStr selector]))"

fun Executor_to_string :: "executor \<Rightarrow> string" where
  "Executor_to_string MesaPy = ''mesapy''"
| "Executor_to_string BuiltinExecutor = ''builtin''"

section \<open>Users and owners\<close>

type_synonym user_id = string
type_synonym owner_list = "user_id fset"
type_synonym user_list = owner_list

definition OwnerList_new :: "string list \<Rightarrow> owner_list" where
  "OwnerList_new uids = fset_of_list uids"

definition OwnerList_contains :: "owner_list \<Rightarrow> user_id \<Rightarrow> bool" where
  "OwnerList_contains ol uid \<longleftrightarrow> uid |\<in>| ol"

definition OwnerList_len :: "owner_list \<Rightarrow> nat" where
  "OwnerList_len ol = fcard ol"

definition OwnerList_insert :: "owner_list \<Rightarrow> user_id \<Rightarrow> owner_list" where
  "OwnerList_insert ol uid = finsert uid ol"

definition OwnerList_union :: "owner_list \<Rightarrow> owner_list \<Rightarrow> owner_list" where
  "OwnerList_union self other = self |\<union>| other"

definition OwnerList_unions :: "owner_list list \<Rightarrow> owner_list" where
  "OwnerList_unions ols = foldl OwnerList_union {||} ols"

section \<open>Identifiers\<close>

record external_id =
  ext_prefix :: string
  ext_uuid :: uuid

definition ExternalID_new :: "string \<Rightarrow> uuid \<Rightarrow> external_id" where
  "ExternalID_new p u = \<lparr>ext_prefix = p, ext_uuid = u\<rparr>"

definition ExternalID_to_string :: "uuid_lib \<Rightarrow> external_id \<Rightarrow> string" where
  "ExternalID_to_string U eid = ext_prefix eid @ ''-'' @ uuid_to_string U (ext_uuid eid)"

definition ExternalID_to_bytes :: "uuid_lib \<Rightarrow> external_id \<Rightarrow> bytes" where
  "ExternalID_to_bytes U eid = into_bytes (ExternalID_to_string U eid)"

definition ExternalID_try_from :: "uuid_lib \<Rightarrow> string \<Rightarrow> external_id anyhow_result" where
  "ExternalID_try_from U s =
     bind_result (ok_or (Anyhow ''Invalid external id: {}'' [FStr s])
       (if CHR ''-'' \<in> set s
        then Some (takeWhile (\<lambda>c. c \<noteq> CHR ''-'') s, dropWhile (\<lambda>c. c \<noteq> CHR ''-'') s) else None))
     (\<lambda>(part0, part1).
     bind_result (ensure (length part1 > 1) (Anyhow ''Invalid external id: {}'' [FStr s])) (\<lambda>_.
     bind_result (ok_or (Anyhow ''uuid parse error'' []) (uuid_parse_str U (drop 1 part1))) (\<lambda>u.
     Ok \<lparr>ext_prefix = part0, ext_uuid = u\<rparr>)))"

section \<open>Task status, results and outputs\<close>

datatype task_status = Created | DataAssigned | Approved | Staged | Running | Finished

type_synonym outputs_tags = "(string, file_auth_tag) fmap"

text \<open>\<^verbatim>\<open>TryFrom<HashMap<String, Vec<u8>>>\<close>: the entries of the map, in the order of its iteration.\<close>

fun OutputsTags_insert_all :: "outputs_tags \<Rightarrow> (string \<times> bytes) list \<Rightarrow> outputs_tags anyhow_result" where
  "OutputsTags_insert_all ret [] = Ok ret"
| "OutputsTags_insert_all ret ((k, v) # rest) =
     bind_result (FileAuthTag_from_bytes v) (\<lambda>t. OutputsTags_insert_all (fmupd k t ret) rest)"

definition OutputsTags_try_from :: "(string \<times> bytes) list \<Rightarrow> outputs_tags anyhow_result" where
  "OutputsTags_try_from input = OutputsTags_insert_all fmempty input"

definition OutputsTags_into :: "outputs_tags \<Rightarrow> (string, bytes) fmap" where
  "OutputsTags_into tags = fmmap FileAuthTag_to_bytes tags"

record task_outputs =
  return_value :: bytes
  tags_map :: outputs_tags

record task_failure =
  reason :: string

datatype task_result = NotReady | TaskOk task_outputs | TaskErr task_failure

definition TaskResult_is_ok :: "task_result \<Rightarrow> bool" where
  "TaskResult_is_ok r = (case r of TaskOk _ \<Rightarrow> True | _ \<Rightarrow> False)"

section \<open>Registered files\<close>

record input_file =
  in_url :: url
  in_cmac :: file_auth_tag
  in_crypto :: file_crypto
  in_owner :: owner_list
  in_uuid :: uuid

record output_file =
  out_url :: url
  out_cmac :: "file_auth_tag option"
  out_crypto :: file_crypto
  out_owner :: owner_list
  out_uuid :: uuid

definition InputFile_new :: "url \<Rightarrow> file_auth_tag \<Rightarrow> file_crypto \<Rightarrow> owner_list \<Rightarrow> uuid \<Rightarrow> input_file" where
  "InputFile_new u cmac crypto owner fresh =
     \<lparr>in_url = u, in_cmac = cmac, in_crypto = crypto, in_owner = owner, in_uuid = fresh\<rparr>"

definition InputFile_from_output :: "output_file \<Rightarrow> input_file anyhow_result" where
  "InputFile_from_output out =
     bind_result (ok_or (Anyhow ''output is not finished'' []) (out_cmac out)) (\<lambda>cmac.
     Ok \<lparr>in_url = out_url out, in_cmac = cmac, in_crypto = out_crypto out,
         in_owner = out_owner out, in_uuid = out_uuid out\<rparr>)"

definition OutputFile_new :: "url \<Rightarrow> file_crypto \<Rightarrow> owner_list \<Rightarrow> uuid \<Rightarrow> output_file" where
  "OutputFile_new u crypto owner fresh =
     \<lparr>out_url = u, out_cmac = None, out_crypto = crypto, out_owner = owner, out_uuid = fresh\<rparr>"

definition assign_cmac :: "output_file \<Rightarrow> file_auth_tag \<Rightarrow> output_file anyhow_result" where
  "assign_cmac f cmac =
     bind_result (ensure (out_cmac f = None) (Anyhow ''Cannot overwrite output file cmac'' [])) (\<lambda>_.
     Ok (f\<lparr>out_cmac := Some cmac\<rparr>))"

section \<open>Files of a task\<close>

type_synonym task_file_owners = "(string, owner_list) fmap"
type_synonym 'f task_files = "(string, 'f) fmap"

definition all_owners :: "task_file_owners \<Rightarrow> owner_list" where
  "all_owners m = ffUnion (fmran m)"

definition TaskFileOwners_check :: "task_file_owners \<Rightarrow> string \<Rightarrow> owner_list \<Rightarrow> unit anyhow_result" where
  "TaskFileOwners_check m fkey fowners =
     (case fmlookup m fkey of
        Some owners \<Rightarrow>
          ensure (owners = fowners) (Anyhow ''Assign: file ownership mismatch. {:?}'' [FStr fkey])
      | None \<Rightarrow> Err (Anyhow ''Assign: file name not exist in ownership spec. {:?}'' [FStr fkey]))"

definition TaskFiles_assign :: "'f task_files \<Rightarrow> string \<Rightarrow> 'f \<Rightarrow> 'f task_files anyhow_result" where
  "TaskFiles_assign m fname f =
     bind_result (ensure (fmlookup m fname = None) (Anyhow ''Assign: file already assigned. {:?}'' [FStr fname]))
     (\<lambda>_. Ok (fmupd fname f m))"

text \<open>\<^verbatim>\<open>update_cmac\<close> returns the updated table with a reference to the updated file.\<close>

definition TaskFiles_update_cmac ::
    "output_file task_files \<Rightarrow> string \<Rightarrow> file_auth_tag \<Rightarrow> (output_file task_files \<times> output_file) anyhow_result" where
  "TaskFiles_update_cmac m fname auth_tag =
     (case fmlookup m fname of
        Some f \<Rightarrow> bind_result (assign_cmac f auth_tag) (\<lambda>f'. Ok (fmupd fname f' m, f'))
      | None \<Rightarrow> Err (Anyhow ''Upadate_cmac: file not found. {:?}'' [FStr fname]))"

section \<open>Functions\<close>

record function_input =
  fi_name :: string
  fi_description :: string

record function_output =
  fo_name :: string
  fo_description :: string

record func =
  fn_id :: uuid
  fn_name :: string
  fn_description :: string
  fn_public :: bool
  fn_executor_type :: executor_type
  fn_payload :: bytes
  fn_arguments :: "string list"
  fn_inputs :: "function_input list"
  fn_outputs :: "function_output list"
  fn_owner :: user_id

type_synonym function_arguments = "(string, json_value) fmap"

text \<open>\<^verbatim>\<open>From<HashMap<String, String>>\<close> and \<^verbatim>\<open>from_json\<close> of \<^verbatim>\<open>FunctionArguments\<close>.\<close>

definition FunctionArguments_from_map :: "(string, string) fmap \<Rightarrow> function_arguments" where
  "FunctionArguments_from_map m = fmmap JString m"

definition FunctionArguments_from_json :: "json_value \<Rightarrow> function_arguments anyhow_result" where
  "FunctionArguments_from_json v =
     (case v of JObject kvs \<Rightarrow> Ok (fmap_of_list kvs) | _ \<Rightarrow> Err (Anyhow ''Not an json object'' []))"

definition FunctionArguments_get :: "function_arguments \<Rightarrow> string \<Rightarrow> json_value anyhow_result" where
  "FunctionArguments_get m k = ok_or (Anyhow ''key not found: {}'' [FStr k]) (fmlookup m k)"

section \<open>Staged tasks\<close>

record function_input_file =
  fif_url :: url
  fif_cmac :: file_auth_tag
  fif_crypto :: file_crypto

record function_output_file =
  fof_url :: url
  fof_crypto :: file_crypto

type_synonym function_input_files = "(string, function_input_file) fmap"
type_synonym function_output_files = "(string, function_output_file) fmap"

definition FunctionInputFile_from :: "input_file \<Rightarrow> function_input_file" where
  "FunctionInputFile_from f = \<lparr>fif_url = in_url f, fif_cmac = in_cmac f, fif_crypto = in_crypto f\<rparr>"

definition FunctionOutputFile_from :: "output_file \<Rightarrow> function_output_file" where
  "FunctionOutputFile_from f = \<lparr>fof_url = out_url f, fof_crypto = out_crypto f\<rparr>"

definition FunctionInputFiles_from :: "input_file task_files \<Rightarrow> function_input_files" where
  "FunctionInputFiles_from m = fmmap FunctionInputFile_from m"

definition FunctionOutputFiles_from :: "output_file task_files \<Rightarrow> function_output_files" where
  "FunctionOutputFiles_from m = fmmap FunctionOutputFile_from m"

record staged_task =
  st_task_id :: uuid
  st_function_id :: uuid
  st_executor :: executor
  st_executor_type :: executor_type
  st_function_name :: string
  st_function_arguments :: function_arguments
  st_function_payload :: bytes
  st_input_data :: function_input_files
  st_output_data :: function_output_files

definition QUEUE_KEY :: string where "QUEUE_KEY = ''staged-task''"

section \<open>The Storable trait\<close>

text \<open>An implementation of the trait is the record of its methods.\<close>

record ('a, 'v) storable_impl =
  key_prefix :: string
  uuid_of :: "'a \<Rightarrow> uuid"
  codec :: "('a, 'v) json"

definition external_id_of :: "('a, 'v) storable_impl \<Rightarrow> 'a \<Rightarrow> external_id" where
  "external_id_of S x = ExternalID_new (key_prefix S) (uuid_of S x)"

definition key_string :: "uuid_lib \<Rightarrow> ('a, 'v) storable_impl \<Rightarrow> 'a \<Rightarrow> string" where
  "key_string U S x = ExternalID_to_string U (external_id_of S x)"

definition storable_key :: "uuid_lib \<Rightarrow> ('a, 'v) storable_impl \<Rightarrow> 'a \<Rightarrow> bytes" where
  "storable_key U S x = into_bytes (key_string U S x)"

definition match_prefix :: "('a, 'v) storable_impl \<Rightarrow> string \<Rightarrow> bool" where
  "match_prefix S k \<longleftrightarrow> prefix (key_prefix S) k"

definition to_vec :: "('a, 'v) storable_impl \<Rightarrow> 'a \<Rightarrow> 'v anyhow_result" where
  "to_vec S x = json_to_vec (codec S) x"

definition from_slice :: "('a, 'v) storable_impl \<Rightarrow> 'v \<Rightarrow> 'a anyhow_result" where
  "from_slice S v = json_from_slice (codec S) v"

definition TaskFiles_external_ids :: "('f, 'v) storable_impl \<Rightarrow> 'f task_files \<Rightarrow> (string, external_id) fmap" where
  "TaskFiles_external_ids S m = fmmap (external_id_of S) m"

definition storable_function :: "(func, 'v) json \<Rightarrow> (func, 'v) storable_impl" where
  "storable_function j = \<lparr>key_prefix = ''function'', uuid_of = fn_id, codec = j\<rparr>"

definition storable_input :: "(input_file, 'v) json \<Rightarrow> (input_file, 'v) storable_impl" where
  "storable_input j = \<lparr>key_prefix = ''input'', uuid_of = in_uuid, codec = j\<rparr>"

definition storable_output :: "(output_file, 'v) json \<Rightarrow> (output_file, 'v) storable_impl" where
  "storable_output j = \<lparr>key_prefix = ''output'', uuid_of = out_uuid, codec = j\<rparr>"

definition storable_staged :: "(staged_task, 'v) json \<Rightarrow> (staged_task, 'v) storable_impl" where
  "storable_staged j = \<lparr>key_prefix = ''staged-'', uuid_of = st_task_id, codec = j\<rparr>"

section \<open>Lemmas on owners and files\<close>

lemma in_all_owners_iff:
  "u |\<in>| all_owners m \<longleftrightarrow> (\<exists>k ol. fmlookup m k = Some ol \<and> u |\<in>| ol)"
  by (auto simp: all_owners_def in_ffUnion_iff in_fmran_iff)

lemma foldl_OwnerList_union: "foldl OwnerList_union acc ols = acc |\<union>| ffUnion (fset_of_list ols)"
  by (induction ols arbitrary: acc) (auto simp: OwnerList_union_def)

text \<open>\<^verbatim>\<open>all_owners\<close> does not depend on the order in which the map yields its values.\<close>

lemma all_owners_unions:
  "fset_of_list ols = fmran m \<Longrightarrow> OwnerList_unions ols = all_owners m"
  by (simp add: OwnerList_unions_def foldl_OwnerList_union all_owners_def)

lemma TaskFileOwners_check_Ok [res_simps]:
  "TaskFileOwners_check m k ol = Ok u \<longleftrightarrow> fmlookup m k = Some ol"
  by (auto simp: TaskFileOwners_check_def res_simps split: option.splits)

lemma TaskFiles_assign_Ok [res_simps]:
  "TaskFiles_assign m k f = Ok m' \<longleftrightarrow> fmlookup m k = None \<and> m' = fmupd k f m"
  by (auto simp: TaskFiles_assign_def res_simps)

lemma assign_cmac_Ok [res_simps]:
  "assign_cmac f t = Ok f' \<longleftrightarrow> out_cmac f = None \<and> f' = f\<lparr>out_cmac := Some t\<rparr>"
  by (auto simp: assign_cmac_def res_simps)

lemma TaskFiles_update_cmac_Ok [res_simps]:
  "TaskFiles_update_cmac m k t = Ok (m', f') \<longleftrightarrow>
   (\<exists>f. fmlookup m k = Some f \<and> out_cmac f = None \<and> f' = f\<lparr>out_cmac := Some t\<rparr> \<and> m' = fmupd k f' m)"
  by (auto simp: TaskFiles_update_cmac_def res_simps split: option.splits)

lemma InputFile_from_output_Ok [res_simps]:
  "InputFile_from_output out = Ok f \<longleftrightarrow>
   (\<exists>c. out_cmac out = Some c \<and> f = \<lparr>in_url = out_url out, in_cmac = c, in_crypto = out_crypto out,
      in_owner = out_owner out, in_uuid = out_uuid out\<rparr>)"
  by (auto simp: InputFile_from_output_def res_simps)

section \<open>Keys of stored objects\<close>

lemma uuid_to_string_inj:
  "uuid_ok U \<Longrightarrow> uuid_to_string U u = uuid_to_string U v \<longleftrightarrow> u = v"
  by (metis option.inject uuid_ok_def)

lemma ExternalID_to_string_inj:
  assumes "uuid_ok U"
  shows "ExternalID_to_string U a = ExternalID_to_string U b \<longleftrightarrow> a = b"
proof
  assume eq: "ExternalID_to_string U a = ExternalID_to_string U b"
  have "length (uuid_to_string U (ext_uuid a)) = length (uuid_to_string U (ext_uuid b))"
    using assms by (simp add: uuid_ok_def)
  with eq have "ext_prefix a = ext_prefix b \<and> uuid_to_string U (ext_uuid a) = uuid_to_string U (ext_uuid b)"
    by (simp add: ExternalID_to_string_def append_eq_append_conv)
  with assms show "a = b" by (simp add: uuid_to_string_inj)
qed simp

lemma ExternalID_to_bytes_inj:
  "uuid_ok U \<Longrightarrow> ExternalID_to_bytes U a = ExternalID_to_bytes U b \<longleftrightarrow> a = b"
  by (simp add: ExternalID_to_bytes_def ExternalID_to_string_inj)

lemma storable_key_eq: "storable_key U S x = ExternalID_to_bytes U (external_id_of S x)"
  by (simp add: storable_key_def key_string_def ExternalID_to_bytes_def)

lemma external_id_of_eq_iff:
  "external_id_of S x = external_id_of T y \<longleftrightarrow> key_prefix S = key_prefix T \<and> uuid_of S x = uuid_of T y"
  by (simp add: external_id_of_def ExternalID_new_def)

lemma storable_key_inj:
  "uuid_ok U \<Longrightarrow> storable_key U S x = storable_key U T y \<longleftrightarrow>
   key_prefix S = key_prefix T \<and> uuid_of S x = uuid_of T y"
  by (simp add: storable_key_eq ExternalID_to_bytes_inj external_id_of_eq_iff)

text \<open>
  The contract a client of \<^verbatim>\<open>Storable\<close> relies on: the prefix holds no dash, so
  that the text of an external id parses back.
\<close>

locale storable =
  fixes S :: "('a, 'v) storable_impl"
  assumes prefix_no_dash: "CHR ''-'' \<notin> set (key_prefix S)"
begin

lemma external_id_prefix: "ext_prefix (external_id_of S x) = key_prefix S"
  by (simp add: external_id_of_def ExternalID_new_def)

lemma external_id_uuid: "ext_uuid (external_id_of S x) = uuid_of S x"
  by (simp add: external_id_of_def ExternalID_new_def)

lemma own_prefix_matches: "match_prefix S (ext_prefix (external_id_of S x))"
  by (simp add: external_id_prefix match_prefix_def)

lemma key_inj:
  "uuid_ok U \<Longrightarrow> storable_key U S x = storable_key U S y \<longleftrightarrow> uuid_of S x = uuid_of S y"
  by (simp add: storable_key_inj)

lemma try_from_key_string:
  assumes "uuid_ok U"
  shows "ExternalID_try_from U (key_string U S x) = Ok (external_id_of S x)"
  using assms prefix_no_dash
  by (auto simp: ExternalID_try_from_def key_string_def ExternalID_to_string_def external_id_of_def
        ExternalID_new_def uuid_ok_def takeWhile_append dropWhile_append split: if_splits)

end

lemmas storable_defs =
  storable_function_def storable_input_def storable_output_def storable_staged_def

interpretation st_function: storable "storable_function j" for j
  by unfold_locales (simp add: storable_defs)

interpretation st_input: storable "storable_input j" for j
  by unfold_locales (simp add: storable_defs)

interpretation st_output: storable "storable_output j" for j
  by unfold_locales (simp add: storable_defs)

end
