(* ===== verification/Task_State.thy ===== *)
theory Task_State
  imports Types
begin

text \<open>
  The life of a task, \<^verbatim>\<open>types/src/task_state.rs\<close>: the stored \<^verbatim>\<open>TaskState\<close>, the
  typestate wrapper \<^verbatim>\<open>Task<S>\<close> with one unit type per \<^verbatim>\<open>StateTag\<close>, the
  operations of each state, the conversions from and to the stored state, and
  the step relation \<open>task_step\<close> of what the services do to a stored task
  between one read and the next write of it.

  The lemmas show that the conversion back to a stored state never reaches its
  \<^verbatim>\<open>unwrap\<close> panic, that \<open>task_inv\<close> is kept by every step, that the status only
  advances, and that the data of a task is fixed once somebody approved it.
\<close>

section \<open>The stored state\<close>

record task_state =
  task_id :: uuid
  creator :: user_id
  function_id :: external_id
  function_arguments :: function_arguments
  executor :: executor
  inputs_ownership :: task_file_owners
  outputs_ownership :: task_file_owners
  function_owner :: user_id
  participants :: user_list
  approved_users :: user_list
  assigned_inputs :: "input_file task_files"
  assigned_outputs :: "output_file task_files"
  task_result :: task_result
  status :: task_status

definition storable_task :: "(task_state, 'v) json \<Rightarrow> (task_state, 'v) storable_impl" where
  "storable_task j = \<lparr>key_prefix = ''task'', uuid_of = task_id, codec = j\<rparr>"

definition TaskState_default :: task_state where
  "TaskState_default =
     \<lparr>task_id = 0, creator = [], function_id = \<lparr>ext_prefix = [], ext_uuid = 0\<rparr>,
      function_arguments = fmempty, executor = Executor_default,
      inputs_ownership = fmempty, outputs_ownership = fmempty, function_owner = [],
      participants = {||}, approved_users = {||}, assigned_inputs = fmempty,
      assigned_outputs = fmempty, task_result = NotReady, status = Created\<rparr>"

definition everyone_approved :: "task_state \<Rightarrow> bool" where
  "everyone_approved ts \<longleftrightarrow>
     OwnerList_len (participants ts) = 1 \<or> participants ts = approved_users ts"

definition all_data_assigned :: "task_state \<Rightarrow> bool" where
  "all_data_assigned ts =
     (if fmdom (inputs_ownership ts) \<noteq> fmdom (assigned_inputs ts) then False
      else if fmdom (outputs_ownership ts) \<noteq> fmdom (assigned_outputs ts) then False
      else True)"

definition has_participant :: "task_state \<Rightarrow> user_id \<Rightarrow> bool" where
  "has_participant ts u \<longleftrightarrow> OwnerList_contains (participants ts) u"

definition has_creator :: "task_state \<Rightarrow> user_id \<Rightarrow> bool" where
  "has_creator ts u \<longleftrightarrow> creator ts = u"

section \<open>Tasks in a state\<close>

datatype create_tag = Create
datatype assign_tag = Assign
datatype approve_tag = Approve
datatype stage_tag = Stage
datatype run_tag = Run
datatype finish_tag = Finish
datatype done_tag = Done

record 't task =
  state :: task_state
  extra :: 't

definition Create_new ::
    "user_id \<Rightarrow> executor \<Rightarrow> function_arguments \<Rightarrow> task_file_owners \<Rightarrow> task_file_owners \<Rightarrow> func \<Rightarrow> uuid
     \<Rightarrow> create_tag task anyhow_result" where
  "Create_new requester req_executor req_func_args req_input_owners req_output_owners f fresh =
     (let input_owners = all_owners req_input_owners;
          output_owners = all_owners req_output_owners;
          parts = OwnerList_unions [input_owners, output_owners];
          parts = OwnerList_insert parts requester;
          parts = (if \<not> fn_public f then OwnerList_insert parts (fn_owner f) else parts)
      in
      bind_result (ensure (fset_of_list (fn_arguments f) = fmdom req_func_args)
        (Anyhow ''function_arguments mismatch'' [])) (\<lambda>_.
      bind_result (ensure (fset_of_list (map fi_name (fn_inputs f)) = fmdom req_input_owners)
        (Anyhow ''input keys mismatch'' [])) (\<lambda>_.
      bind_result (ensure (fset_of_list (map fo_name (fn_outputs f)) = fmdom req_output_owners)
        (Anyhow ''output keys mismatch'' [])) (\<lambda>_.
      Ok \<lparr>state = TaskState_default
            \<lparr>task_id := fresh, creator := requester, executor := req_executor,
             function_id := ExternalID_new ''function'' (fn_id f),
             function_owner := fn_owner f, function_arguments := req_func_args,
             inputs_ownership := req_input_owners, outputs_ownership := req_output_owners,
             participants := parts\<rparr>,
          extra = Create\<rparr>))))"

definition Assign_new :: "task_state \<Rightarrow> assign_tag task anyhow_result" where
  "Assign_new ts = Ok \<lparr>state = ts, extra = Assign\<rparr>"

definition assign_input ::
    "assign_tag task \<Rightarrow> user_id \<Rightarrow> string \<Rightarrow> input_file \<Rightarrow> assign_tag task anyhow_result" where
  "assign_input t requester fname f =
     bind_result (ensure (OwnerList_contains (in_owner f) requester)
       (Anyhow ''Assign: requester is not in the owner list. {:?}.'' [FId ''input'' (in_uuid f)])) (\<lambda>_.
     bind_result (TaskFileOwners_check (inputs_ownership (state t)) fname (in_owner f)) (\<lambda>_.
     bind_result (TaskFiles_assign (assigned_inputs (state t)) fname f) (\<lambda>files.
     Ok (t\<lparr>state := (state t)\<lparr>assigned_inputs := files\<rparr>\<rparr>))))"

definition assign_output ::
    "assign_tag task \<Rightarrow> user_id \<Rightarrow> string \<Rightarrow> output_file \<Rightarrow> assign_tag task anyhow_result" where
  "assign_output t requester fname f =
     bind_result (ensure (OwnerList_contains (out_owner f) requester)
       (Anyhow ''Assign: requester is not in the owner list. {:?}.'' [FId ''output'' (out_uuid f)])) (\<lambda>_.
     bind_result (TaskFileOwners_check (outputs_ownership (state t)) fname (out_owner f)) (\<lambda>_.
     bind_result (TaskFiles_assign (assigned_outputs (state t)) fname f) (\<lambda>files.
     Ok (t\<lparr>state := (state t)\<lparr>assigned_outputs := files\<rparr>\<rparr>))))"

definition Approve_new :: "task_state \<Rightarrow> approve_tag task anyhow_result" where
  "Approve_new ts = Ok \<lparr>state = ts, extra = Approve\<rparr>"

definition approve :: "approve_tag task \<Rightarrow> user_id \<Rightarrow> approve_tag task anyhow_result" where
  "approve t requester =
     bind_result (ensure (OwnerList_contains (participants (state t)) requester)
       (Anyhow ''Unexpected user trying to approve a task: {:?}'' [FStr requester])) (\<lambda>_.
     Ok (t\<lparr>state := (state t)\<lparr>approved_users := OwnerList_insert (approved_users (state t)) requester\<rparr>\<rparr>))"

definition Stage_new :: "task_state \<Rightarrow> stage_tag task anyhow_result" where
  "Stage_new ts = Ok \<lparr>state = ts, extra = Stage\<rparr>"

definition stage_for_running :: "stage_tag task \<Rightarrow> user_id \<Rightarrow> func \<Rightarrow> staged_task anyhow_result" where
  "stage_for_running t requester f =
     bind_result (ensure (has_creator (state t) requester)
       (Anyhow ''Requestor is not the task creater'' [])) (\<lambda>_.
     Ok \<lparr>st_task_id = task_id (state t), st_function_id = fn_id f,
         st_executor = executor (state t), st_executor_type = fn_executor_type f,
         st_function_name = fn_name f, st_function_arguments = function_arguments (state t),
         st_function_payload = fn_payload f,
         st_input_data = FunctionInputFiles_from (assigned_inputs (state t)),
         st_output_data = FunctionOutputFiles_from (assigned_outputs (state t))\<rparr>)"

definition Run_new :: "task_state \<Rightarrow> run_tag task anyhow_result" where
  "Run_new ts = Ok \<lparr>state = ts, extra = Run\<rparr>"

definition Finish_new :: "task_state \<Rightarrow> finish_tag task anyhow_result" where
  "Finish_new ts = Ok \<lparr>state = ts, extra = Finish\<rparr>"

definition update_output_cmac ::
    "finish_tag task \<Rightarrow> string \<Rightarrow> file_auth_tag \<Rightarrow> (finish_tag task \<times> output_file) anyhow_result" where
  "update_output_cmac t fname auth_tag =
     bind_result (TaskFiles_update_cmac (assigned_outputs (state t)) fname auth_tag) (\<lambda>(files, f).
     Ok (t\<lparr>state := (state t)\<lparr>assigned_outputs := files\<rparr>\<rparr>, f))"

definition update_result :: "finish_tag task \<Rightarrow> task_result \<Rightarrow> finish_tag task anyhow_result" where
  "update_result t r = Ok (t\<lparr>state := (state t)\<lparr>task_result := r\<rparr>\<rparr>)"

definition Done_new :: "task_state \<Rightarrow> done_tag task anyhow_result" where
  "Done_new ts = Ok \<lparr>state = ts, extra = Done\<rparr>"

section \<open>Transitions\<close>

definition ready_Assign :: "assign_tag task \<Rightarrow> bool" where
  "ready_Assign t \<longleftrightarrow> all_data_assigned (state t)"

definition transit_Assign :: "assign_tag task \<Rightarrow> approve_tag task anyhow_result" where
  "transit_Assign t =
     bind_result (ensure (ready_Assign t) (Anyhow ''Not ready: Assign -> Approve'' [])) (\<lambda>_.
     Approve_new (state t))"

definition ready_Approve :: "approve_tag task \<Rightarrow> bool" where
  "ready_Approve t \<longleftrightarrow> everyone_approved (state t)"

definition transit_Approve :: "approve_tag task \<Rightarrow> stage_tag task anyhow_result" where
  "transit_Approve t =
     bind_result (ensure (ready_Approve t) (Anyhow ''Not ready: Apporve -> Stage'' [])) (\<lambda>_.
     Stage_new (state t))"

text \<open>The default body of \<^verbatim>\<open>ready_for_transition\<close>, used by the last three transitions.\<close>

definition ready_default :: "'t task \<Rightarrow> bool" where
  "ready_default t \<longleftrightarrow> True"

definition transit_Stage :: "stage_tag task \<Rightarrow> run_tag task anyhow_result" where
  "transit_Stage t = Run_new (state t)"

definition transit_Run :: "run_tag task \<Rightarrow> finish_tag task anyhow_result" where
  "transit_Run t = Finish_new (state t)"

definition transit_Finish :: "finish_tag task \<Rightarrow> done_tag task anyhow_result" where
  "transit_Finish t = Done_new (state t)"

section \<open>From a stored state to a task and back\<close>

definition Assign_try_from :: "task_state \<Rightarrow> assign_tag task anyhow_result" where
  "Assign_try_from ts =
     (case status ts of
        Created \<Rightarrow> Assign_new ts
      | _ \<Rightarrow> Err (Anyhow ''Cannot restore to Assign from saved state '' []))"

definition Approve_try_from :: "task_state \<Rightarrow> approve_tag task anyhow_result" where
  "Approve_try_from ts =
     (case status ts of
        Created \<Rightarrow> bind_result (Assign_try_from ts) transit_Assign
      | DataAssigned \<Rightarrow> Approve_new ts
      | _ \<Rightarrow> Err (Anyhow ''Cannot restore to Approve from saved state'' []))"

definition Stage_try_from :: "task_state \<Rightarrow> stage_tag task anyhow_result" where
  "Stage_try_from ts =
     (case status ts of
        Created \<Rightarrow> bind_result (Approve_try_from ts) transit_Approve
      | DataAssigned \<Rightarrow> bind_result (Approve_try_from ts) transit_Approve
      | Approved \<Rightarrow> Stage_new ts
      | _ \<Rightarrow> Err (Anyhow ''Cannot restore to Stage from saved state'' []))"

definition Run_try_from :: "task_state \<Rightarrow> run_tag task anyhow_result" where
  "Run_try_from ts =
     (case status ts of
        Staged \<Rightarrow> Run_new ts
      | _ \<Rightarrow> Err (Anyhow ''Cannot restore to Run from saved state'' []))"

definition Finish_try_from :: "task_state \<Rightarrow> finish_tag task anyhow_result" where
  "Finish_try_from ts =
     (case status ts of
        Running \<Rightarrow> Finish_new ts
      | _ \<Rightarrow> Err (Anyhow ''Cannot restore to Finish from saved state'' []))"

fun status_of_Create :: "create_tag \<Rightarrow> task_status" where "status_of_Create Create = Created"
fun status_of_Assign :: "assign_tag \<Rightarrow> task_status" where "status_of_Assign Assign = Created"
fun status_of_Approve :: "approve_tag \<Rightarrow> task_status" where "status_of_Approve Approve = DataAssigned"
fun status_of_Stage :: "stage_tag \<Rightarrow> task_status" where "status_of_Stage Stage = Approved"
fun status_of_Run :: "run_tag \<Rightarrow> task_status" where "status_of_Run Run = Staged"
fun status_of_Finish :: "finish_tag \<Rightarrow> task_status" where "status_of_Finish Finish = Running"
fun status_of_Done :: "done_tag \<Rightarrow> task_status" where "status_of_Done Done = Finished"

definition Create_into :: "create_tag task \<Rightarrow> task_state" where
  "Create_into t = (state t)\<lparr>status := Created\<rparr>"

text \<open>The macro \<^verbatim>\<open>impl_transit_and_into_task_state\<close>, at one pair of tags.\<close>

definition transit_and_into_task_state ::
    "('c task \<Rightarrow> bool) \<Rightarrow> ('c task \<Rightarrow> 'n task anyhow_result) \<Rightarrow> ('c \<Rightarrow> task_status) \<Rightarrow> ('n \<Rightarrow> task_status)
     \<Rightarrow> 'c task \<Rightarrow> (task_state, 'e) result" where
  "transit_and_into_task_state ready transit cur nxt t =
     (if ready t then bind_result (unwrap (transit t)) (\<lambda>nt. Ok ((state nt)\<lparr>status := nxt (extra nt)\<rparr>))
      else Ok ((state t)\<lparr>status := cur (extra t)\<rparr>))"

definition Assign_into :: "assign_tag task \<Rightarrow> (task_state, 'e) result" where
  "Assign_into = transit_and_into_task_state ready_Assign transit_Assign status_of_Assign status_of_Approve"

definition Approve_into :: "approve_tag task \<Rightarrow> (task_state, 'e) result" where
  "Approve_into = transit_and_into_task_state ready_Approve transit_Approve status_of_Approve status_of_Stage"

definition Stage_into :: "stage_tag task \<Rightarrow> (task_state, 'e) result" where
  "Stage_into = transit_and_into_task_state ready_default transit_Stage status_of_Stage status_of_Run"

definition Run_into :: "run_tag task \<Rightarrow> (task_state, 'e) result" where
  "Run_into = transit_and_into_task_state ready_default transit_Run status_of_Run status_of_Finish"

definition Finish_into :: "finish_tag task \<Rightarrow> (task_state, 'e) result" where
  "Finish_into = transit_and_into_task_state ready_default transit_Finish status_of_Finish status_of_Done"

section \<open>Steps of a stored task\<close>

text \<open>
  What one call of a service does to a stored task: the conversions from and to
  the stored state with the operations between them.  \<open>assign_inputs\<close>,
  \<open>assign_outputs\<close> and \<open>update_outputs\<close> are the loops of the callers over the
  entries of the request, in the order of its maps.
\<close>

fun assign_inputs :: "user_id \<Rightarrow> assign_tag task \<Rightarrow> (string \<times> input_file) list \<Rightarrow> assign_tag task anyhow_result" where
  "assign_inputs u t [] = Ok t"
| "assign_inputs u t ((n, f) # rest) = bind_result (assign_input t u n f) (\<lambda>t'. assign_inputs u t' rest)"

fun assign_outputs :: "user_id \<Rightarrow> assign_tag task \<Rightarrow> (string \<times> output_file) list \<Rightarrow> assign_tag task anyhow_result" where
  "assign_outputs u t [] = Ok t"
| "assign_outputs u t ((n, f) # rest) = bind_result (assign_output t u n f) (\<lambda>t'. assign_outputs u t' rest)"

fun update_outputs :: "finish_tag task \<Rightarrow> (string \<times> file_auth_tag) list \<Rightarrow> finish_tag task anyhow_result" where
  "update_outputs t [] = Ok t"
| "update_outputs t ((n, a) # rest) =
     bind_result (update_output_cmac t n a) (\<lambda>(t', _). update_outputs t' rest)"

datatype task_event =
    AssignData user_id
  | ApproveTask user_id
  | InvokeTask user_id staged_task
  | UpdateStatus
  | UpdateResult task_result

inductive task_step :: "task_state \<Rightarrow> task_event \<Rightarrow> task_state \<Rightarrow> bool" where
  step_assign: "has_participant ts u \<Longrightarrow> Assign_try_from ts = Ok t \<Longrightarrow> assign_inputs u t ins = Ok t1 \<Longrightarrow>
    assign_outputs u t1 outs = Ok t2 \<Longrightarrow> Assign_into t2 = (Ok ts' :: task_state anyhow_result) \<Longrightarrow>
    task_step ts (AssignData u) ts'"
| step_approve: "Approve_try_from ts = Ok t \<Longrightarrow> approve t u = Ok t1 \<Longrightarrow>
    Approve_into t1 = (Ok ts' :: task_state anyhow_result) \<Longrightarrow> task_step ts (ApproveTask u) ts'"
| step_invoke: "has_creator ts u \<Longrightarrow> ext_uuid (function_id ts) = fn_id f \<Longrightarrow> Stage_try_from ts = Ok t \<Longrightarrow>
    stage_for_running t u f = Ok st \<Longrightarrow> Stage_into t = (Ok ts' :: task_state anyhow_result) \<Longrightarrow>
    task_step ts (InvokeTask u st) ts'"
| step_run: "Run_try_from ts = Ok t \<Longrightarrow> Run_into t = (Ok ts' :: task_state anyhow_result) \<Longrightarrow>
    task_step ts UpdateStatus ts'"
| step_finish: "Finish_try_from ts = Ok t \<Longrightarrow> update_outputs t tags = Ok t1 \<Longrightarrow> update_result t1 r = Ok t2 \<Longrightarrow>
    Finish_into t2 = (Ok ts' :: task_state anyhow_result) \<Longrightarrow> task_step ts (UpdateResult r) ts'"

inductive task_steps :: "task_state \<Rightarrow> task_event list \<Rightarrow> task_state \<Rightarrow> bool" where
  steps_nil: "task_steps ts [] ts"
| steps_snoc: "task_steps ts es ts' \<Longrightarrow> task_step ts' e ts'' \<Longrightarrow> task_steps ts (es @ [e]) ts''"

section \<open>Invariant\<close>

definition files_owned :: "task_state \<Rightarrow> bool" where
  "files_owned ts \<longleftrightarrow>
     (\<forall>n f. fmlookup (assigned_inputs ts) n = Some f \<longrightarrow> fmlookup (inputs_ownership ts) n = Some (in_owner f)) \<and>
     (\<forall>n f. fmlookup (assigned_outputs ts) n = Some f \<longrightarrow> fmlookup (outputs_ownership ts) n = Some (out_owner f))"

definition task_inv :: "task_state \<Rightarrow> bool" where
  "task_inv ts \<longleftrightarrow>
     creator ts |\<in>| participants ts \<and>
     all_owners (inputs_ownership ts) |\<subseteq>| participants ts \<and>
     all_owners (outputs_ownership ts) |\<subseteq>| participants ts \<and>
     approved_users ts |\<subseteq>| participants ts \<and>
     files_owned ts \<and>
     (status ts = Created \<longrightarrow> approved_users ts = {||}) \<and>
     (status ts \<noteq> Created \<longrightarrow> all_data_assigned ts) \<and>
     (status ts \<notin> {Created, DataAssigned} \<longrightarrow> everyone_approved ts) \<and>
     (status ts \<noteq> Finished \<longrightarrow> task_result ts = NotReady)"

text \<open>The statuses in the order of a task's life.\<close>

fun task_status_rank :: "task_status \<Rightarrow> nat" where
  "task_status_rank Created = 0"
| "task_status_rank DataAssigned = 1"
| "task_status_rank Approved = 2"
| "task_status_rank Staged = 3"
| "task_status_rank Running = 4"
| "task_status_rank Finished = 5"

instantiation task_status :: linorder
begin

definition less_eq_task_status :: "task_status \<Rightarrow> task_status \<Rightarrow> bool" where
  "less_eq_task_status a b \<longleftrightarrow> task_status_rank a \<le> task_status_rank b"

definition less_task_status :: "task_status \<Rightarrow> task_status \<Rightarrow> bool" where
  "less_task_status a b \<longleftrightarrow> task_status_rank a < task_status_rank b"

instance
proof
  fix a b :: task_status
  assume "a \<le> b" "b \<le> a"
  then show "a = b" by (cases a; cases b; simp add: less_eq_task_status_def)
qed (auto simp: less_eq_task_status_def less_task_status_def)

end

text \<open>What an approver consents to: everything of the task that a staged task is built from.\<close>

definition task_content ::
    "task_state \<Rightarrow> external_id \<times> function_arguments \<times> executor \<times> input_file task_files
       \<times> (string, function_output_file) fmap" where
  "task_content ts =
     (function_id ts, function_arguments ts, executor ts, assigned_inputs ts,
      FunctionOutputFiles_from (assigned_outputs ts))"

text \<open>The part of a task that is fixed at its creation.\<close>

definition task_fixed ::
    "task_state \<Rightarrow> uuid \<times> user_id \<times> external_id \<times> function_arguments \<times> executor
       \<times> task_file_owners \<times> task_file_owners \<times> user_id \<times> user_list" where
  "task_fixed ts =
     (task_id ts, creator ts, function_id ts, function_arguments ts, executor ts,
      inputs_ownership ts, outputs_ownership ts, function_owner ts, participants ts)"

section \<open>The transition contract\<close>

text \<open>
  What the conversion macro relies on: \<^verbatim>\<open>We assume that if it's ready for
  transistion, the result is always Ok.\<close>
\<close>

locale transition =
  fixes ready :: "'c task \<Rightarrow> bool"
    and transit :: "'c task \<Rightarrow> 'n task anyhow_result"
    and cur :: "'c \<Rightarrow> task_status" and nxt :: "'n \<Rightarrow> task_status"
    and cur_status :: task_status and next_status :: task_status
  assumes ready_transit: "ready t \<Longrightarrow> \<exists>nt. transit t = Ok nt \<and> state nt = state t"
    and cur_tag: "cur e = cur_status"
    and next_tag: "nxt e' = next_status"
begin

lemma into_task_state:
  "transit_and_into_task_state ready transit cur nxt t =
   Ok ((state t)\<lparr>status := (if ready t then next_status else cur_status)\<rparr>)"
  using ready_transit [of t]
  by (auto simp: transit_and_into_task_state_def cur_tag next_tag unwrap_def)

lemma into_no_panic: "transit_and_into_task_state ready transit cur nxt t \<noteq> Panic"
  by (simp add: into_task_state)

end

lemma status_of_tag [simp]:
  "status_of_Create e0 = Created" "status_of_Assign e1 = Created" "status_of_Approve e2 = DataAssigned"
  "status_of_Stage e3 = Approved" "status_of_Run e4 = Staged" "status_of_Finish e5 = Running"
  "status_of_Done e6 = Finished"
  by (cases e0, simp) (cases e1, simp, cases e2, simp, cases e3, simp, cases e4, simp, cases e5, simp, cases e6, simp)

lemmas task_new_defs = Assign_new_def Approve_new_def Stage_new_def Run_new_def Finish_new_def Done_new_def

lemmas transit_defs = transit_Assign_def transit_Approve_def transit_Stage_def transit_Run_def transit_Finish_def

interpretation tr_assign: transition ready_Assign transit_Assign status_of_Assign status_of_Approve Created DataAssigned
  by unfold_locales (auto simp: transit_defs task_new_defs)

interpretation tr_approve: transition ready_Approve transit_Approve status_of_Approve status_of_Stage DataAssigned Approved
  by unfold_locales (auto simp: transit_defs task_new_defs)

interpretation tr_stage: transition ready_default transit_Stage status_of_Stage status_of_Run Approved Staged
  by unfold_locales (auto simp: transit_defs task_new_defs)

interpretation tr_run: transition ready_default transit_Run status_of_Run status_of_Finish Staged Running
  by unfold_locales (auto simp: transit_defs task_new_defs)

interpretation tr_finish: transition ready_default transit_Finish status_of_Finish status_of_Done Running Finished
  by unfold_locales (auto simp: transit_defs task_new_defs)

interpretation st_task: storable "storable_task j" for j
  by unfold_locales (simp add: storable_task_def)

lemmas into_eqs [simp] =
  tr_assign.into_task_state [folded Assign_into_def]
  tr_approve.into_task_state [folded Approve_into_def]
  tr_stage.into_task_state [folded Stage_into_def]
  tr_run.into_task_state [folded Run_into_def]
  tr_finish.into_task_state [folded Finish_into_def]

section \<open>Operations on every branch\<close>

lemma assign_input_Ok [res_simps]:
  "assign_input t u n f = Ok t' \<longleftrightarrow>
   u |\<in>| in_owner f \<and> fmlookup (inputs_ownership (state t)) n = Some (in_owner f) \<and>
   fmlookup (assigned_inputs (state t)) n = None \<and>
   t' = t\<lparr>state := (state t)\<lparr>assigned_inputs := fmupd n f (assigned_inputs (state t))\<rparr>\<rparr>"
  by (auto simp: assign_input_def OwnerList_contains_def res_simps)

lemma assign_output_Ok [res_simps]:
  "assign_output t u n f = Ok t' \<longleftrightarrow>
   u |\<in>| out_owner f \<and> fmlookup (outputs_ownership (state t)) n = Some (out_owner f) \<and>
   fmlookup (assigned_outputs (state t)) n = None \<and>
   t' = t\<lparr>state := (state t)\<lparr>assigned_outputs := fmupd n f (assigned_outputs (state t))\<rparr>\<rparr>"
  by (auto simp: assign_output_def OwnerList_contains_def res_simps)

lemma approve_Ok [res_simps]:
  "approve t u = Ok t' \<longleftrightarrow> u |\<in>| participants (state t) \<and>
   t' = t\<lparr>state := (state t)\<lparr>approved_users := finsert u (approved_users (state t))\<rparr>\<rparr>"
  by (auto simp: approve_def OwnerList_contains_def OwnerList_insert_def res_simps)

lemma update_output_cmac_Ok [res_simps]:
  "update_output_cmac t n a = Ok (t', f') \<longleftrightarrow>
   (\<exists>f. fmlookup (assigned_outputs (state t)) n = Some f \<and> out_cmac f = None \<and>
      f' = f\<lparr>out_cmac := Some a\<rparr> \<and>
      t' = t\<lparr>state := (state t)\<lparr>assigned_outputs := fmupd n f' (assigned_outputs (state t))\<rparr>\<rparr>)"
  by (auto simp: update_output_cmac_def res_simps)

lemma Assign_try_from_Ok [res_simps]:
  "Assign_try_from ts = Ok t \<longleftrightarrow> status ts = Created \<and> t = \<lparr>state = ts, extra = Assign\<rparr>"
  by (auto simp: Assign_try_from_def task_new_defs split: task_status.splits)

lemma Approve_try_from_Ok [res_simps]:
  "Approve_try_from ts = Ok t \<longleftrightarrow>
   (status ts = Created \<and> all_data_assigned ts \<or> status ts = DataAssigned) \<and> t = \<lparr>state = ts, extra = Approve\<rparr>"
  by (auto simp: Approve_try_from_def transit_defs ready_Assign_def task_new_defs res_simps split: task_status.splits)

lemma Stage_try_from_Ok [res_simps]:
  "Stage_try_from ts = Ok t \<longleftrightarrow>
   ((status ts = Created \<and> all_data_assigned ts \<or> status ts = DataAssigned) \<and> everyone_approved ts
    \<or> status ts = Approved) \<and> t = \<lparr>state = ts, extra = Stage\<rparr>"
  by (auto simp: Stage_try_from_def transit_defs ready_Approve_def task_new_defs res_simps split: task_status.splits)

lemma Run_try_from_Ok [res_simps]:
  "Run_try_from ts = Ok t \<longleftrightarrow> status ts = Staged \<and> t = \<lparr>state = ts, extra = Run\<rparr>"
  by (auto simp: Run_try_from_def task_new_defs split: task_status.splits)

lemma Finish_try_from_Ok [res_simps]:
  "Finish_try_from ts = Ok t \<longleftrightarrow> status ts = Running \<and> t = \<lparr>state = ts, extra = Finish\<rparr>"
  by (auto simp: Finish_try_from_def task_new_defs split: task_status.splits)

lemma stage_for_running_Ok [res_simps]:
  "stage_for_running t u f = Ok st \<longleftrightarrow> creator (state t) = u \<and>
   st = \<lparr>st_task_id = task_id (state t), st_function_id = fn_id f,
         st_executor = executor (state t), st_executor_type = fn_executor_type f,
         st_function_name = fn_name f, st_function_arguments = function_arguments (state t),
         st_function_payload = fn_payload f,
         st_input_data = FunctionInputFiles_from (assigned_inputs (state t)),
         st_output_data = FunctionOutputFiles_from (assigned_outputs (state t))\<rparr>"
  by (auto simp: stage_for_running_def has_creator_def res_simps)

text \<open>No operation of a task panics.\<close>

lemma task_op_no_Panic [simp]:
  "Create_new u ex ar ins outs fn fresh \<noteq> Panic"
  "assign_input t1 u n i \<noteq> Panic"
  "assign_output t1 u n out \<noteq> Panic"
  "approve t2 u \<noteq> Panic"
  "stage_for_running t3 u fn \<noteq> Panic"
  "update_output_cmac t4 n a \<noteq> Panic"
  "update_result t4 r \<noteq> Panic"
  by (auto simp: Create_new_def assign_input_def assign_output_def approve_def stage_for_running_def
      update_output_cmac_def update_result_def TaskFileOwners_check_def TaskFiles_assign_def
      TaskFiles_update_cmac_def assign_cmac_def Let_def res_simps split: option.splits)

lemma try_from_no_Panic [simp]:
  "Assign_try_from ts \<noteq> Panic" "Approve_try_from ts \<noteq> Panic" "Stage_try_from ts \<noteq> Panic"
  "Run_try_from ts \<noteq> Panic" "Finish_try_from ts \<noteq> Panic"
  by (auto simp: Assign_try_from_def Approve_try_from_def Stage_try_from_def Run_try_from_def Finish_try_from_def
      task_new_defs transit_defs res_simps split: task_status.splits)

text \<open>Which fields the predicates of a stored task depend on.\<close>

lemma all_data_assigned_update [simp]:
  "all_data_assigned (ts\<lparr>status := s\<rparr>) = all_data_assigned ts"
  "all_data_assigned (ts\<lparr>approved_users := a\<rparr>) = all_data_assigned ts"
  "all_data_assigned (ts\<lparr>task_result := r\<rparr>) = all_data_assigned ts"
  by (simp_all add: all_data_assigned_def)

lemma all_data_assigned_outputs:
  "fmdom m = fmdom (assigned_outputs ts) \<Longrightarrow>
   all_data_assigned (ts\<lparr>assigned_outputs := m\<rparr>) = all_data_assigned ts"
  by (simp add: all_data_assigned_def)

lemma everyone_approved_update [simp]:
  "everyone_approved (ts\<lparr>status := s\<rparr>) = everyone_approved ts"
  "everyone_approved (ts\<lparr>task_result := r\<rparr>) = everyone_approved ts"
  "everyone_approved (ts\<lparr>assigned_inputs := mi\<rparr>) = everyone_approved ts"
  "everyone_approved (ts\<lparr>assigned_outputs := mo\<rparr>) = everyone_approved ts"
  by (simp_all add: everyone_approved_def)

lemma files_owned_update [simp]:
  "files_owned (ts\<lparr>status := s\<rparr>) = files_owned ts"
  "files_owned (ts\<lparr>approved_users := a\<rparr>) = files_owned ts"
  "files_owned (ts\<lparr>task_result := r\<rparr>) = files_owned ts"
  by (simp_all add: files_owned_def)

text \<open>The loops touch one table only and keep the ownership of the files in it.\<close>

lemma assign_inputs_frame:
  "assign_inputs u t ins = Ok t' \<Longrightarrow> \<exists>m. state t' = (state t)\<lparr>assigned_inputs := m\<rparr>"
proof (induction u t ins rule: assign_inputs.induct)
  case 1
  then show ?case by (auto intro: exI [of _ "assigned_inputs (state t')"])
qed (fastforce simp: res_simps)

lemma assign_inputs_owned:
  "assign_inputs u t ins = Ok t' \<Longrightarrow> files_owned (state t) \<Longrightarrow> files_owned (state t')"
  by (induction u t ins rule: assign_inputs.induct) (auto simp: res_simps files_owned_def)

lemma assign_outputs_frame:
  "assign_outputs u t outs = Ok t' \<Longrightarrow> \<exists>m. state t' = (state t)\<lparr>assigned_outputs := m\<rparr>"
proof (induction u t outs rule: assign_outputs.induct)
  case 1
  then show ?case by (auto intro: exI [of _ "assigned_outputs (state t')"])
qed (fastforce simp: res_simps)

lemma assign_outputs_owned:
  "assign_outputs u t outs = Ok t' \<Longrightarrow> files_owned (state t) \<Longrightarrow> files_owned (state t')"
  by (induction u t outs rule: assign_outputs.induct) (auto simp: res_simps files_owned_def)

lemma update_outputs_frame:
  "update_outputs t tags = Ok t' \<Longrightarrow> \<exists>m. state t' = (state t)\<lparr>assigned_outputs := m\<rparr>"
proof (induction t tags rule: update_outputs.induct)
  case 1
  then show ?case by (auto intro: exI [of _ "assigned_outputs (state t')"])
qed (fastforce simp: res_simps)

lemma update_outputs_owned:
  "update_outputs t tags = Ok t' \<Longrightarrow> files_owned (state t) \<Longrightarrow> files_owned (state t')"
  by (induction t tags rule: update_outputs.induct) (auto simp: res_simps files_owned_def)

lemma update_outputs_dom:
  "update_outputs t tags = Ok t' \<Longrightarrow> fmdom (assigned_outputs (state t')) = fmdom (assigned_outputs (state t))"
  by (induction t tags rule: update_outputs.induct) (auto simp: res_simps finsert_absorb in_fmdom_iff)

lemma FunctionOutputFiles_from_cmac:
  "fmlookup m n = Some f \<Longrightarrow>
   FunctionOutputFiles_from (fmupd n (f\<lparr>out_cmac := c\<rparr>) m) = FunctionOutputFiles_from m"
  by (rule fmap_ext) (auto simp: FunctionOutputFiles_from_def FunctionOutputFile_from_def)

lemma update_outputs_content:
  "update_outputs t tags = Ok t' \<Longrightarrow>
   FunctionOutputFiles_from (assigned_outputs (state t')) = FunctionOutputFiles_from (assigned_outputs (state t))"
  by (induction t tags rule: update_outputs.induct) (auto simp: res_simps FunctionOutputFiles_from_cmac)

section \<open>The invariant is kept\<close>

inductive_cases task_stepE: "task_step ts e ts'"

lemma Create_new_inv:
  assumes "Create_new u ex args ins outs f fresh = Ok t"
  shows "task_inv (Create_into t)"
  using assms
  by (auto simp: Create_new_def Create_into_def task_inv_def files_owned_def TaskState_default_def
        OwnerList_unions_def OwnerList_union_def OwnerList_insert_def Let_def res_simps)

text \<open>One step, with the loops replaced by what they can do to the state.\<close>

lemma task_step_cases:
  assumes "task_step ts e ts'"
  obtains
    (assign) u ins outs where "e = AssignData u" "u |\<in>| participants ts" "status ts = Created"
      "ts' = ts\<lparr>assigned_inputs := ins, assigned_outputs := outs,
        status := (if all_data_assigned (ts\<lparr>assigned_inputs := ins, assigned_outputs := outs\<rparr>)
          then DataAssigned else Created)\<rparr>"
      "files_owned ts \<Longrightarrow> files_owned ts'"
  | (approve) u where "e = ApproveTask u" "u |\<in>| participants ts"
      "status ts = Created \<and> all_data_assigned ts \<or> status ts = DataAssigned"
      "ts' = ts\<lparr>approved_users := finsert u (approved_users ts),
        status := (if everyone_approved (ts\<lparr>approved_users := finsert u (approved_users ts)\<rparr>)
          then Approved else DataAssigned)\<rparr>"
  | (invoke) u f st where "e = InvokeTask u st" "creator ts = u" "ext_uuid (function_id ts) = fn_id f"
      "(status ts = Created \<and> all_data_assigned ts \<or> status ts = DataAssigned) \<and> everyone_approved ts
        \<or> status ts = Approved"
      "stage_for_running \<lparr>state = ts, extra = Stage\<rparr> u f = Ok st" "ts' = ts\<lparr>status := Staged\<rparr>"
  | (run) "e = UpdateStatus" "status ts = Staged" "ts' = ts\<lparr>status := Running\<rparr>"
  | (finish) r outs where "e = UpdateResult r" "status ts = Running"
      "ts' = ts\<lparr>assigned_outputs := outs, task_result := r, status := Finished\<rparr>"
      "fmdom outs = fmdom (assigned_outputs ts)"
      "FunctionOutputFiles_from outs = FunctionOutputFiles_from (assigned_outputs ts)"
      "files_owned ts \<Longrightarrow> files_owned ts'"
  using assms
proof cases
  case (step_assign u t ins t1 outs t2)
  from step_assign have t: "t = \<lparr>state = ts, extra = Assign\<rparr>" "status ts = Created"
    by (auto simp: res_simps)
  obtain mi where mi: "state t1 = ts\<lparr>assigned_inputs := mi\<rparr>"
    using assign_inputs_frame [OF step_assign(4)] t by auto
  obtain mo where mo: "state t2 = ts\<lparr>assigned_inputs := mi, assigned_outputs := mo\<rparr>"
    using assign_outputs_frame [OF step_assign(5)] mi by auto
  have ts': "ts' = (state t2)\<lparr>status := (if all_data_assigned (state t2) then DataAssigned else Created)\<rparr>"
    using step_assign(6) by (simp add: ready_Assign_def)
  have "files_owned ts \<Longrightarrow> files_owned (state t2)"
    using assign_inputs_owned [OF step_assign(4)] assign_outputs_owned [OF step_assign(5)] t by simp
  then have "files_owned ts \<Longrightarrow> files_owned ts'" unfolding ts' by simp
  with step_assign t ts' mo show thesis
    by (intro assign [where u = u and ins = mi and outs = mo]) (simp_all add: has_participant_def OwnerList_contains_def)
next
  case (step_approve t u t1)
  then show thesis
    by (intro approve [of u]) (auto simp: res_simps ready_Approve_def)
next
  case (step_invoke u f t st)
  then show thesis
    by (intro invoke [where u = u and st = st and f = f]) (auto simp: res_simps has_creator_def ready_default_def)
next
  case (step_run t)
  then show thesis by (intro run) (auto simp: res_simps ready_default_def)
next
  case (step_finish t tags t1 r t2)
  from step_finish have t: "t = \<lparr>state = ts, extra = Finish\<rparr>" "status ts = Running"
    by (auto simp: res_simps)
  obtain mo where mo: "state t1 = ts\<lparr>assigned_outputs := mo\<rparr>"
    using update_outputs_frame [OF step_finish(3)] t by auto
  with step_finish have ts': "ts' = ts\<lparr>assigned_outputs := mo, task_result := r, status := Finished\<rparr>"
    by (auto simp: update_result_def ready_default_def)
  have "files_owned ts \<Longrightarrow> files_owned (state t1)"
    using update_outputs_owned [OF step_finish(3)] t by simp
  then have "files_owned ts \<Longrightarrow> files_owned ts'" unfolding ts' mo by (simp add: files_owned_def)
  with step_finish(1) t ts' mo update_outputs_dom [OF step_finish(3)] update_outputs_content [OF step_finish(3)]
  show thesis by (intro finish [where r = r and outs = mo]) simp_all
qed

lemma task_step_fixed: "task_step ts e ts' \<Longrightarrow> task_fixed ts' = task_fixed ts"
  by (erule task_step_cases) (simp_all add: task_fixed_def)

lemma task_step_inv:
  assumes "task_step ts e ts'" and "task_inv ts"
  shows "task_inv ts'"
  using assms(1)
proof (cases rule: task_step_cases)
  case (assign u ins outs)
  then show ?thesis using assms(2) by (simp add: task_inv_def)
next
  case (approve u)
  then show ?thesis using assms(2) by (auto simp: task_inv_def)
next
  case (invoke u f st)
  then show ?thesis using assms(2) by (auto simp: task_inv_def)
next
  case run
  then show ?thesis using assms(2) by (simp add: task_inv_def)
next
  case (finish r outs)
  then show ?thesis using assms(2) by (simp add: task_inv_def all_data_assigned_outputs)
qed

lemma task_step_status:
  assumes "task_step ts e ts'"
  shows "status ts \<le> status ts' \<and> (status ts' = Finished \<longrightarrow> status ts = Running)"
  using assms
  by (cases rule: task_step_cases) (auto simp: less_eq_task_status_def)

lemma task_step_content:
  assumes "task_step ts e ts'" and "task_inv ts" and "approved_users ts \<noteq> {||}"
  shows "task_content ts' = task_content ts \<and> approved_users ts |\<subseteq>| approved_users ts'"
  using assms(1)
proof (cases rule: task_step_cases)
  case (assign u ins outs)
  with assms show ?thesis by (simp add: task_inv_def)
qed (auto simp: task_content_def)

section \<open>Runs\<close>

lemma task_steps_append:
  assumes "task_steps ts es ts'" "task_steps ts' es' ts''"
  shows "task_steps ts (es @ es') ts''"
  using assms(2,1)
proof (induction rule: task_steps.induct)
  case (steps_snoc t0 es1 t1 e t2)
  then show ?case using task_steps.steps_snoc [of ts "es @ es1" t1 e t2] by simp
qed simp

lemma task_steps_inv: "task_steps ts es ts' \<Longrightarrow> task_inv ts \<Longrightarrow> task_inv ts'"
  by (induction rule: task_steps.induct) (auto intro: task_step_inv)

lemma task_steps_content:
  assumes "task_steps ts es ts'" "task_inv ts" "approved_users ts \<noteq> {||}"
  shows "task_content ts' = task_content ts \<and> approved_users ts |\<subseteq>| approved_users ts'"
  using assms
proof (induction rule: task_steps.induct)
  case (steps_snoc ts es ts' e ts'')
  then have "task_content ts' = task_content ts \<and> approved_users ts |\<subseteq>| approved_users ts'" by simp
  with steps_snoc task_step_content [of ts' e ts''] task_steps_inv [of ts es ts'] show ?case by auto
qed simp

lemma task_steps_fixed: "task_steps ts es ts' \<Longrightarrow> task_fixed ts' = task_fixed ts"
  by (induction rule: task_steps.induct) (auto dest: task_step_fixed)

lemma task_steps_status: "task_steps ts es ts' \<Longrightarrow> status ts \<le> status ts'"
  by (induction rule: task_steps.induct) (auto dest: task_step_status)

lemma task_steps_approved:
  assumes "task_steps ts es ts'" and "task_inv ts" and "u |\<in>| approved_users ts'"
  shows "u |\<in>| approved_users ts \<or> ApproveTask u \<in> set es"
  using assms
proof (induction rule: task_steps.induct)
  case (steps_snoc ts es ts' e ts'')
  from steps_snoc(2) have "u |\<in>| approved_users ts' \<or> e = ApproveTask u"
    using steps_snoc(5) by (cases rule: task_step_cases) auto
  with steps_snoc show ?case by auto
qed simp

end
