(* ===== verification/Storage_Client.thy ===== *)
theory Storage_Client
  imports Task_State
begin

text \<open>
  The storage service as its clients see it: RPC requests (\<^verbatim>\<open>rpc/src/request.rs\<close>),
  the five calls of \<^verbatim>\<open>TeaclaveStorageClient\<close> (\<^verbatim>\<open>services/proto\<close>) as a record of
  operations on the state of the service, and the abstract store
  \<open>ideal_client\<close>: a map from keys to values beside one list per queue.

  The locale \<open>storage_service\<close> is the contract between the clients (management
  and scheduler) and the provider: every call simulates the abstract store as
  long as the provider has room.  \<open>sim_op\<close> is the simulation and composes along
  \<open>bind_op\<close>, so that every handler written with it inherits the contract.
\<close>

section \<open>Requests\<close>

type_synonym metadata = "(string, string) fmap"

record 'm request =
  metadata :: metadata
  message :: 'm

definition Request_new :: "'m \<Rightarrow> 'm request" where
  "Request_new msg = \<lparr>metadata = fmempty, message = msg\<rparr>"

definition Request_map :: "('m \<Rightarrow> 'n) \<Rightarrow> 'm request \<Rightarrow> 'n request" where
  "Request_map f r = \<lparr>metadata = metadata r, message = f (message r)\<rparr>"

section \<open>The client\<close>

text \<open>
  The client sits behind an \<^verbatim>\<open>Arc<Mutex<_>>\<close>; \<open>sc_lock\<close> tells whether \<^verbatim>\<open>lock()\<close>
  succeeds, that is, the mutex is not poisoned.
\<close>

type_synonym ('s, 'a) service_op = "('s, 'a, teaclave_service_response_error) op"

record ('s, 'v) storage_client =
  sc_lock :: "'s \<Rightarrow> bool"
  sc_get :: "bytes \<Rightarrow> ('s, 'v) service_op"
  sc_put :: "bytes \<Rightarrow> 'v \<Rightarrow> ('s, unit) service_op"
  sc_enqueue :: "bytes \<Rightarrow> 'v \<Rightarrow> ('s, unit) service_op"
  sc_dequeue :: "bytes \<Rightarrow> ('s, 'v) service_op"

definition lock_op :: "('s, 'v) storage_client \<Rightarrow> 'e \<Rightarrow> ('s, unit, 'e) op" where
  "lock_op C e s = (ensure (sc_lock C s) e, s)"

text \<open>\<^verbatim>\<open>?\<close> from a service error to \<^verbatim>\<open>anyhow::Error\<close>: the \<^verbatim>\<open>Display\<close> text of the error.\<close>

fun anyhow_from_service :: "teaclave_service_response_error \<Rightarrow> anyhow" where
  "anyhow_from_service (RequestError m) = Anyhow (''Request error: '' @ m) []"
| "anyhow_from_service (ConnectionError m) = Anyhow (''Connection error: '' @ m) []"
| "anyhow_from_service (InternalError m) = Anyhow (''Internal error: '' @ m) []"

section \<open>Libraries of the services\<close>

record 'v libs =
  lib_uuid :: uuid_lib
  js_function :: "(func, 'v) json"
  js_input :: "(input_file, 'v) json"
  js_output :: "(output_file, 'v) json"
  js_task :: "(task_state, 'v) json"
  js_staged :: "(staged_task, 'v) json"
  url_parse :: "string \<Rightarrow> url option"

definition libs_ok :: "'v libs \<Rightarrow> bool" where
  "libs_ok L \<longleftrightarrow> uuid_ok (lib_uuid L) \<and> json_ok (js_function L) \<and> json_ok (js_input L) \<and>
     json_ok (js_output L) \<and> json_ok (js_task L) \<and> json_ok (js_staged L)"

abbreviation S_function :: "'v libs \<Rightarrow> (func, 'v) storable_impl" where
  "S_function L \<equiv> storable_function (js_function L)"

abbreviation S_input :: "'v libs \<Rightarrow> (input_file, 'v) storable_impl" where
  "S_input L \<equiv> storable_input (js_input L)"

abbreviation S_output :: "'v libs \<Rightarrow> (output_file, 'v) storable_impl" where
  "S_output L \<equiv> storable_output (js_output L)"

abbreviation S_task :: "'v libs \<Rightarrow> (task_state, 'v) storable_impl" where
  "S_task L \<equiv> storable_task (js_task L)"

abbreviation S_staged :: "'v libs \<Rightarrow> (staged_task, 'v) storable_impl" where
  "S_staged L \<equiv> storable_staged (js_staged L)"

section \<open>The abstract store\<close>

record 'v store =
  kv :: "bytes \<Rightarrow> 'v option"
  queues :: "bytes \<Rightarrow> 'v list"

definition none_error :: teaclave_service_response_error where
  "none_error = RequestError ''none error''"

definition ideal_client :: "('v store, 'v) storage_client" where
  "ideal_client =
     \<lparr>sc_lock = (\<lambda>s. True),
      sc_get = (\<lambda>k s. (ok_or none_error (kv s k), s)),
      sc_put = (\<lambda>k v s. (Ok (), s\<lparr>kv := (kv s)(k \<mapsto> v)\<rparr>)),
      sc_enqueue = (\<lambda>k v s. (Ok (), s\<lparr>queues := (queues s)(k := queues s k @ [v])\<rparr>)),
      sc_dequeue = (\<lambda>k s. case queues s k of
          [] \<Rightarrow> (Err none_error, s)
        | v # vs \<Rightarrow> (Ok v, s\<lparr>queues := (queues s)(k := vs)\<rparr>))\<rparr>"

text \<open>Keys of the storage service's own queue records; clients never use them for objects.\<close>

definition queue_key :: "bytes \<Rightarrow> bool" where
  "queue_key k \<longleftrightarrow> prefix (into_bytes ''queue-'') k"

section \<open>Simulation\<close>

text \<open>
  \<open>rel tf s t\<close> says that the provider's state \<open>s\<close> stands for the abstract state
  \<open>t\<close> and has what it takes to go on until the abstract state is \<open>tf\<close>; \<open>adv\<close> says
  which abstract states may follow another.  An operation simulates an abstract
  one if it returns the same result and stays in the relation, whatever comes
  after it.
\<close>

definition sim_op ::
    "('t \<Rightarrow> 't \<Rightarrow> bool) \<Rightarrow> ('t \<Rightarrow> 's \<Rightarrow> 't \<Rightarrow> bool) \<Rightarrow> ('s, 'a, 'e) op \<Rightarrow> ('t, 'a, 'e) op \<Rightarrow> bool" where
  "sim_op adv rel m m' \<longleftrightarrow>
     (\<forall>t. adv t (snd (m' t)) \<and>
        (\<forall>tf s. adv (snd (m' t)) tf \<longrightarrow> rel tf s t \<longrightarrow>
           fst (m s) = fst (m' t) \<and> rel tf (snd (m s)) (snd (m' t))))"

lemma sim_opI:
  assumes "\<And>t r t'. m' t = (r, t') \<Longrightarrow> adv t t'"
    and "\<And>t r t' tf s. m' t = (r, t') \<Longrightarrow> adv t' tf \<Longrightarrow> rel tf s t \<Longrightarrow> \<exists>s'. m s = (r, s') \<and> rel tf s' t'"
  shows "sim_op adv rel m m'"
  unfolding sim_op_def
proof (intro allI conjI impI)
  fix t show "adv t (snd (m' t))" using assms(1) [of t "fst (m' t)" "snd (m' t)"] by simp
  fix tf s assume "adv (snd (m' t)) tf" "rel tf s t"
  then obtain s' where "m s = (fst (m' t), s')" "rel tf s' (snd (m' t))" using assms(2) [of t "fst (m' t)" "snd (m' t)" tf s] by auto
  then show "fst (m s) = fst (m' t)" "rel tf (snd (m s)) (snd (m' t))" by simp_all
qed

lemma sim_opD:
  assumes "sim_op adv rel m m'" "m' t = (r, t')"
  shows "adv t t'" "adv t' tf \<Longrightarrow> rel tf s t \<Longrightarrow> \<exists>s'. m s = (r, s') \<and> rel tf s' t'"
  using assms unfolding sim_op_def by (metis snd_conv, metis fst_conv snd_conv prod.collapse)

locale simulation =
  fixes adv :: "'t \<Rightarrow> 't \<Rightarrow> bool" and rel :: "'t \<Rightarrow> 's \<Rightarrow> 't \<Rightarrow> bool"
  assumes adv_refl: "adv t t" and adv_trans: "adv t t' \<Longrightarrow> adv t' t'' \<Longrightarrow> adv t t''"
begin

lemma sim_return [intro]: "sim_op adv rel (return_op r) (return_op r)"
  by (rule sim_opI) (auto simp: return_op_def adv_refl)

lemma sim_map_err [intro]: "sim_op adv rel m m' \<Longrightarrow> sim_op adv rel (map_err_op g m) (map_err_op g m')"
  by (rule sim_opI) (auto simp: map_err_op_def split: prod.splits dest: sim_opD)

lemma sim_try [intro]: "sim_op adv rel m m' \<Longrightarrow> sim_op adv rel (try_op m) (try_op m')"
  by (rule sim_opI) (auto simp: try_op_def split: prod.splits dest: sim_opD)

lemma sim_bind [intro]:
  assumes m: "sim_op adv rel m m'" and f: "\<And>a. sim_op adv rel (f a) (f' a)"
  shows "sim_op adv rel (bind_op m f) (bind_op m' f')"
proof (rule sim_opI)
  fix t r t' assume r: "bind_op m' f' t = (r, t')"
  obtain r1 t1 where t1: "m' t = (r1, t1)" by fastforce
  have a1: "adv t t1" using sim_opD(1) [OF m t1] .
  have a2: "adv t1 t'"
    using r t1 sim_opD(1) [OF f] adv_refl by (cases r1) (auto simp: bind_op_def)
  show "adv t t'" using a1 a2 adv_trans by blast
  fix tf s assume tf: "adv t' tf" and rel: "rel tf s t"
  obtain s1 where s1: "m s = (r1, s1)" "rel tf s1 t1" using sim_opD(2) [OF m t1 adv_trans [OF a2 tf] rel] by blast
  show "\<exists>s'. bind_op m f s = (r, s') \<and> rel tf s' t'"
    using s1 t1 r sim_opD(2) [OF f _ tf] by (cases r1) (auto simp: bind_op_def)
qed

lemma sim_ensure:
  "(c \<Longrightarrow> sim_op adv rel (f ()) (f' ())) \<Longrightarrow>
   sim_op adv rel (bind_op (return_op (ensure c e)) f) (bind_op (return_op (ensure c e)) f')"
  by (cases c) (auto simp: sim_op_def bind_op_def return_op_def adv_refl)

end

section \<open>The contract of the storage service\<close>

locale storage_service = simulation adv rel
  for adv :: "'t \<Rightarrow> 't \<Rightarrow> bool" and rel :: "'t \<Rightarrow> 's \<Rightarrow> 't \<Rightarrow> bool" +
  fixes C :: "('s, 'v) storage_client" and A :: "('t, 'v) storage_client"
  assumes sim_sc_lock: "rel tf s t \<Longrightarrow> sc_lock C s \<longleftrightarrow> sc_lock A t"
    and sim_get: "\<not> queue_key k \<Longrightarrow> sim_op adv rel (sc_get C k) (sc_get A k)"
    and sim_put: "\<not> queue_key k \<Longrightarrow> sim_op adv rel (sc_put C k v) (sc_put A k v)"
    and sim_enqueue: "sim_op adv rel (sc_enqueue C q v) (sc_enqueue A q v)"
    and sim_dequeue: "sim_op adv rel (sc_dequeue C q) (sc_dequeue A q)"
begin

lemma sim_lock: "sim_op adv rel (lock_op C e) (lock_op A e)"
  by (rule sim_opI) (auto simp: lock_op_def sim_sc_lock adv_refl split: if_splits)

end

section \<open>Counting what a run costs\<close>

text \<open>
  The abstract store beside a counter of what its operations need of the
  database: \<open>cost klen vlen\<close> for a write of a key and a value of these lengths.
  The three keys of a queue are 11 bytes longer than its name.
\<close>

definition counted_client :: "(nat \<Rightarrow> nat \<Rightarrow> nat) \<Rightarrow> (bytes store \<times> nat, bytes) storage_client" where
  "counted_client cost =
     \<lparr>sc_lock = (\<lambda>(t, c). sc_lock ideal_client t),
      sc_get = (\<lambda>k (t, c). case sc_get ideal_client k t of (r, t') \<Rightarrow> (r, (t', c))),
      sc_put = (\<lambda>k v (t, c). case sc_put ideal_client k v t of (r, t') \<Rightarrow> (r, (t', c + cost (length k) (length v)))),
      sc_enqueue = (\<lambda>q v (t, c). case sc_enqueue ideal_client q v t of
        (r, t') \<Rightarrow> (r, (t', c + (cost (length q + 11) (length v) + cost (length q + 11) 4 + 1)))),
      sc_dequeue = (\<lambda>q (t, c). case sc_dequeue ideal_client q t of
        (r, t') \<Rightarrow> (r, (t', c + (cost (length q + 11) 4 + cost (length q + 11) 0))))\<rparr>"

text \<open>Without the counter it is the abstract store.\<close>

interpretation erase: storage_service "\<lambda>_ _. True" "\<lambda>_ s t. fst s = t" "counted_client cost" ideal_client for cost
  by unfold_locales
    (auto simp: counted_client_def ideal_client_def case_prod_beta split: list.splits intro!: sim_opI)

end
