(* ===== verification/Management.thy ===== *)
theory Management
  imports Storage_Client
begin

text \<open>
  The management service, \<^verbatim>\<open>services/management/enclave/src/service.rs\<close>: the
  fifteen handlers with the requests and responses of
  \<^verbatim>\<open>services/proto/src/teaclave_frontend_service.rs\<close>, and the helpers that read
  and write the store.  A handler runs against the storage client \<open>C\<close> and the
  libraries \<open>L\<close>; fresh uuids and random keys are arguments.

  The lemmas give each handler's outcome on the abstract store, and that every
  handler on a provider of the storage contract does what it does on the
  abstract store.
\<close>

section \<open>Requests and responses\<close>

text \<open>
  Requests with one field and responses with one field are that field; the maps
  of an \<open>assign_data\<close> request are lists in the order of their iteration.
\<close>

record register_input_file_request =
  rif_url :: url
  rif_cmac :: file_auth_tag
  rif_crypto_info :: file_crypto

record update_input_file_request =
  uif_data_id :: external_id
  uif_url :: url

record register_output_file_request =
  rof_url :: url
  rof_crypto_info :: file_crypto

record update_output_file_request =
  uof_data_id :: external_id
  uof_url :: url

record get_input_file_response =
  gif_owner :: owner_list
  gif_cmac :: file_auth_tag

record get_output_file_response =
  gof_owner :: owner_list
  gof_cmac :: "file_auth_tag option"

record register_function_request =
  rf_name :: string
  rf_description :: string
  rf_executor_type :: executor_type
  rf_payload :: bytes
  rf_public :: bool
  rf_arguments :: "string list"
  rf_inputs :: "function_input list"
  rf_outputs :: "function_output list"

record get_function_response =
  gf_name :: string
  gf_description :: string
  gf_owner :: user_id
  gf_payload :: bytes
  gf_public :: bool
  gf_executor_type :: executor_type
  gf_arguments :: "string list"
  gf_inputs :: "function_input list"
  gf_outputs :: "function_output list"

record create_task_request =
  ct_function_id :: external_id
  ct_function_arguments :: function_arguments
  ct_executor :: executor
  ct_inputs_ownership :: task_file_owners
  ct_outputs_ownership :: task_file_owners

record get_task_response =
  gt_task_id :: external_id
  gt_creator :: user_id
  gt_function_id :: external_id
  gt_function_owner :: user_id
  gt_function_arguments :: function_arguments
  gt_inputs_ownership :: task_file_owners
  gt_outputs_ownership :: task_file_owners
  gt_participants :: user_list
  gt_approved_users :: user_list
  gt_assigned_inputs :: "(string, external_id) fmap"
  gt_assigned_outputs :: "(string, external_id) fmap"
  gt_status :: task_status
  gt_result :: task_result

record assign_data_request =
  ad_task_id :: external_id
  ad_inputs :: "(string \<times> external_id) list"
  ad_outputs :: "(string \<times> external_id) list"

definition Function_from_request :: "register_function_request \<Rightarrow> func" where
  "Function_from_request r =
     \<lparr>fn_id = 0, fn_name = rf_name r, fn_description = rf_description r, fn_public = rf_public r,
      fn_executor_type = rf_executor_type r, fn_payload = rf_payload r, fn_arguments = rf_arguments r,
      fn_inputs = rf_inputs r, fn_outputs = rf_outputs r, fn_owner = []\<rparr>"

section \<open>Errors\<close>

datatype management_error = InvalidRequest | DataError | StorageError | PermissionDenied | BadTask

fun management_error_to_string :: "management_error \<Rightarrow> string" where
  "management_error_to_string InvalidRequest = ''invalid request''"
| "management_error_to_string DataError = ''data error''"
| "management_error_to_string StorageError = ''storage error''"
| "management_error_to_string PermissionDenied = ''permission denied''"
| "management_error_to_string BadTask = ''bad task''"

definition mgmt_error :: "management_error \<Rightarrow> teaclave_service_response_error" where
  "mgmt_error e = RequestError (management_error_to_string e)"

section \<open>Helpers\<close>

definition get_request_user_id :: "metadata \<Rightarrow> user_id service_result" where
  "get_request_user_id meta = ok_or (mgmt_error InvalidRequest) (fmlookup meta ''id'')"

definition write_to_db ::
    "('s, 'v) storage_client \<Rightarrow> 'v libs \<Rightarrow> ('a, 'v) storable_impl \<Rightarrow> 'a \<Rightarrow> ('s, unit, anyhow) op" where
  "write_to_db C L S item =
     bind_op (return_op (to_vec S item)) (\<lambda>v.
     bind_op (lock_op C (Anyhow ''Cannot lock storage client'' [])) (\<lambda>_.
     map_err_op anyhow_from_service (sc_put C (storable_key (lib_uuid L) S item) v)))"

definition read_from_db ::
    "('s, 'v) storage_client \<Rightarrow> 'v libs \<Rightarrow> ('a, 'v) storable_impl \<Rightarrow> external_id \<Rightarrow> ('s, 'a, anyhow) op" where
  "read_from_db C L S k =
     bind_op (return_op (ensure (match_prefix S (ext_prefix k)) (Anyhow ''Key prefix doesn't match.'' []))) (\<lambda>_.
     bind_op (lock_op C (Anyhow ''Cannot lock storage client'' [])) (\<lambda>_.
     bind_op (map_err_op anyhow_from_service (sc_get C (ExternalID_to_bytes (lib_uuid L) k))) (\<lambda>v.
     return_op (from_slice S v))))"

definition enqueue_to_db ::
    "('s, 'v) storage_client \<Rightarrow> bytes \<Rightarrow> ('a, 'v) storable_impl \<Rightarrow> 'a \<Rightarrow> ('s, unit) service_op" where
  "enqueue_to_db C k S item =
     bind_op (return_op (map_err (\<lambda>_. mgmt_error DataError) (to_vec S item))) (\<lambda>v.
     bind_op (lock_op C (mgmt_error StorageError)) (\<lambda>_.
     sc_enqueue C k v))"

definition create_fusion_data :: "'v libs \<Rightarrow> owner_list \<Rightarrow> uuid \<Rightarrow> bytes \<Rightarrow> uuid \<Rightarrow> output_file anyhow_result" where
  "create_fusion_data L owners url_uuid random_key fresh =
     bind_result (ok_or (Anyhow ''invalid url'' [])
       (url_parse L (''fusion:///TEACLAVE_FUSION_BASE/'' @ uuid_to_string (lib_uuid L) url_uuid @ ''.fusion'')))
     (\<lambda>u. Ok (OutputFile_new u (TeaclaveFile128 \<lparr>file_key = random_key\<rparr>) owners fresh))"

text \<open>\<^verbatim>\<open>map_err(|_| e)?\<close> on a read or a write of the store.\<close>

definition read_or_deny ::
    "('s, 'v) storage_client \<Rightarrow> 'v libs \<Rightarrow> ('a, 'v) storable_impl \<Rightarrow> external_id \<Rightarrow> ('s, 'a) service_op" where
  "read_or_deny C L S k = map_err_op (\<lambda>_. mgmt_error PermissionDenied) (read_from_db C L S k)"

definition write_or_fail ::
    "('s, 'v) storage_client \<Rightarrow> 'v libs \<Rightarrow> ('a, 'v) storable_impl \<Rightarrow> 'a \<Rightarrow> ('s, unit) service_op" where
  "write_or_fail C L S x = map_err_op (\<lambda>_. mgmt_error StorageError) (write_to_db C L S x)"

definition permit :: "bool \<Rightarrow> ('s, unit) service_op" where
  "permit c = return_op (ensure c (mgmt_error PermissionDenied))"

definition or_deny :: "'a anyhow_result \<Rightarrow> ('s, 'a) service_op" where
  "or_deny r = return_op (map_err (\<lambda>_. mgmt_error PermissionDenied) r)"

section \<open>Data\<close>

definition register_input_file ::
    "('s, 'v) storage_client \<Rightarrow> 'v libs \<Rightarrow> uuid \<Rightarrow> register_input_file_request request \<Rightarrow> ('s, external_id) service_op" where
  "register_input_file C L fresh req =
     bind_op (return_op (get_request_user_id (metadata req))) (\<lambda>user_id.
     let r = message req;
         f = InputFile_new (rif_url r) (rif_cmac r) (rif_crypto_info r) (OwnerList_new [user_id]) fresh
     in bind_op (write_or_fail C L (S_input L) f) (\<lambda>_.
     return_op (Ok (external_id_of (S_input L) f))))"

definition update_input_file ::
    "('s, 'v) storage_client \<Rightarrow> 'v libs \<Rightarrow> uuid \<Rightarrow> update_input_file_request request \<Rightarrow> ('s, external_id) service_op" where
  "update_input_file C L fresh req =
     bind_op (return_op (get_request_user_id (metadata req))) (\<lambda>user_id.
     let r = message req in
     bind_op (read_or_deny C L (S_input L) (uif_data_id r)) (\<lambda>old.
     bind_op (permit (in_owner old = OwnerList_new [user_id])) (\<lambda>_.
     let f = InputFile_new (uif_url r) (in_cmac old) (in_crypto old) (in_owner old) fresh
     in bind_op (write_or_fail C L (S_input L) f) (\<lambda>_.
     return_op (Ok (external_id_of (S_input L) f))))))"

definition register_output_file ::
    "('s, 'v) storage_client \<Rightarrow> 'v libs \<Rightarrow> uuid \<Rightarrow> register_output_file_request request \<Rightarrow> ('s, external_id) service_op" where
  "register_output_file C L fresh req =
     bind_op (return_op (get_request_user_id (metadata req))) (\<lambda>user_id.
     let r = message req;
         f = OutputFile_new (rof_url r) (rof_crypto_info r) (OwnerList_new [user_id]) fresh
     in bind_op (write_or_fail C L (S_output L) f) (\<lambda>_.
     return_op (Ok (external_id_of (S_output L) f))))"

definition update_output_file ::
    "('s, 'v) storage_client \<Rightarrow> 'v libs \<Rightarrow> uuid \<Rightarrow> update_output_file_request request \<Rightarrow> ('s, external_id) service_op" where
  "update_output_file C L fresh req =
     bind_op (return_op (get_request_user_id (metadata req))) (\<lambda>user_id.
     let r = message req in
     bind_op (read_or_deny C L (S_output L) (uof_data_id r)) (\<lambda>old.
     bind_op (permit (out_owner old = OwnerList_new [user_id])) (\<lambda>_.
     let f = OutputFile_new (uof_url r) (out_crypto old) (out_owner old) fresh
     in bind_op (write_or_fail C L (S_output L) f) (\<lambda>_.
     return_op (Ok (external_id_of (S_output L) f))))))"

definition register_fusion_output ::
    "('s, 'v) storage_client \<Rightarrow> 'v libs \<Rightarrow> uuid \<Rightarrow> bytes \<Rightarrow> uuid \<Rightarrow> owner_list request \<Rightarrow> ('s, external_id) service_op" where
  "register_fusion_output C L url_uuid random_key fresh req =
     bind_op (return_op (get_request_user_id (metadata req))) (\<lambda>user_id.
     let owners = message req in
     bind_op (permit (OwnerList_len owners > 1 \<and> OwnerList_contains owners user_id)) (\<lambda>_.
     bind_op (return_op (map_err (\<lambda>_. mgmt_error DataError)
       (create_fusion_data L owners url_uuid random_key fresh))) (\<lambda>f.
     bind_op (write_or_fail C L (S_output L) f) (\<lambda>_.
     return_op (Ok (external_id_of (S_output L) f))))))"

definition register_input_from_output ::
    "('s, 'v) storage_client \<Rightarrow> 'v libs \<Rightarrow> external_id request \<Rightarrow> ('s, external_id) service_op" where
  "register_input_from_output C L req =
     bind_op (return_op (get_request_user_id (metadata req))) (\<lambda>user_id.
     bind_op (read_or_deny C L (S_output L) (message req)) (\<lambda>out.
     bind_op (permit (OwnerList_contains (out_owner out) user_id)) (\<lambda>_.
     bind_op (or_deny (InputFile_from_output out)) (\<lambda>f.
     bind_op (write_or_fail C L (S_input L) f) (\<lambda>_.
     return_op (Ok (external_id_of (S_input L) f)))))))"

definition get_output_file ::
    "('s, 'v) storage_client \<Rightarrow> 'v libs \<Rightarrow> external_id request \<Rightarrow> ('s, get_output_file_response) service_op" where
  "get_output_file C L req =
     bind_op (return_op (get_request_user_id (metadata req))) (\<lambda>user_id.
     bind_op (read_or_deny C L (S_output L) (message req)) (\<lambda>f.
     bind_op (permit (OwnerList_contains (out_owner f) user_id)) (\<lambda>_.
     return_op (Ok \<lparr>gof_owner = out_owner f, gof_cmac = out_cmac f\<rparr>))))"

definition get_input_file ::
    "('s, 'v) storage_client \<Rightarrow> 'v libs \<Rightarrow> external_id request \<Rightarrow> ('s, get_input_file_response) service_op" where
  "get_input_file C L req =
     bind_op (return_op (get_request_user_id (metadata req))) (\<lambda>user_id.
     bind_op (read_or_deny C L (S_input L) (message req)) (\<lambda>f.
     bind_op (permit (OwnerList_contains (in_owner f) user_id)) (\<lambda>_.
     return_op (Ok \<lparr>gif_owner = in_owner f, gif_cmac = in_cmac f\<rparr>))))"

section \<open>Functions\<close>

definition register_function ::
    "('s, 'v) storage_client \<Rightarrow> 'v libs \<Rightarrow> uuid \<Rightarrow> register_function_request request \<Rightarrow> ('s, external_id) service_op" where
  "register_function C L fresh req =
     bind_op (return_op (get_request_user_id (metadata req))) (\<lambda>user_id.
     let f = (Function_from_request (message req))\<lparr>fn_id := fresh, fn_owner := user_id\<rparr>
     in bind_op (write_or_fail C L (S_function L) f) (\<lambda>_.
     return_op (Ok (external_id_of (S_function L) f))))"

definition get_function ::
    "('s, 'v) storage_client \<Rightarrow> 'v libs \<Rightarrow> external_id request \<Rightarrow> ('s, get_function_response) service_op" where
  "get_function C L req =
     bind_op (return_op (get_request_user_id (metadata req))) (\<lambda>user_id.
     bind_op (read_or_deny C L (S_function L) (message req)) (\<lambda>f.
     bind_op (permit (fn_public f \<or> fn_owner f = user_id)) (\<lambda>_.
     return_op (Ok
       \<lparr>gf_name = fn_name f, gf_description = fn_description f, gf_owner = fn_owner f,
        gf_payload = fn_payload f, gf_public = fn_public f, gf_executor_type = fn_executor_type f,
        gf_arguments = fn_arguments f, gf_inputs = fn_inputs f, gf_outputs = fn_outputs f\<rparr>))))"

section \<open>Tasks\<close>

definition create_task ::
    "('s, 'v) storage_client \<Rightarrow> 'v libs \<Rightarrow> uuid \<Rightarrow> create_task_request request \<Rightarrow> ('s, external_id) service_op" where
  "create_task C L fresh req =
     bind_op (return_op (get_request_user_id (metadata req))) (\<lambda>user_id.
     let r = message req in
     bind_op (read_or_deny C L (S_function L) (ct_function_id r)) (\<lambda>f.
     bind_op (return_op (map_err (\<lambda>_. mgmt_error BadTask)
       (Create_new user_id (ct_executor r) (ct_function_arguments r) (ct_inputs_ownership r)
          (ct_outputs_ownership r) f fresh))) (\<lambda>task.
     let ts = Create_into task
     in bind_op (write_or_fail C L (S_task L) ts) (\<lambda>_.
     return_op (Ok (external_id_of (S_task L) ts))))))"

definition get_task ::
    "('s, 'v) storage_client \<Rightarrow> 'v libs \<Rightarrow> external_id request \<Rightarrow> ('s, get_task_response) service_op" where
  "get_task C L req =
     bind_op (return_op (get_request_user_id (metadata req))) (\<lambda>user_id.
     bind_op (read_or_deny C L (S_task L) (message req)) (\<lambda>ts.
     bind_op (permit (has_participant ts user_id)) (\<lambda>_.
     return_op (Ok
       \<lparr>gt_task_id = external_id_of (S_task L) ts, gt_creator = creator ts,
        gt_function_id = function_id ts, gt_function_owner = function_owner ts,
        gt_function_arguments = function_arguments ts, gt_inputs_ownership = inputs_ownership ts,
        gt_outputs_ownership = outputs_ownership ts, gt_participants = participants ts,
        gt_approved_users = approved_users ts,
        gt_assigned_inputs = TaskFiles_external_ids (S_input L) (assigned_inputs ts),
        gt_assigned_outputs = TaskFiles_external_ids (S_output L) (assigned_outputs ts),
        gt_status = status ts, gt_result = task_result ts\<rparr>))))"

fun assign_data_inputs ::
    "('s, 'v) storage_client \<Rightarrow> 'v libs \<Rightarrow> user_id \<Rightarrow> assign_tag task \<Rightarrow> (string \<times> external_id) list
     \<Rightarrow> ('s, assign_tag task) service_op" where
  "assign_data_inputs C L user_id task [] = return_op (Ok task)"
| "assign_data_inputs C L user_id task ((data_name, data_id) # rest) =
     bind_op (read_or_deny C L (S_input L) data_id) (\<lambda>f.
     bind_op (or_deny (assign_input task user_id data_name f)) (\<lambda>task'.
     assign_data_inputs C L user_id task' rest))"

fun assign_data_outputs ::
    "('s, 'v) storage_client \<Rightarrow> 'v libs \<Rightarrow> user_id \<Rightarrow> assign_tag task \<Rightarrow> (string \<times> external_id) list
     \<Rightarrow> ('s, assign_tag task) service_op" where
  "assign_data_outputs C L user_id task [] = return_op (Ok task)"
| "assign_data_outputs C L user_id task ((data_name, data_id) # rest) =
     bind_op (read_or_deny C L (S_output L) data_id) (\<lambda>f.
     bind_op (or_deny (assign_output task user_id data_name f)) (\<lambda>task'.
     assign_data_outputs C L user_id task' rest))"

definition assign_data ::
    "('s, 'v) storage_client \<Rightarrow> 'v libs \<Rightarrow> assign_data_request request \<Rightarrow> ('s, unit) service_op" where
  "assign_data C L req =
     bind_op (return_op (get_request_user_id (metadata req))) (\<lambda>user_id.
     let r = message req in
     bind_op (read_or_deny C L (S_task L) (ad_task_id r)) (\<lambda>ts.
     bind_op (permit (has_participant ts user_id)) (\<lambda>_.
     bind_op (or_deny (Assign_try_from ts)) (\<lambda>task.
     bind_op (assign_data_inputs C L user_id task (ad_inputs r)) (\<lambda>task1.
     bind_op (assign_data_outputs C L user_id task1 (ad_outputs r)) (\<lambda>task2.
     bind_op (return_op (Assign_into task2)) (\<lambda>ts'.
     write_or_fail C L (S_task L) ts')))))))"

definition approve_task ::
    "('s, 'v) storage_client \<Rightarrow> 'v libs \<Rightarrow> external_id request \<Rightarrow> ('s, unit) service_op" where
  "approve_task C L req =
     bind_op (return_op (get_request_user_id (metadata req))) (\<lambda>user_id.
     bind_op (read_or_deny C L (S_task L) (message req)) (\<lambda>ts.
     bind_op (or_deny (Approve_try_from ts)) (\<lambda>task.
     bind_op (or_deny (approve task user_id)) (\<lambda>task1.
     bind_op (return_op (Approve_into task1)) (\<lambda>ts'.
     write_or_fail C L (S_task L) ts')))))"

definition invoke_task ::
    "('s, 'v) storage_client \<Rightarrow> 'v libs \<Rightarrow> external_id request \<Rightarrow> ('s, unit) service_op" where
  "invoke_task C L req =
     bind_op (return_op (get_request_user_id (metadata req))) (\<lambda>user_id.
     bind_op (read_or_deny C L (S_task L) (message req)) (\<lambda>ts.
     bind_op (permit (has_creator ts user_id)) (\<lambda>_.
     bind_op (read_or_deny C L (S_function L) (function_id ts)) (\<lambda>f.
     bind_op (or_deny (Stage_try_from ts)) (\<lambda>task.
     bind_op (return_op (map_err service_error_from_anyhow (stage_for_running task user_id f))) (\<lambda>staged.
     bind_op (enqueue_to_db C (into_bytes QUEUE_KEY) (S_staged L) staged) (\<lambda>_.
     bind_op (return_op (Stage_into task)) (\<lambda>ts'.
     write_or_fail C L (S_task L) ts'))))))))"

section \<open>Keys of objects are not queue keys\<close>

definition object_impl :: "('a, 'v) storable_impl \<Rightarrow> bool" where
  "object_impl S \<longleftrightarrow> key_prefix S \<noteq> [] \<and> hd (key_prefix S) \<noteq> CHR ''q''"

lemma object_impls [simp]:
  "object_impl (storable_function jf)" "object_impl (storable_input ji)"
  "object_impl (storable_output jo)" "object_impl (storable_task jt)"
  by (simp_all add: object_impl_def storable_defs storable_task_def)

lemma prefix_into_bytes: "prefix (into_bytes s) (into_bytes t) \<longleftrightarrow> prefix s t"
proof
  assume "prefix (into_bytes s) (into_bytes t)"
  then obtain z where "into_bytes t = into_bytes s @ z" by (rule prefixE)
  then have "into_bytes (take (length s) t) = into_bytes s"
    by (metis append_eq_conv_conj into_bytes_def length_into_bytes take_map)
  then show "prefix s t" by (metis into_bytes_inj take_is_prefix)
next
  assume "prefix s t"
  then show "prefix (into_bytes s) (into_bytes t)" by (auto elim: prefixE)
qed

lemma object_key_not_queue_key:
  assumes "object_impl S" and "match_prefix S (ext_prefix k)"
  shows "\<not> queue_key (ExternalID_to_bytes U k)"
proof -
  from assms obtain c cs where c: "key_prefix S = c # cs" "c \<noteq> CHR ''q''"
    by (cases "key_prefix S") (auto simp: object_impl_def)
  with assms(2) obtain z where "ext_prefix k = c # z" by (auto simp: match_prefix_def elim: prefixE)
  with c show ?thesis
    by (simp add: queue_key_def ExternalID_to_bytes_def prefix_into_bytes ExternalID_to_string_def)
qed

lemma object_storable_key:
  "object_impl S \<Longrightarrow> \<not> queue_key (storable_key U S x)"
  using object_key_not_queue_key [of S "external_id_of S x" U]
  by (simp add: storable_key_eq match_prefix_def external_id_of_def ExternalID_new_def)

section \<open>Every handler simulates the abstract store\<close>

context storage_service
begin

lemma sim_read_from_db:
  "object_impl S \<Longrightarrow> sim_op adv rel (read_from_db C L S k) (read_from_db A L S k)"
  unfolding read_from_db_def
  by (intro sim_ensure sim_bind sim_map_err sim_return sim_lock sim_get)
    (simp add: object_key_not_queue_key)

lemma sim_write_to_db:
  "object_impl S \<Longrightarrow> sim_op adv rel (write_to_db C L S x) (write_to_db A L S x)"
  unfolding write_to_db_def
  by (intro sim_bind sim_map_err sim_return sim_lock sim_put) (simp add: object_storable_key)

lemma sim_enqueue_to_db:
  "sim_op adv rel (enqueue_to_db C k S x) (enqueue_to_db A k S x)"
  unfolding enqueue_to_db_def
  by (intro sim_bind sim_return sim_lock sim_enqueue)

lemma sim_read_or_deny:
  "object_impl S \<Longrightarrow> sim_op adv rel (read_or_deny C L S k) (read_or_deny A L S k)"
  unfolding read_or_deny_def by (intro sim_map_err sim_read_from_db)

lemma sim_write_or_fail:
  "object_impl S \<Longrightarrow> sim_op adv rel (write_or_fail C L S x) (write_or_fail A L S x)"
  unfolding write_or_fail_def by (intro sim_map_err sim_write_to_db)

lemma sim_permit: "sim_op adv rel (permit c) (permit c)"
  unfolding permit_def by (rule sim_return)

lemma sim_or_deny: "sim_op adv rel (or_deny r) (or_deny r)"
  unfolding or_deny_def by (rule sim_return)

lemmas sim_intros =
  sim_bind sim_return sim_permit sim_or_deny sim_read_or_deny sim_write_or_fail
  sim_enqueue_to_db object_impls

lemma sim_assign_data_inputs:
  "sim_op adv rel (assign_data_inputs C L u t ins) (assign_data_inputs A L u t ins)"
  by (induction ins arbitrary: t) (auto intro!: sim_intros)

lemma sim_assign_data_outputs:
  "sim_op adv rel (assign_data_outputs C L u t outs) (assign_data_outputs A L u t outs)"
  by (induction outs arbitrary: t) (auto intro!: sim_intros)

lemma sim_register_input_file:
  "sim_op adv rel (register_input_file C L fresh req) (register_input_file A L fresh req)"
  unfolding register_input_file_def Let_def by (intro sim_intros)

lemma sim_update_input_file:
  "sim_op adv rel (update_input_file C L fresh req) (update_input_file A L fresh req)"
  unfolding update_input_file_def Let_def by (intro sim_intros)

lemma sim_register_output_file:
  "sim_op adv rel (register_output_file C L fresh req) (register_output_file A L fresh req)"
  unfolding register_output_file_def Let_def by (intro sim_intros)

lemma sim_update_output_file:
  "sim_op adv rel (update_output_file C L fresh req) (update_output_file A L fresh req)"
  unfolding update_output_file_def Let_def by (intro sim_intros)

lemma sim_register_fusion_output:
  "sim_op adv rel (register_fusion_output C L uu k fresh req) (register_fusion_output A L uu k fresh req)"
  unfolding register_fusion_output_def Let_def by (intro sim_intros)

lemma sim_register_input_from_output:
  "sim_op adv rel (register_input_from_output C L req) (register_input_from_output A L req)"
  unfolding register_input_from_output_def by (intro sim_intros)

lemma sim_get_output_file:
  "sim_op adv rel (get_output_file C L req) (get_output_file A L req)"
  unfolding get_output_file_def by (intro sim_intros)

lemma sim_get_input_file:
  "sim_op adv rel (get_input_file C L req) (get_input_file A L req)"
  unfolding get_input_file_def by (intro sim_intros)

lemma sim_register_function:
  "sim_op adv rel (register_function C L fresh req) (register_function A L fresh req)"
  unfolding register_function_def Let_def by (intro sim_intros)

lemma sim_get_function:
  "sim_op adv rel (get_function C L req) (get_function A L req)"
  unfolding get_function_def by (intro sim_intros)

lemma sim_create_task:
  "sim_op adv rel (create_task C L fresh req) (create_task A L fresh req)"
  unfolding create_task_def Let_def by (intro sim_intros)

lemma sim_get_task:
  "sim_op adv rel (get_task C L req) (get_task A L req)"
  unfolding get_task_def by (intro sim_intros)

lemma sim_assign_data:
  "sim_op adv rel (assign_data C L req) (assign_data A L req)"
  unfolding assign_data_def Let_def
  by (intro sim_intros sim_assign_data_inputs sim_assign_data_outputs)

lemma sim_approve_task:
  "sim_op adv rel (approve_task C L req) (approve_task A L req)"
  unfolding approve_task_def by (intro sim_intros)

lemma sim_invoke_task:
  "sim_op adv rel (invoke_task C L req) (invoke_task A L req)"
  unfolding invoke_task_def by (intro sim_intros)

end

end
