(* ===== verification/Scheduler.thy ===== *)
theory Scheduler
  imports Management
begin

text \<open>
  The scheduler service, \<^verbatim>\<open>services/scheduler/enclave/src/service.rs\<close>, and the
  polling loop of the execution service, \<^verbatim>\<open>services/execution/enclave/src/service.rs\<close>.

  The scheduler pulls staged tasks from the storage queue and moves a stored
  task from \<open>Staged\<close> to \<open>Running\<close> and on to \<open>Finished\<close>, writing the tags of the
  output files.  The order in which \<^verbatim>\<open>tags_map.iter()\<close> yields the tags is the
  parameter \<open>iter\<close>.  What the worker computes between the two status updates is
  the parameter \<open>execute\<close> of \<open>execution_round\<close>.
\<close>

section \<open>Requests and errors\<close>

record update_task_status_request =
  uts_task_id :: uuid
  uts_task_status :: task_status

record update_task_result_request =
  utr_task_id :: uuid
  utr_task_result :: task_result

definition UpdateTaskResultRequest_new ::
    "uuid \<Rightarrow> task_outputs anyhow_result \<Rightarrow> (update_task_result_request, 'e) result" where
  "UpdateTaskResultRequest_new tid r =
     (case r of
        Ok outs \<Rightarrow> Ok \<lparr>utr_task_id = tid, utr_task_result = TaskOk outs\<rparr>
      | Err e \<Rightarrow> Ok \<lparr>utr_task_id = tid, utr_task_result = TaskErr \<lparr>reason = err_template e\<rparr>\<rparr>
      | Panic \<Rightarrow> Panic)"

datatype scheduler_error = SchedulerServiceErr | SchedulerDataError | SchedulerStorageError

fun scheduler_error_to_string :: "scheduler_error \<Rightarrow> string" where
  "scheduler_error_to_string SchedulerServiceErr = ''scheduler service error''"
| "scheduler_error_to_string SchedulerDataError = ''data error''"
| "scheduler_error_to_string SchedulerStorageError = ''storage error''"

definition sched_error :: "scheduler_error \<Rightarrow> teaclave_service_response_error" where
  "sched_error e = RequestError (scheduler_error_to_string e)"

section \<open>Access to the store\<close>

definition pull_staged_task ::
    "('s, 'v) storage_client \<Rightarrow> ('a, 'v) storable_impl \<Rightarrow> bytes \<Rightarrow> ('s, 'a) service_op" where
  "pull_staged_task C S k =
     bind_op (lock_op C (sched_error SchedulerStorageError)) (\<lambda>_.
     bind_op (sc_dequeue C k) (\<lambda>v.
     return_op (map_err (\<lambda>_. sched_error SchedulerDataError) (from_slice S v))))"

definition get_from_db ::
    "('s, 'v) storage_client \<Rightarrow> 'v libs \<Rightarrow> ('a, 'v) storable_impl \<Rightarrow> external_id \<Rightarrow> ('s, 'a, anyhow) op" where
  "get_from_db C L S k =
     bind_op (return_op (ensure (match_prefix S (ext_prefix k)) (Anyhow ''Key prefix doesn't match.'' []))) (\<lambda>_.
     bind_op (lock_op C (Anyhow ''Cannot lock storage client'' [])) (\<lambda>_.
     bind_op (map_err_op anyhow_from_service (sc_get C (ExternalID_to_bytes (lib_uuid L) k))) (\<lambda>v.
     return_op (from_slice S v))))"

definition put_into_db ::
    "('s, 'v) storage_client \<Rightarrow> 'v libs \<Rightarrow> ('a, 'v) storable_impl \<Rightarrow> 'a \<Rightarrow> ('s, unit, anyhow) op" where
  "put_into_db C L S item =
     bind_op (return_op (to_vec S item)) (\<lambda>v.
     bind_op (lock_op C (Anyhow ''Cannot lock storage client'' [])) (\<lambda>_.
     map_err_op anyhow_from_service (sc_put C (storable_key (lib_uuid L) S item) v)))"

definition get_task_state :: "('s, 'v) storage_client \<Rightarrow> 'v libs \<Rightarrow> uuid \<Rightarrow> ('s, task_state, anyhow) op" where
  "get_task_state C L tid = get_from_db C L (S_task L) (ExternalID_new (key_prefix (S_task L)) tid)"

section \<open>Handlers\<close>

text \<open>\<^verbatim>\<open>publish_task\<close> appends to the in-memory queue, which nothing reads; \<^verbatim>\<open>subscribe\<close> is \<^verbatim>\<open>unimplemented!\<close>.\<close>

definition publish_task :: "staged_task request \<Rightarrow> (staged_task list, unit) service_op" where
  "publish_task req q = (Ok (), q @ [message req])"

definition subscribe :: "(staged_task list, bool) service_op" where
  "subscribe q = (Panic, q)"

definition pull_task :: "('s, 'v) storage_client \<Rightarrow> 'v libs \<Rightarrow> ('s, staged_task) service_op" where
  "pull_task C L = pull_staged_task C (S_staged L) (into_bytes QUEUE_KEY)"

definition update_task_status ::
    "('s, 'v) storage_client \<Rightarrow> 'v libs \<Rightarrow> update_task_status_request request \<Rightarrow> ('s, unit) service_op" where
  "update_task_status C L req =
     bind_op (map_err_op service_error_from_anyhow (get_task_state C L (uts_task_id (message req)))) (\<lambda>ts.
     bind_op (return_op (map_err service_error_from_anyhow (Run_try_from ts))) (\<lambda>task.
     bind_op (return_op (Run_into task)) (\<lambda>ts'.
     map_err_op service_error_from_anyhow (put_into_db C L (S_task L) ts'))))"

fun update_output_cmacs ::
    "('s, 'v) storage_client \<Rightarrow> 'v libs \<Rightarrow> finish_tag task \<Rightarrow> (string \<times> file_auth_tag) list
     \<Rightarrow> ('s, finish_tag task, anyhow) op" where
  "update_output_cmacs C L task [] = return_op (Ok task)"
| "update_output_cmacs C L task ((k, auth_tag) # rest) =
     bind_op (return_op (update_output_cmac task k auth_tag)) (\<lambda>(task', outfile).
     bind_op (put_into_db C L (S_output L) outfile) (\<lambda>_.
     update_output_cmacs C L task' rest))"

definition update_task_result ::
    "('s, 'v) storage_client \<Rightarrow> 'v libs \<Rightarrow> (outputs_tags \<Rightarrow> (string \<times> file_auth_tag) list)
     \<Rightarrow> update_task_result_request request \<Rightarrow> ('s, unit) service_op" where
  "update_task_result C L iter req =
     (let r = message req in
     bind_op (map_err_op service_error_from_anyhow (get_task_state C L (utr_task_id r))) (\<lambda>ts.
     bind_op (return_op (map_err service_error_from_anyhow (Finish_try_from ts))) (\<lambda>task.
     bind_op (map_err_op service_error_from_anyhow
       (case utr_task_result r of
          TaskOk outs \<Rightarrow> update_output_cmacs C L task (iter (tags_map outs))
        | _ \<Rightarrow> return_op (Ok task))) (\<lambda>task1.
     bind_op (return_op (map_err service_error_from_anyhow (update_result task1 (utr_task_result r)))) (\<lambda>task2.
     bind_op (return_op (Finish_into task2)) (\<lambda>ts'.
     map_err_op service_error_from_anyhow (put_into_db C L (S_task L) ts')))))))"

section \<open>The execution service\<close>

text \<open>
  One turn of \<^verbatim>\<open>start\<close>, with the scheduler called through its RPC interface: pull a
  staged task, mark it running, run it, report the outcome.  Errors end the
  turn; the loop then continues.
\<close>

definition exec_invoke_task ::
    "('s, 'v) storage_client \<Rightarrow> 'v libs \<Rightarrow> (staged_task \<Rightarrow> task_outputs anyhow_result) \<Rightarrow> staged_task
     \<Rightarrow> ('s, task_outputs, anyhow) op" where
  "exec_invoke_task C L execute st =
     bind_op (map_err_op anyhow_from_service
       (update_task_status C L (Request_new \<lparr>uts_task_id = st_task_id st, uts_task_status = Running\<rparr>))) (\<lambda>_.
     return_op (execute st))"

definition execution_round ::
    "('s, 'v) storage_client \<Rightarrow> 'v libs \<Rightarrow> (outputs_tags \<Rightarrow> (string \<times> file_auth_tag) list)
     \<Rightarrow> (staged_task \<Rightarrow> task_outputs anyhow_result) \<Rightarrow> ('s, unit) service_op" where
  "execution_round C L iter execute =
     bind_op (pull_task C L) (\<lambda>st.
     bind_op (try_op (exec_invoke_task C L execute st)) (\<lambda>r.
     bind_op (return_op (UpdateTaskResultRequest_new (st_task_id st) r)) (\<lambda>req.
     update_task_result C L iter (Request_new req))))"

section \<open>Every handler simulates the abstract store\<close>

context storage_service
begin

lemma sim_get_from_db:
  "object_impl S \<Longrightarrow> sim_op adv rel (get_from_db C L S k) (get_from_db A L S k)"
  unfolding get_from_db_def
  by (intro sim_ensure sim_bind sim_map_err sim_return sim_lock sim_get)
    (simp add: object_key_not_queue_key)

lemma sim_put_into_db:
  "object_impl S \<Longrightarrow> sim_op adv rel (put_into_db C L S x) (put_into_db A L S x)"
  unfolding put_into_db_def
  by (intro sim_bind sim_map_err sim_return sim_lock sim_put) (simp add: object_storable_key)

lemma sim_pull_task: "sim_op adv rel (pull_task C L) (pull_task A L)"
  unfolding pull_task_def pull_staged_task_def
  by (intro sim_bind sim_return sim_lock sim_dequeue)

lemma sim_update_task_status:
  "sim_op adv rel (update_task_status C L req) (update_task_status A L req)"
  unfolding update_task_status_def get_task_state_def
  by (intro sim_bind sim_return sim_map_err sim_get_from_db sim_put_into_db object_impls)

lemma sim_update_output_cmacs:
  "sim_op adv rel (update_output_cmacs C L t tags) (update_output_cmacs A L t tags)"
  by (induction tags arbitrary: t)
    (auto intro!: sim_bind sim_return sim_put_into_db object_impls split: prod.splits)

lemma sim_update_task_result:
  "sim_op adv rel (update_task_result C L iter req) (update_task_result A L iter req)"
proof (cases "utr_task_result (message req)")
  case (TaskOk outs)
  then show ?thesis
    unfolding update_task_result_def get_task_state_def Let_def
    by (simp only: task_result.case) (intro sim_bind sim_return sim_map_err sim_get_from_db
        sim_put_into_db sim_update_output_cmacs object_impls)
qed (simp_all only: update_task_result_def get_task_state_def Let_def task_result.case,
     (intro sim_bind sim_return sim_map_err sim_get_from_db sim_put_into_db object_impls)+)

lemma sim_execution_round:
  "sim_op adv rel (execution_round C L iter execute) (execution_round A L iter execute)"
  unfolding execution_round_def exec_invoke_task_def
  by (intro sim_bind sim_try sim_return sim_map_err sim_pull_task sim_update_task_status sim_update_task_result)

end

end
