(* ===== verification/Teaclave_System.thy ===== *)
theory Teaclave_System
  imports Scheduler
begin

text \<open>
  The management and scheduler services together on one store: \<open>system_call\<close>
  lists the calls they serve, \<open>system_step\<close> is one call on the abstract store
  and \<open>reachable\<close> what any sequence of calls leads to.  Calls run one at a time;
  the last section looks at what interleaved calls can do.

  \<open>store_inv\<close> says that every key holds an object of the type its prefix names,
  that every stored task satisfies \<open>task_inv\<close>, and that every queue entry is the
  staged image of a stored task that has been approved.
\<close>

section \<open>Calls\<close>

datatype system_call =
    RegisterInputFile uuid "register_input_file_request request"
  | UpdateInputFile uuid "update_input_file_request request"
  | RegisterOutputFile uuid "register_output_file_request request"
  | UpdateOutputFile uuid "update_output_file_request request"
  | RegisterFusionOutput uuid bytes uuid "owner_list request"
  | RegisterInputFromOutput "external_id request"
  | GetOutputFile "external_id request"
  | GetInputFile "external_id request"
  | RegisterFunction uuid "register_function_request request"
  | GetFunction "external_id request"
  | CreateTask uuid "create_task_request request"
  | GetTask "external_id request"
  | AssignDataCall "assign_data_request request"
  | ApproveTaskCall "external_id request"
  | InvokeTaskCall "external_id request"
  | PullTask
  | UpdateTaskStatus "update_task_status_request request"
  | UpdateTaskResult "update_task_result_request request"

definition void_op :: "('s, 'a, 'e) op \<Rightarrow> ('s, unit, 'e) op" where
  "void_op m = bind_op m (\<lambda>_. return_op (Ok ()))"

type_synonym tag_iter = "outputs_tags \<Rightarrow> (string \<times> file_auth_tag) list"

fun system_call_op :: "('s, 'v) storage_client \<Rightarrow> 'v libs \<Rightarrow> tag_iter \<Rightarrow> system_call \<Rightarrow> ('s, unit) service_op" where
  "system_call_op C L iter (RegisterInputFile u r) = void_op (register_input_file C L u r)"
| "system_call_op C L iter (UpdateInputFile u r) = void_op (update_input_file C L u r)"
| "system_call_op C L iter (RegisterOutputFile u r) = void_op (register_output_file C L u r)"
| "system_call_op C L iter (UpdateOutputFile u r) = void_op (update_output_file C L u r)"
| "system_call_op C L iter (RegisterFusionOutput uu k u r) = void_op (register_fusion_output C L uu k u r)"
| "system_call_op C L iter (RegisterInputFromOutput r) = void_op (register_input_from_output C L r)"
| "system_call_op C L iter (GetOutputFile r) = void_op (get_output_file C L r)"
| "system_call_op C L iter (GetInputFile r) = void_op (get_input_file C L r)"
| "system_call_op C L iter (RegisterFunction u r) = void_op (register_function C L u r)"
| "system_call_op C L iter (GetFunction r) = void_op (get_function C L r)"
| "system_call_op C L iter (CreateTask u r) = void_op (create_task C L u r)"
| "system_call_op C L iter (GetTask r) = void_op (get_task C L r)"
| "system_call_op C L iter (AssignDataCall r) = assign_data C L r"
| "system_call_op C L iter (ApproveTaskCall r) = approve_task C L r"
| "system_call_op C L iter (InvokeTaskCall r) = invoke_task C L r"
| "system_call_op C L iter PullTask = void_op (pull_task C L)"
| "system_call_op C L iter (UpdateTaskStatus r) = update_task_status C L r"
| "system_call_op C L iter (UpdateTaskResult r) = update_task_result C L iter r"

text \<open>A fresh \<^verbatim>\<open>Uuid::new_v4()\<close>: no object of the store has it.\<close>

definition fresh_uuid :: "'v libs \<Rightarrow> 'v store \<Rightarrow> uuid \<Rightarrow> bool" where
  "fresh_uuid L s u \<longleftrightarrow>
     (\<forall>p \<in> {''function'', ''input'', ''output'', ''task''}.
        kv s (ExternalID_to_bytes (lib_uuid L) (ExternalID_new p u)) = None)"

fun call_fresh :: "'v libs \<Rightarrow> 'v store \<Rightarrow> system_call \<Rightarrow> bool" where
  "call_fresh L s (RegisterInputFile u r) = fresh_uuid L s u"
| "call_fresh L s (UpdateInputFile u r) = fresh_uuid L s u"
| "call_fresh L s (RegisterOutputFile u r) = fresh_uuid L s u"
| "call_fresh L s (UpdateOutputFile u r) = fresh_uuid L s u"
| "call_fresh L s (RegisterFusionOutput uu k u r) = fresh_uuid L s u"
| "call_fresh L s (RegisterFunction u r) = fresh_uuid L s u"
| "call_fresh L s (CreateTask u r) = fresh_uuid L s u"
| "call_fresh L s _ = True"

definition system_step :: "'v libs \<Rightarrow> tag_iter \<Rightarrow> 'v store \<Rightarrow> system_call \<Rightarrow> 'v store \<Rightarrow> bool" where
  "system_step L iter s c s' \<longleftrightarrow> call_fresh L s c \<and> s' = snd (system_call_op ideal_client L iter c s)"

definition empty_store :: "'v store" where
  "empty_store = \<lparr>kv = (\<lambda>_. None), queues = (\<lambda>_. [])\<rparr>"

inductive reachable :: "'v libs \<Rightarrow> tag_iter \<Rightarrow> 'v store \<Rightarrow> bool" for L :: "'v libs" and iter :: tag_iter where
  reach_init: "reachable L iter empty_store"
| reach_step: "reachable L iter s \<Longrightarrow> system_step L iter s c s' \<Longrightarrow> reachable L iter s'"

section \<open>Typed contents of the store\<close>

definition holds :: "'v libs \<Rightarrow> ('a, 'v) storable_impl \<Rightarrow> 'v store \<Rightarrow> 'a \<Rightarrow> bool" where
  "holds L S s x \<longleftrightarrow>
     (\<exists>v. to_vec S x = Ok v \<and> kv s (storable_key (lib_uuid L) S x) = Some v)"

definition enc :: "('a, 'v) storable_impl \<Rightarrow> 'a \<Rightarrow> 'v" where
  "enc S x = (case to_vec S x of Ok v \<Rightarrow> v)"

definition put_obj :: "'v libs \<Rightarrow> ('a, 'v) storable_impl \<Rightarrow> 'a \<Rightarrow> 'v store \<Rightarrow> 'v store" where
  "put_obj L S x s = s\<lparr>kv := (kv s)(storable_key (lib_uuid L) S x \<mapsto> enc S x)\<rparr>"

definition stored_obj :: "'v libs \<Rightarrow> bytes \<Rightarrow> 'v \<Rightarrow> bool" where
  "stored_obj L k v \<longleftrightarrow>
     (\<exists>x. k = storable_key (lib_uuid L) (S_function L) x \<and> v = enc (S_function L) x) \<or>
     (\<exists>x. k = storable_key (lib_uuid L) (S_input L) x \<and> v = enc (S_input L) x) \<or>
     (\<exists>x. k = storable_key (lib_uuid L) (S_output L) x \<and> v = enc (S_output L) x) \<or>
     (\<exists>x. k = storable_key (lib_uuid L) (S_task L) x \<and> v = enc (S_task L) x \<and> task_inv x)"

text \<open>\<open>staged_from L s ts st\<close>: \<open>st\<close> is the staged image of the stored task \<open>ts\<close> with its stored function.\<close>

definition staged_from :: "'v libs \<Rightarrow> 'v store \<Rightarrow> task_state \<Rightarrow> staged_task \<Rightarrow> bool" where
  "staged_from L s ts st \<longleftrightarrow>
     (\<exists>f. holds L (S_function L) s f \<and> external_id_of (S_function L) f = function_id ts \<and>
        stage_for_running \<lparr>state = ts, extra = Stage\<rparr> (creator ts) f = Ok st)"

definition staged_entry :: "'v libs \<Rightarrow> 'v store \<Rightarrow> 'v \<Rightarrow> bool" where
  "staged_entry L s v \<longleftrightarrow>
     (\<exists>st ts. v = enc (S_staged L) st \<and> holds L (S_task L) s ts \<and> Staged \<le> status ts \<and> staged_from L s ts st)"

definition queue_task_ids :: "'v libs \<Rightarrow> 'v store \<Rightarrow> uuid anyhow_result list" where
  "queue_task_ids L s =
     map (\<lambda>v. map_ok st_task_id (from_slice (S_staged L) v)) (queues s (into_bytes QUEUE_KEY))"

definition store_inv :: "'v libs \<Rightarrow> 'v store \<Rightarrow> bool" where
  "store_inv L s \<longleftrightarrow>
     (\<forall>k v. kv s k = Some v \<longrightarrow> stored_obj L k v) \<and>
     (\<forall>v \<in> set (queues s (into_bytes QUEUE_KEY)). staged_entry L s v) \<and>
     distinct (queue_task_ids L s)"

section \<open>Reading and writing the abstract store\<close>

definition wp :: "('s, 'a, 'e) op \<Rightarrow> (('a, 'e) result \<Rightarrow> 's \<Rightarrow> bool) \<Rightarrow> 's \<Rightarrow> bool" where
  "wp m Q s \<longleftrightarrow> Q (fst (m s)) (snd (m s))"

lemma wp_bind:
  "wp (bind_op m f) Q s \<longleftrightarrow>
   wp m (\<lambda>r s'. case r of Ok a \<Rightarrow> wp (f a) Q s' | Err e \<Rightarrow> Q (Err e) s' | Panic \<Rightarrow> Q Panic s') s"
  by (auto simp: wp_def bind_op_def split: prod.splits result.splits)

lemma wp_return: "wp (return_op r) Q s \<longleftrightarrow> Q r s"
  by (simp add: wp_def return_op_def)

lemma wp_void: "wp (void_op m) Q s \<longleftrightarrow> wp m (\<lambda>r s'. Q (map_ok (\<lambda>_. ()) r) s') s"
  by (auto simp: wp_def void_op_def bind_op_def return_op_def map_ok_def split: prod.splits result.splits)

lemma wp_map_err: "wp (map_err_op g m) Q s \<longleftrightarrow> wp m (\<lambda>r s'. Q (map_err g r) s') s"
  by (simp add: wp_def map_err_op_def split: prod.splits)

lemmas wp_simps = wp_bind wp_return wp_void wp_map_err

definition impl_ok :: "('a, 'v) storable_impl \<Rightarrow> bool" where
  "impl_ok S \<longleftrightarrow> json_ok (codec S)"

lemma libs_ok_impls:
  assumes "libs_ok L"
  shows "uuid_ok (lib_uuid L)" "impl_ok (S_function L)" "impl_ok (S_input L)" "impl_ok (S_output L)"
    "impl_ok (S_task L)" "impl_ok (S_staged L)"
  using assms by (simp_all add: libs_ok_def impl_ok_def storable_defs storable_task_def)

lemma to_vec_enc: "impl_ok S \<Longrightarrow> to_vec S x = Ok (enc S x)"
  by (auto simp: impl_ok_def json_ok_def to_vec_def enc_def split: result.splits)
    (metis result.distinct(1) result.distinct(3))+

lemma from_slice_enc: "impl_ok S \<Longrightarrow> from_slice S (enc S x) = Ok x"
  using to_vec_enc [of S x] unfolding impl_ok_def json_ok_def to_vec_def from_slice_def
  by (metis result.inject(1))

lemma enc_inj: "impl_ok S \<Longrightarrow> enc S x = enc S y \<longleftrightarrow> x = y"
  by (metis from_slice_enc result.inject(1))

lemma holds_iff: "impl_ok S \<Longrightarrow> holds L S s x \<longleftrightarrow> kv s (storable_key (lib_uuid L) S x) = Some (enc S x)"
  by (simp add: holds_def to_vec_enc)

lemma write_ideal:
  "impl_ok S \<Longrightarrow> write_or_fail ideal_client L S x s = (Ok (), put_obj L S x s)"
  by (simp add: write_or_fail_def write_to_db_def to_vec_enc bind_op_def return_op_def lock_op_def
      ideal_client_def map_err_op_def put_obj_def)

lemma put_ideal:
  "impl_ok S \<Longrightarrow> put_into_db ideal_client L S x s = (Ok (), put_obj L S x s)"
  by (simp add: put_into_db_def to_vec_enc bind_op_def return_op_def lock_op_def
      ideal_client_def map_err_op_def put_obj_def)

lemma read_ideal:
  "read_from_db ideal_client L S k s =
   (if match_prefix S (ext_prefix k) then
      (case kv s (ExternalID_to_bytes (lib_uuid L) k) of
         Some v \<Rightarrow> (from_slice S v, s) | None \<Rightarrow> (Err (anyhow_from_service none_error), s))
    else (Err (Anyhow ''Key prefix doesn't match.'' []), s))"
  by (simp add: read_from_db_def bind_op_def return_op_def lock_op_def ideal_client_def map_err_op_def
      split: option.splits)

lemma get_from_db_read: "get_from_db C L S k = read_from_db C L S k"
  by (simp add: get_from_db_def read_from_db_def)

lemma get_task_state_read:
  "get_task_state C L tid = read_from_db C L (S_task L) (ExternalID_new ''task'' tid)"
  by (simp add: get_task_state_def get_from_db_read storable_task_def)

lemma wp_write: "impl_ok S \<Longrightarrow> wp (write_or_fail ideal_client L S x) Q s \<longleftrightarrow> Q (Ok ()) (put_obj L S x s)"
  by (simp add: wp_def write_ideal)

lemma wp_put: "impl_ok S \<Longrightarrow> wp (put_into_db ideal_client L S x) Q s \<longleftrightarrow> Q (Ok ()) (put_obj L S x s)"
  by (simp add: wp_def put_ideal)

lemma wp_enqueue:
  "impl_ok S \<Longrightarrow> wp (enqueue_to_db ideal_client k S x) Q s \<longleftrightarrow>
   Q (Ok ()) (s\<lparr>queues := (queues s)(k := queues s k @ [enc S x])\<rparr>)"
  by (simp add: wp_def enqueue_to_db_def to_vec_enc bind_op_def return_op_def lock_op_def ideal_client_def)

lemma wp_permit: "wp (permit c) Q s \<longleftrightarrow>
    (if c then Q (Ok ()) s else Q (Err (mgmt_error PermissionDenied)) s)"
  by (simp add: wp_def permit_def return_op_def ensure_def)

lemma wp_or_deny: "wp (or_deny r) Q s \<longleftrightarrow> Q (map_err (\<lambda>_. mgmt_error PermissionDenied) r) s"
  by (simp add: wp_def or_deny_def return_op_def)

definition kv_inv :: "'v libs \<Rightarrow> 'v store \<Rightarrow> bool" where
  "kv_inv L s \<longleftrightarrow> (\<forall>k v. kv s k = Some v \<longrightarrow> stored_obj L k v)"

lemma key_eq_id:
  "uuid_ok U \<Longrightarrow> ExternalID_to_bytes U k = storable_key U S x \<longleftrightarrow> k = external_id_of S x"
  by (simp add: storable_key_eq ExternalID_to_bytes_inj)

lemma ext_prefix_of: "ext_prefix (external_id_of S x) = key_prefix S"
  by (simp add: external_id_of_def ExternalID_new_def)

lemma ext_uuid_of_task: "ext_uuid (external_id_of (storable_task j) ts) = task_id ts"
  by (simp add: external_id_of_def ExternalID_new_def storable_task_def)

text \<open>A prefix names one type only.\<close>

lemma match_prefix_simps:
  "match_prefix (storable_function jf) (key_prefix (storable_input ji)) = False"
  "match_prefix (storable_function jf) (key_prefix (storable_output jo)) = False"
  "match_prefix (storable_function jf) (key_prefix (storable_task jt)) = False"
  "match_prefix (storable_input ji) (key_prefix (storable_function jf)) = False"
  "match_prefix (storable_input ji) (key_prefix (storable_output jo)) = False"
  "match_prefix (storable_input ji) (key_prefix (storable_task jt)) = False"
  "match_prefix (storable_output jo) (key_prefix (storable_function jf)) = False"
  "match_prefix (storable_output jo) (key_prefix (storable_input ji)) = False"
  "match_prefix (storable_output jo) (key_prefix (storable_task jt)) = False"
  "match_prefix (storable_task jt) (key_prefix (storable_function jf)) = False"
  "match_prefix (storable_task jt) (key_prefix (storable_input ji)) = False"
  "match_prefix (storable_task jt) (key_prefix (storable_output jo)) = False"
  by (simp_all add: match_prefix_def storable_defs storable_task_def)

lemma kv_lookup_cases:
  assumes "libs_ok L" "kv_inv L s" "kv s (ExternalID_to_bytes (lib_uuid L) k) = Some v"
  obtains (fn) x where "k = external_id_of (S_function L) x" "v = enc (S_function L) x"
  | (inp) x where "k = external_id_of (S_input L) x" "v = enc (S_input L) x"
  | (outp) x where "k = external_id_of (S_output L) x" "v = enc (S_output L) x"
  | (tsk) x where "k = external_id_of (S_task L) x" "v = enc (S_task L) x" "task_inv x"
proof -
  from assms(2,3) have "stored_obj L (ExternalID_to_bytes (lib_uuid L) k) v" by (simp add: kv_inv_def)
  then show thesis
    using that libs_ok_impls(1) [OF assms(1)] by (auto simp: stored_obj_def key_eq_id)
qed

lemmas typed_read_simps =
  wp_def read_ideal ext_prefix_of match_prefix_simps from_slice_enc holds_iff storable_key_eq

text \<open>
  A read from a typed store changes nothing and yields an object of the type
  asked for, stored under the key asked for, or an error.
\<close>

lemma wp_read_function:
  assumes "libs_ok L" "kv_inv L s"
    and "\<And>x. holds L (S_function L) s x \<Longrightarrow> k = external_id_of (S_function L) x \<Longrightarrow> Q (Ok x) s"
    and "\<And>e. Q (Err e) s"
  shows "wp (read_from_db ideal_client L (S_function L) k) Q s"
proof (cases "kv s (ExternalID_to_bytes (lib_uuid L) k)")
  case (Some v)
  with assms(1,2) show ?thesis
    by (rule kv_lookup_cases)
      (use Some assms(3,4) libs_ok_impls [OF assms(1)] in \<open>auto simp: typed_read_simps\<close>)
qed (simp add: wp_def read_ideal assms(4))

lemma wp_read_input:
  assumes "libs_ok L" "kv_inv L s"
    and "\<And>x. holds L (S_input L) s x \<Longrightarrow> k = external_id_of (S_input L) x \<Longrightarrow> Q (Ok x) s"
    and "\<And>e. Q (Err e) s"
  shows "wp (read_from_db ideal_client L (S_input L) k) Q s"
proof (cases "kv s (ExternalID_to_bytes (lib_uuid L) k)")
  case (Some v)
  with assms(1,2) show ?thesis
    by (rule kv_lookup_cases)
      (use Some assms(3,4) libs_ok_impls [OF assms(1)] in \<open>auto simp: typed_read_simps\<close>)
qed (simp add: wp_def read_ideal assms(4))

lemma wp_read_output:
  assumes "libs_ok L" "kv_inv L s"
    and "\<And>x. holds L (S_output L) s x \<Longrightarrow> k = external_id_of (S_output L) x \<Longrightarrow> Q (Ok x) s"
    and "\<And>e. Q (Err e) s"
  shows "wp (read_from_db ideal_client L (S_output L) k) Q s"
proof (cases "kv s (ExternalID_to_bytes (lib_uuid L) k)")
  case (Some v)
  with assms(1,2) show ?thesis
    by (rule kv_lookup_cases)
      (use Some assms(3,4) libs_ok_impls [OF assms(1)] in \<open>auto simp: typed_read_simps\<close>)
qed (simp add: wp_def read_ideal assms(4))

lemma wp_read_task:
  assumes "libs_ok L" "kv_inv L s"
    and "\<And>x. holds L (S_task L) s x \<Longrightarrow> task_inv x \<Longrightarrow> k = external_id_of (S_task L) x \<Longrightarrow> Q (Ok x) s"
    and "\<And>e. Q (Err e) s"
  shows "wp (read_from_db ideal_client L (S_task L) k) Q s"
proof (cases "kv s (ExternalID_to_bytes (lib_uuid L) k)")
  case (Some v)
  with assms(1,2) show ?thesis
    by (rule kv_lookup_cases)
      (use Some assms(3,4) libs_ok_impls [OF assms(1)] in \<open>auto simp: typed_read_simps\<close>)
qed (simp add: wp_def read_ideal assms(4))

lemma wp_read_or_deny:
  "wp (read_from_db C L S k) (\<lambda>r s'. Q (map_err (\<lambda>_. mgmt_error PermissionDenied) r) s') s \<Longrightarrow>
   wp (read_or_deny C L S k) Q s"
  by (simp add: read_or_deny_def wp_map_err)

section \<open>What a call does to the store\<close>

inductive effect :: "'v libs \<Rightarrow> (uuid \<times> user_id) set \<Rightarrow> 'v store \<Rightarrow> 'v store \<Rightarrow> bool"
  for L :: "'v libs" and A :: "(uuid \<times> user_id) set" and s :: "'v store" where
  eff_function: "fresh_uuid L s (fn_id f) \<Longrightarrow> effect L A s (put_obj L (S_function L) f s)"
| eff_input: "effect L A s (put_obj L (S_input L) i s)"
| eff_output: "effect L A s (put_obj L (S_output L) out s)"
| eff_create: "fresh_uuid L s (task_id ts) \<Longrightarrow> task_inv ts \<Longrightarrow> status ts = Created \<Longrightarrow> effect L A s (put_obj L (S_task L) ts s)"
| eff_step: "holds L (S_task L) s ts \<Longrightarrow> task_step ts e ts' \<Longrightarrow>
    (\<And>u. e = ApproveTask u \<Longrightarrow> (task_id ts, u) \<in> A) \<Longrightarrow> effect L A s (put_obj L (S_task L) ts' s)"
| eff_invoke: "holds L (S_task L) s ts \<Longrightarrow> task_step ts (InvokeTask u st) ts' \<Longrightarrow> staged_from L s ts st \<Longrightarrow>
    effect L A s (put_obj L (S_task L) ts'
      (s\<lparr>queues := (queues s)(into_bytes QUEUE_KEY := queues s (into_bytes QUEUE_KEY) @ [enc (S_staged L) st])\<rparr>))"
| eff_pull: "queues s (into_bytes QUEUE_KEY) = v # vs \<Longrightarrow>
    effect L A s (s\<lparr>queues := (queues s)(into_bytes QUEUE_KEY := vs)\<rparr>)"

abbreviation effects :: "'v libs \<Rightarrow> (uuid \<times> user_id) set \<Rightarrow> 'v store \<Rightarrow> 'v store \<Rightarrow> bool" where
  "effects L A \<equiv> (effect L A)\<^sup>*\<^sup>*"

text \<open>The approvals that a call asks for: of which task, by which user.\<close>

fun call_approvals :: "system_call \<Rightarrow> (uuid \<times> user_id) set" where
  "call_approvals (ApproveTaskCall r) = {(ext_uuid (message r), u) |u. get_request_user_id (metadata r) = Ok u}"
| "call_approvals _ = {}"

lemma effects_refl [intro, simp]: "effects L A s s"
  by simp

lemma effects_one [intro]: "effect L A s s' \<Longrightarrow> effects L A s s'"
  by (rule r_into_rtranclp)

lemmas wp_handler_simps = wp_simps wp_permit wp_or_deny wp_write wp_enqueue Let_def
lemmas wp_reads = wp_read_or_deny wp_read_function wp_read_input wp_read_output wp_read_task

lemma get_request_user_id_cases:
  "get_request_user_id m = Err (mgmt_error InvalidRequest) \<or> (\<exists>u. get_request_user_id m = Ok u)"
  by (cases "fmlookup m ''id''") (auto simp: get_request_user_id_def)

lemma register_input_file_effect:
  assumes "libs_ok L"
  shows "wp (register_input_file ideal_client L u req) (\<lambda>r. effects L A s) s"
  using get_request_user_id_cases [of "metadata req"] libs_ok_impls [OF assms]
  by (auto simp: register_input_file_def wp_handler_simps intro!: effects_one eff_input)

lemma register_output_file_effect:
  assumes "libs_ok L"
  shows "wp (register_output_file ideal_client L u req) (\<lambda>r. effects L A s) s"
  using get_request_user_id_cases [of "metadata req"] libs_ok_impls [OF assms]
  by (auto simp: register_output_file_def wp_handler_simps intro!: effects_one eff_output)

lemma register_function_effect:
  assumes "libs_ok L" "fresh_uuid L s u"
  shows "wp (register_function ideal_client L u req) (\<lambda>r. effects L A s) s"
  using get_request_user_id_cases [of "metadata req"] libs_ok_impls [OF assms(1)] assms(2)
  by (auto simp: register_function_def wp_handler_simps intro!: effects_one eff_function)

lemma update_input_file_effect:
  assumes "libs_ok L" "kv_inv L s"
  shows "wp (update_input_file ideal_client L u req) (\<lambda>r. effects L A s) s"
  using get_request_user_id_cases [of "metadata req"] libs_ok_impls [OF assms(1)] assms
  by (auto simp: update_input_file_def wp_handler_simps intro!: wp_reads effects_one eff_input)

lemma update_output_file_effect:
  assumes "libs_ok L" "kv_inv L s"
  shows "wp (update_output_file ideal_client L u req) (\<lambda>r. effects L A s) s"
  using get_request_user_id_cases [of "metadata req"] libs_ok_impls [OF assms(1)] assms
  by (auto simp: update_output_file_def wp_handler_simps intro!: wp_reads effects_one eff_output)

lemma register_fusion_output_effect:
  assumes "libs_ok L"
  shows "wp (register_fusion_output ideal_client L uu k u req) (\<lambda>r. effects L A s) s"
  using get_request_user_id_cases [of "metadata req"] libs_ok_impls [OF assms]
  by (auto simp: register_fusion_output_def wp_handler_simps create_fusion_data_def ok_or_def
      intro!: effects_one eff_output split: option.splits)

lemma register_input_from_output_effect:
  assumes "libs_ok L" "kv_inv L s"
  shows "wp (register_input_from_output ideal_client L req) (\<lambda>r. effects L A s) s"
  using get_request_user_id_cases [of "metadata req"] libs_ok_impls [OF assms(1)] assms
  by (auto simp: register_input_from_output_def wp_handler_simps InputFile_from_output_def ok_or_def
      intro!: wp_reads effects_one eff_input split: option.splits)

lemma create_task_effect:
  assumes "libs_ok L" "kv_inv L s" "fresh_uuid L s u"
  shows "wp (create_task ideal_client L u req) (\<lambda>r. effects L A s) s"
proof -
  have eff: "effects L A s (put_obj L (S_task L) (Create_into t) s)"
    if "Create_new uid ex ar ins outs f u = Ok t" for uid ex ar ins outs f t
  proof (intro effects_one eff_create Create_new_inv [OF that])
    show "status (Create_into t) = Created" by (simp add: Create_into_def)
    show "fresh_uuid L s (task_id (Create_into t))"
      using that assms(3) by (auto simp: Create_new_def Create_into_def Let_def res_simps)
  qed
  show ?thesis
    using get_request_user_id_cases [of "metadata req"] libs_ok_impls [OF assms(1)] assms
    by (auto simp: create_task_def wp_handler_simps map_err_def eff intro!: wp_reads split: result.splits)
qed

lemma wp_assign_data_inputs:
  assumes "libs_ok L" "kv_inv L s"
    and "\<And>t' fs. assign_inputs u t fs = Ok t' \<Longrightarrow> Q (Ok t') s" and "\<And>e. Q (Err e) s"
  shows "wp (assign_data_inputs ideal_client L u t ins) Q s"
  using assms(3)
proof (induction ins arbitrary: t)
  case Nil
  then show ?case using Nil [of "[]"] by (simp add: wp_simps)
next
  case (Cons a ins)
  obtain n k where a: "a = (n, k)" by fastforce
  have "wp (assign_data_inputs ideal_client L u t1 ins) Q s" if "assign_input t u n f = Ok t1" for t1 f
    using that Cons.prems [of "(n, f) # _"] by (intro Cons.IH) simp
  then show ?case
    using assms(1,2,4)
    by (auto simp: a wp_handler_simps map_err_def intro!: wp_reads split: result.splits)
qed

lemma wp_assign_data_outputs:
  assumes "libs_ok L" "kv_inv L s"
    and "\<And>t' fs. assign_outputs u t fs = Ok t' \<Longrightarrow> Q (Ok t') s" and "\<And>e. Q (Err e) s"
  shows "wp (assign_data_outputs ideal_client L u t outs) Q s"
  using assms(3)
proof (induction outs arbitrary: t)
  case Nil
  then show ?case using Nil [of "[]"] by (simp add: wp_simps)
next
  case (Cons a outs)
  obtain n k where a: "a = (n, k)" by fastforce
  have "wp (assign_data_outputs ideal_client L u t1 outs) Q s" if "assign_output t u n f = Ok t1" for t1 f
    using that Cons.prems [of "(n, f) # _"] by (intro Cons.IH) simp
  then show ?case
    using assms(1,2,4)
    by (auto simp: a wp_handler_simps map_err_def intro!: wp_reads split: result.splits)
qed

lemma assign_effect:
  assumes "holds L (S_task L) s ts" "has_participant ts u" "Assign_try_from ts = Ok t"
    "assign_inputs u t ins = Ok t1" "assign_outputs u t1 outs = Ok t2"
  shows "ready_Assign t2 \<Longrightarrow> effects L A s (put_obj L (S_task L) ((state t2)\<lparr>status := DataAssigned\<rparr>) s)"
    and "\<not> ready_Assign t2 \<Longrightarrow> effects L A s (put_obj L (S_task L) ((state t2)\<lparr>status := Created\<rparr>) s)"
  using eff_step [OF assms(1) step_assign [OF assms(2-5)]] by auto

lemma assign_data_effect:
  assumes "libs_ok L" "kv_inv L s"
  shows "wp (assign_data ideal_client L req) (\<lambda>r. effects L A s) s"
  using get_request_user_id_cases [of "metadata req"] libs_ok_impls [OF assms(1)] assms
  by (auto simp: assign_data_def wp_handler_simps map_err_def assign_effect
      intro!: wp_reads wp_assign_data_inputs wp_assign_data_outputs split: result.splits)

lemma approve_effect:
  assumes "holds L (S_task L) s ts" "Approve_try_from ts = Ok t" "approve t u = Ok t1" "(task_id ts, u) \<in> A"
  shows "ready_Approve t1 \<Longrightarrow> effects L A s (put_obj L (S_task L) ((state t1)\<lparr>status := Approved\<rparr>) s)"
    and "\<not> ready_Approve t1 \<Longrightarrow> effects L A s (put_obj L (S_task L) ((state t1)\<lparr>status := DataAssigned\<rparr>) s)"
  using eff_step [OF assms(1) step_approve [OF assms(2,3)]] assms(4) by auto

lemma approve_task_effect:
  assumes "libs_ok L" "kv_inv L s"
  shows "wp (approve_task ideal_client L req) (\<lambda>r. effects L (call_approvals (ApproveTaskCall req)) s) s"
  using get_request_user_id_cases [of "metadata req"] libs_ok_impls [OF assms(1)] assms
  by (auto simp: approve_task_def wp_handler_simps map_err_def ext_uuid_of_task
      intro!: wp_reads approve_effect split: result.splits)

lemma invoke_effect:
  assumes "holds L (S_task L) s ts" "holds L (S_function L) s f" "function_id ts = external_id_of (S_function L) f"
    "Stage_try_from ts = Ok t" "stage_for_running t (creator ts) f = Ok st"
  shows "effects L A s (put_obj L (S_task L) ((state t)\<lparr>status := Staged\<rparr>)
    (s\<lparr>queues := (queues s)(into_bytes QUEUE_KEY := queues s (into_bytes QUEUE_KEY) @ [enc (S_staged L) st])\<rparr>))"
proof (intro effects_one eff_invoke [OF assms(1), where u = "creator ts"])
  show "task_step ts (InvokeTask (creator ts) st) ((state t)\<lparr>status := Staged\<rparr>)"
    using assms(3-5)
    by (intro step_invoke [where f = f and t = t])
      (auto simp: has_creator_def ready_default_def external_id_of_def ExternalID_new_def storable_function_def)
  show "staged_from L s ts st"
    using assms unfolding staged_from_def by (intro exI [of _ f]) (auto simp: res_simps)
qed

lemma invoke_task_effect:
  assumes "libs_ok L" "kv_inv L s"
  shows "wp (invoke_task ideal_client L req) (\<lambda>r. effects L A s) s"
  using get_request_user_id_cases [of "metadata req"] libs_ok_impls [OF assms(1)] assms
  by (auto simp: invoke_task_def wp_handler_simps map_err_def has_creator_def ready_default_def
      intro!: wp_reads invoke_effect split: result.splits)

lemma pull_task_effect: "wp (pull_task ideal_client L) (\<lambda>r. effects L A s) s"
  by (auto simp: pull_task_def pull_staged_task_def bind_op_def return_op_def lock_op_def ideal_client_def wp_def
      intro: eff_pull split: list.splits)

lemma update_task_status_effect:
  assumes "libs_ok L" "kv_inv L s"
  shows "wp (update_task_status ideal_client L req) (\<lambda>r. effects L A s) s"
proof -
  have eff: "effects L A s (put_obj L (S_task L) ((state t)\<lparr>status := Running\<rparr>) s)"
    if "holds L (S_task L) s ts" "Run_try_from ts = Ok t" for ts t
    using eff_step [OF that(1) step_run [OF that(2)]] by (auto simp: ready_default_def)
  show ?thesis
    using libs_ok_impls [OF assms(1)] assms
    by (auto simp: update_task_status_def get_task_state_read wp_handler_simps wp_put map_err_def eff
        ready_default_def intro!: wp_read_task split: result.splits)
qed

text \<open>The output files written by the loop of \<^verbatim>\<open>update_task_result\<close>.\<close>

definition put_outputs :: "'v libs \<Rightarrow> output_file list \<Rightarrow> 'v store \<Rightarrow> 'v store" where
  "put_outputs L outs s = fold (put_obj L (S_output L)) outs s"

lemma put_outputs_effects: "effects L A s (put_outputs L outs s)"
  unfolding put_outputs_def
  by (induction outs arbitrary: s) (auto intro: converse_rtranclp_into_rtranclp eff_output)

lemma holds_put_other:
  assumes "uuid_ok (lib_uuid L)" "key_prefix S \<noteq> key_prefix T \<or> uuid_of S x \<noteq> uuid_of T y"
  shows "holds L S (put_obj L T y s) x \<longleftrightarrow> holds L S s x"
  using assms by (auto simp: holds_def put_obj_def storable_key_inj)

lemma put_outputs_holds_task:
  "uuid_ok (lib_uuid L) \<Longrightarrow> holds L (S_task L) (put_outputs L outs s) x \<longleftrightarrow> holds L (S_task L) s x"
  unfolding put_outputs_def
  by (induction outs arbitrary: s) (simp_all add: holds_put_other storable_defs storable_task_def)

lemma wp_update_output_cmacs:
  assumes "libs_ok L"
    and "\<And>t' outs. update_outputs t tags = Ok t' \<Longrightarrow> Q (Ok t') (put_outputs L outs s)"
    and "\<And>e outs. Q (Err e) (put_outputs L outs s)"
  shows "wp (update_output_cmacs ideal_client L t tags) Q s"
  using assms(2,3)
proof (induction tags arbitrary: t s)
  case Nil
  then show ?case using Nil(1) [of t "[]"] by (simp add: wp_simps put_outputs_def)
next
  case (Cons a tags)
  obtain n tg where a: "a = (n, tg)" by fastforce
  note err = Cons.prems(2) [of _ "[]", unfolded put_outputs_def fold.simps id_apply]
  have "wp (update_output_cmacs ideal_client L t1 tags) Q (put_obj L (S_output L) f s)"
    if "update_output_cmac t n tg = Ok (t1, f)" for t1 f
  proof (rule Cons.IH)
    fix t' outs assume "update_outputs t1 tags = Ok t'"
    with that Cons.prems(1) [of t' "f # outs"] show "Q (Ok t') (put_outputs L outs (put_obj L (S_output L) f s))"
      by (simp add: a put_outputs_def)
  next
    fix e outs
    from Cons.prems(2) [of e "f # outs"] show "Q (Err e) (put_outputs L outs (put_obj L (S_output L) f s))"
      by (simp add: put_outputs_def)
  qed
  with err show ?case
    using libs_ok_impls [OF assms(1)] by (auto simp: a wp_simps wp_put split: result.splits)
qed

lemma finish_effect:
  assumes "libs_ok L" "holds L (S_task L) s ts" "Finish_try_from ts = Ok t" "update_outputs t tags = Ok t1"
  shows "effects L A s (put_obj L (S_task L) ((state t1)\<lparr>task_result := r, status := Finished\<rparr>) (put_outputs L outs s))"
proof -
  from assms have "holds L (S_task L) (put_outputs L outs s) ts"
    by (simp add: put_outputs_holds_task libs_ok_impls(1))
  moreover have "task_step ts (UpdateResult r) ((state t1)\<lparr>task_result := r, status := Finished\<rparr>)"
    using assms(3,4) by (intro step_finish) (auto simp: update_result_def ready_default_def)
  ultimately have "effect L A (put_outputs L outs s)
      (put_obj L (S_task L) ((state t1)\<lparr>task_result := r, status := Finished\<rparr>) (put_outputs L outs s))"
    by (rule eff_step) simp
  with put_outputs_effects show ?thesis by (rule rtranclp.rtrancl_into_rtrancl)
qed

lemma update_task_result_effect:
  assumes "libs_ok L" "kv_inv L s"
  shows "wp (update_task_result ideal_client L iter req) (\<lambda>r. effects L A s) s"
proof -
  have nil: "effects L A s (put_obj L (S_task L) ((state t)\<lparr>task_result := r, status := Finished\<rparr>) s)"
    if "holds L (S_task L) s ts" "Finish_try_from ts = Ok t" for ts t r
    using finish_effect [OF assms(1) that, of "[]" t A r "[]"] by (simp add: put_outputs_def)
  show ?thesis
    using libs_ok_impls [OF assms(1)] assms
    by (auto simp: update_task_result_def get_task_state_read wp_handler_simps wp_put map_err_def update_result_def
        ready_default_def nil put_outputs_effects finish_effect
        intro!: wp_read_task wp_update_output_cmacs split: result.splits task_result.splits)
qed

lemma read_only_effects:
  assumes "libs_ok L" "kv_inv L s"
  shows "wp (get_output_file ideal_client L req) (\<lambda>r. effects L A s) s"
    "wp (get_input_file ideal_client L req) (\<lambda>r. effects L A s) s"
    "wp (get_function ideal_client L req) (\<lambda>r. effects L A s) s"
    "wp (get_task ideal_client L req) (\<lambda>r. effects L A s) s"
  using get_request_user_id_cases [of "metadata req"] assms
  by (auto simp: get_output_file_def get_input_file_def get_function_def get_task_def wp_handler_simps
      intro!: wp_reads)

lemma system_step_effects:
  assumes "libs_ok L" "kv_inv L s" "system_step L iter s c s'"
  shows "effects L (call_approvals c) s s'"
proof -
  have "wp (system_call_op ideal_client L iter c) (\<lambda>r. effects L (call_approvals c) s) s"
    using assms approve_task_effect [OF assms(1,2)]
    by (cases c) (auto simp: system_step_def wp_void register_input_file_effect update_input_file_effect
        register_output_file_effect update_output_file_effect register_fusion_output_effect
        register_input_from_output_effect read_only_effects register_function_effect create_task_effect
        assign_data_effect invoke_task_effect pull_task_effect
        update_task_status_effect update_task_result_effect)
  with assms(3) show ?thesis by (simp add: wp_def system_step_def)
qed

section \<open>The invariant of the store\<close>

lemma holds_put_same:
  "impl_ok S \<Longrightarrow> holds L S (put_obj L S x s) x"
  by (simp add: holds_iff put_obj_def)

lemma holds_unique:
  assumes "impl_ok S" "holds L S s x" "holds L S s y" "uuid_of S x = uuid_of S y"
  shows "x = y"
proof -
  from assms(4) have "storable_key (lib_uuid L) S x = storable_key (lib_uuid L) S y"
    by (simp add: storable_key_eq external_id_of_def)
  with assms(1-3) show ?thesis by (simp add: holds_iff enc_inj)
qed

lemma fresh_not_held:
  assumes "fresh_uuid L s u" "key_prefix S \<in> {''function'', ''input'', ''output'', ''task''}" "holds L S s x"
  shows "uuid_of S x \<noteq> u"
proof
  assume "uuid_of S x = u"
  with assms(2) have "storable_key (lib_uuid L) S x = ExternalID_to_bytes (lib_uuid L) (ExternalID_new (key_prefix S) u)"
    by (simp add: storable_key_eq external_id_of_def)
  with assms show False unfolding fresh_uuid_def holds_def by (metis option.distinct(1))
qed

lemma holds_queues [simp]: "holds L S (s\<lparr>queues := q\<rparr>) x \<longleftrightarrow> holds L S s x"
  by (simp add: holds_def)

lemma queues_put_obj [simp]: "queues (put_obj L S x s) = queues s"
  by (simp add: put_obj_def)

lemma uuid_of_simps [simp]:
  "uuid_of (storable_task jt) = task_id" "uuid_of (storable_function jf) = fn_id"
  "uuid_of (storable_input ji) = in_uuid" "uuid_of (storable_output jo) = out_uuid"
  "key_prefix (storable_task jt) = ''task''" "key_prefix (storable_function jf) = ''function''"
  "key_prefix (storable_input ji) = ''input''" "key_prefix (storable_output jo) = ''output''"
  by (simp_all add: storable_defs storable_task_def)

lemma task_step_id: "task_step ts e ts' \<Longrightarrow> task_id ts' = task_id ts"
  using task_step_fixed by (fastforce simp: task_fixed_def)

text \<open>A stored task stays stored, and a call changes it by steps of its life only.\<close>

lemma step_write_task:
  assumes "libs_ok L" "holds L (S_task L) s ts" "holds L (S_task L) s ts0" "task_step ts0 e ts1"
  shows "\<exists>ts'. holds L (S_task L) (put_obj L (S_task L) ts1 s) ts' \<and> (ts' = ts \<or> (\<exists>e. task_step ts e ts'))"
proof (cases "task_id ts0 = task_id ts")
  case True
  then have "ts0 = ts"
    using holds_unique [OF libs_ok_impls(5) [OF assms(1)] assms(3,2)] by simp
  with assms(1,4) show ?thesis by (auto intro: holds_put_same libs_ok_impls)
next
  case False
  with assms show ?thesis
    by (intro exI [of _ ts]) (simp add: holds_put_other libs_ok_impls(1) task_step_id)
qed

lemma effect_task:
  assumes "libs_ok L" "effect L A s s'" "holds L (S_task L) s ts"
  shows "\<exists>ts'. holds L (S_task L) s' ts' \<and> (ts' = ts \<or> (\<exists>e. task_step ts e ts'))"
  using assms(2)
proof cases
  case (eff_create ts1)
  then have "task_id ts \<noteq> task_id ts1"
    using fresh_not_held [OF _ _ assms(3)] by simp
  with eff_create assms show ?thesis
    by (intro exI [of _ ts]) (simp add: holds_put_other libs_ok_impls(1))
next
  case (eff_step ts0 e ts1)
  with step_write_task [OF assms(1,3)] show ?thesis by simp
next
  case (eff_invoke ts0 u st ts1)
  from step_write_task [OF assms(1), of "s\<lparr>queues := q\<rparr>" ts ts0 "InvokeTask u st" ts1 for q] eff_invoke assms(3)
  show ?thesis by simp
qed (use assms(1,3) in \<open>auto simp: holds_put_other libs_ok_impls(1)\<close>)

lemma effect_function:
  assumes "libs_ok L" "effect L A s s'" "holds L (S_function L) s f"
  shows "holds L (S_function L) s' f"
  using assms(2)
proof cases
  case (eff_function f')
  then have "fn_id f \<noteq> fn_id f'"
    using fresh_not_held [OF _ _ assms(3)] by simp
  with eff_function assms show ?thesis by (simp add: holds_put_other libs_ok_impls(1))
qed (use assms(1,3) in \<open>simp_all add: holds_put_other libs_ok_impls(1)\<close>)

lemma kv_inv_put:
  assumes "kv_inv L s" "stored_obj L (storable_key (lib_uuid L) S x) (enc S x)"
  shows "kv_inv L (put_obj L S x s)"
  using assms by (simp add: kv_inv_def put_obj_def)

lemma holds_task_inv:
  assumes "libs_ok L" "kv_inv L s" "holds L (S_task L) s ts"
  shows "task_inv ts"
proof -
  note impl = libs_ok_impls [OF assms(1)]
  from assms(3) have "kv s (ExternalID_to_bytes (lib_uuid L) (external_id_of (S_task L) ts)) = Some (enc (S_task L) ts)"
    using impl by (simp add: holds_iff storable_key_eq)
  with assms(1,2) show ?thesis
    by (rule kv_lookup_cases) (use impl in \<open>auto simp: external_id_of_eq_iff enc_inj\<close>)
qed

lemma stored_obj_intros [simp]:
  "stored_obj L (storable_key (lib_uuid L) (S_function L) f) (enc (S_function L) f)"
  "stored_obj L (storable_key (lib_uuid L) (S_input L) i) (enc (S_input L) i)"
  "stored_obj L (storable_key (lib_uuid L) (S_output L) out) (enc (S_output L) out)"
  "task_inv ts \<Longrightarrow> stored_obj L (storable_key (lib_uuid L) (S_task L) ts) (enc (S_task L) ts)"
  unfolding stored_obj_def by blast+

lemma kv_inv_queues [simp]: "kv_inv L (s\<lparr>queues := q\<rparr>) \<longleftrightarrow> kv_inv L s"
  by (simp add: kv_inv_def)

lemma effect_kv_inv:
  assumes "libs_ok L" "effect L A s s'" "kv_inv L s"
  shows "kv_inv L s'"
  using assms(2)
  by cases (use assms(1,3) in \<open>auto intro!: kv_inv_put stored_obj_intros(4) intro: task_step_inv holds_task_inv\<close>)

text \<open>A staged task keeps its staged image.\<close>

lemma stage_for_running_step:
  assumes "task_step ts e ts'" "Staged \<le> status ts"
  shows "Staged \<le> status ts' \<and>
    stage_for_running \<lparr>state = ts', extra = Stage\<rparr> (creator ts') f =
    stage_for_running \<lparr>state = ts, extra = Stage\<rparr> (creator ts) f \<and> function_id ts' = function_id ts"
  using assms(1)
  by (cases rule: task_step_cases)
    (use assms(2) in \<open>auto simp: less_eq_task_status_def stage_for_running_def has_creator_def\<close>)

lemma effect_staged_entry:
  assumes "libs_ok L" "effect L A s s'" "staged_entry L s v"
  shows "staged_entry L s' v"
proof -
  from assms(3) obtain st ts f where v: "v = enc (S_staged L) st" and ts: "holds L (S_task L) s ts"
    and st: "Staged \<le> status ts" and f: "holds L (S_function L) s f" "external_id_of (S_function L) f = function_id ts"
    and run: "stage_for_running \<lparr>state = ts, extra = Stage\<rparr> (creator ts) f = Ok st"
    by (auto simp: staged_entry_def staged_from_def)
  obtain ts' where ts': "holds L (S_task L) s' ts'" "ts' = ts \<or> (\<exists>e. task_step ts e ts')"
    using effect_task [OF assms(1,2) ts] by blast
  from ts'(2) have "Staged \<le> status ts' \<and> function_id ts' = function_id ts \<and>
      stage_for_running \<lparr>state = ts', extra = Stage\<rparr> (creator ts') f = Ok st"
    using run st stage_for_running_step [of ts _ ts' f] by auto
  with v ts'(1) f effect_function [OF assms(1,2) f(1)] show ?thesis
    unfolding staged_entry_def staged_from_def by (intro exI [of _ st] exI [of _ ts']) auto
qed

lemma invoked_entry:
  assumes "libs_ok L" "task_step ts (InvokeTask u st) ts'" "staged_from L s ts st"
  shows "staged_entry L (put_obj L (S_task L) ts' (s\<lparr>queues := q\<rparr>)) (enc (S_staged L) st)"
proof -
  from assms(2) have ts': "ts' = ts\<lparr>status := Staged\<rparr>" by (cases rule: task_step_cases) auto
  from assms(3) obtain f where f: "holds L (S_function L) s f" "external_id_of (S_function L) f = function_id ts"
    "stage_for_running \<lparr>state = ts, extra = Stage\<rparr> (creator ts) f = Ok st"
    by (auto simp: staged_from_def)
  have "staged_from L (put_obj L (S_task L) ts' (s\<lparr>queues := q\<rparr>)) ts' st"
    using f assms(1) unfolding staged_from_def ts'
    by (intro exI [of _ f]) (simp add: holds_put_other libs_ok_impls(1) stage_for_running_def has_creator_def)
  then show ?thesis
    using holds_put_same [OF libs_ok_impls(5) [OF assms(1)]] unfolding staged_entry_def
    by (intro exI [of _ st] exI [of _ ts']) (simp add: ts')
qed

lemma staged_entry_id:
  assumes "libs_ok L" "staged_entry L s v"
  obtains st ts where "from_slice (S_staged L) v = Ok st" "holds L (S_task L) s ts" "Staged \<le> status ts"
    "st_task_id st = task_id ts"
  using assms(2) libs_ok_impls(6) [OF assms(1)]
  by (auto simp: staged_entry_def staged_from_def from_slice_enc res_simps)

lemma invoked_id_new:
  assumes "libs_ok L" "task_step ts (InvokeTask u st) ts'" "holds L (S_task L) s ts" "staged_entry L s v"
  shows "map_ok st_task_id (from_slice (S_staged L) v) \<noteq> Ok (st_task_id st)"
proof
  assume eq: "map_ok st_task_id (from_slice (S_staged L) v) = Ok (st_task_id st)"
  obtain st0 ts0 where v: "from_slice (S_staged L) v = Ok st0" "holds L (S_task L) s ts0" "Staged \<le> status ts0"
    "st_task_id st0 = task_id ts0"
    using staged_entry_id [OF assms(1,4)] .
  from assms(2) have "st_task_id st = task_id ts \<and> \<not> Staged \<le> status ts"
    by (cases rule: task_step_cases) (auto simp: res_simps less_eq_task_status_def)
  moreover from this eq v have "task_id ts0 = task_id ts" by simp
  with holds_unique [OF libs_ok_impls(5) [OF assms(1)] v(2) assms(3)] have "ts0 = ts" by simp
  ultimately show False using v(3) by simp
qed

lemma effect_store_inv:
  assumes "libs_ok L" "effect L A s s'" "store_inv L s"
  shows "store_inv L s'"
proof -
  from assms(3) have old: "kv_inv L s" "\<And>v. v \<in> set (queues s (into_bytes QUEUE_KEY)) \<Longrightarrow> staged_entry L s v"
    "distinct (queue_task_ids L s)"
    by (auto simp: store_inv_def kv_inv_def)
  have kv: "kv_inv L s'" using assms(1,2) old(1) by (rule effect_kv_inv)
  note keep = effect_staged_entry [OF assms(1,2)]
  from assms(2) have "(\<forall>v \<in> set (queues s' (into_bytes QUEUE_KEY)). staged_entry L s' v) \<and> distinct (queue_task_ids L s')"
  proof cases
    case (eff_invoke ts u st ts')
    note new = invoked_entry [OF assms(1) eff_invoke(3,4)]
    have "from_slice (S_staged L) (enc (S_staged L) st) = Ok st"
      by (simp add: from_slice_enc libs_ok_impls(6) assms(1))
    moreover have "Ok (st_task_id st) \<notin> set (queue_task_ids L s)"
    proof
      assume "Ok (st_task_id st) \<in> set (queue_task_ids L s)"
      then obtain v where "v \<in> set (queues s (into_bytes QUEUE_KEY))"
        "map_ok st_task_id (from_slice (S_staged L) v) = Ok (st_task_id st)"
        unfolding queue_task_ids_def set_map by (elim imageE) (rule that, simp_all)
      with invoked_id_new [OF assms(1) eff_invoke(3,2)] old(2) show False by blast
    qed
    ultimately show ?thesis
      using old(2,3) keep new unfolding eff_invoke(1) by (auto simp: queue_task_ids_def)
  next
    case (eff_pull v vs)
    with old(2,3) keep show ?thesis by (simp add: queue_task_ids_def)
  qed (use old(2,3) keep in \<open>auto simp: queue_task_ids_def\<close>)
  with kv show ?thesis by (simp add: store_inv_def kv_inv_def)
qed

lemma effects_store_inv: "effects L A s s' \<Longrightarrow> libs_ok L \<Longrightarrow> store_inv L s \<Longrightarrow> store_inv L s'"
  by (induction rule: rtranclp_induct) (auto intro: effect_store_inv)

lemma store_inv_kv_inv: "store_inv L s \<Longrightarrow> kv_inv L s"
  by (simp add: store_inv_def kv_inv_def)

lemma reachable_store_inv: "reachable L iter s \<Longrightarrow> libs_ok L \<Longrightarrow> store_inv L s"
proof (induction rule: reachable.induct)
  case reach_init
  then show ?case by (simp add: store_inv_def empty_store_def queue_task_ids_def)
next
  case (reach_step s c s')
  then show ?case
    using system_step_effects [of L s iter c s'] effects_store_inv store_inv_kv_inv by metis
qed

text \<open>The life of one task along a run of the system.\<close>

lemma effects_task:
  assumes "effects L A s s'" "libs_ok L" "holds L (S_task L) s ts"
  shows "\<exists>ts' es. holds L (S_task L) s' ts' \<and> task_steps ts es ts'"
  using assms
proof (induction rule: rtranclp_induct)
  case base
  then show ?case using steps_nil by blast
next
  case (step s1 s2)
  then obtain ts1 es where ts1: "holds L (S_task L) s1 ts1" "task_steps ts es ts1" by blast
  with effect_task [OF step(4,2) ts1(1)] show ?case by (metis steps_snoc)
qed

text \<open>Every approval of a stored task was asked for.\<close>

lemma step_approved:
  assumes "task_step ts e ts'" "u |\<in>| approved_users ts'"
  shows "u |\<in>| approved_users ts \<or> e = ApproveTask u"
  using assms by (cases rule: task_step_cases) auto

lemma put_task_cases:
  assumes "libs_ok L" "holds L (S_task L) (put_obj L (S_task L) ts1 s) ts'"
  shows "ts' = ts1 \<or> task_id ts' \<noteq> task_id ts1 \<and> holds L (S_task L) s ts'"
  using assms holds_unique [OF libs_ok_impls(5) [OF assms(1)] assms(2) holds_put_same]
  by (cases "task_id ts' = task_id ts1") (auto simp: libs_ok_impls holds_put_other)

lemma effect_approved:
  assumes "libs_ok L" "effect L A s s'" "holds L (S_task L) s' ts'" "u |\<in>| approved_users ts'"
  shows "(task_id ts', u) \<in> A \<or> (\<exists>ts. holds L (S_task L) s ts \<and> task_id ts = task_id ts' \<and> u |\<in>| approved_users ts)"
  using assms(2)
proof cases
  case (eff_create ts1)
  then have "approved_users ts1 = {||}" by (simp add: task_inv_def)
  with put_task_cases [OF assms(1)] eff_create(1) assms(3,4) show ?thesis by force
next
  case (eff_step ts e ts1)
  then show ?thesis
    using put_task_cases [OF assms(1)] assms(3,4) step_approved [OF eff_step(3)] task_step_id [OF eff_step(3)] by metis
next
  case (eff_invoke ts w st ts1)
  then show ?thesis
    using put_task_cases [OF assms(1)] assms(3,4) step_approved [OF eff_invoke(3)] task_step_id [OF eff_invoke(3)]
    by (metis holds_queues task_event.distinct(9))
qed (use assms(1,3,4) in \<open>auto simp: holds_put_other libs_ok_impls(1)\<close>)

lemma effects_approved:
  assumes "effects L A s s'" "libs_ok L" "holds L (S_task L) s' ts'" "u |\<in>| approved_users ts'"
  shows "(task_id ts', u) \<in> A \<or> (\<exists>ts. holds L (S_task L) s ts \<and> task_id ts = task_id ts' \<and> u |\<in>| approved_users ts)"
  using assms
proof (induction arbitrary: ts' rule: rtranclp_induct)
  case (step s1 s2)
  with effect_approved [OF step(4,2)] show ?case by metis
qed blast

section \<open>Runs\<close>

inductive system_run :: "'v libs \<Rightarrow> tag_iter \<Rightarrow> 'v store \<Rightarrow> system_call list \<Rightarrow> 'v store \<Rightarrow> bool"
  for L :: "'v libs" and iter :: tag_iter where
  run_nil: "system_run L iter s [] s"
| run_snoc: "system_run L iter s cs s' \<Longrightarrow> system_step L iter s' c s'' \<Longrightarrow> system_run L iter s (cs @ [c]) s''"

lemma system_run_inv:
  assumes "system_run L iter s cs s'" "libs_ok L" "store_inv L s"
  shows "store_inv L s'"
  using assms
proof (induction rule: system_run.induct)
  case (run_snoc s cs s' c s'')
  then show ?case
    using system_step_effects [of L s' iter c s''] effects_store_inv store_inv_kv_inv by metis
qed

lemma system_run_task:
  assumes "system_run L iter s cs s'" "libs_ok L" "store_inv L s" "holds L (S_task L) s ts"
  shows "\<exists>ts' es. holds L (S_task L) s' ts' \<and> task_steps ts es ts'"
  using assms
proof (induction rule: system_run.induct)
  case (run_nil s)
  then show ?case using steps_nil by blast
next
  case (run_snoc s cs s' c s'')
  then obtain ts1 es where ts1: "holds L (S_task L) s' ts1" "task_steps ts es ts1" by blast
  have "effects L (call_approvals c) s' s''"
    using run_snoc system_run_inv [of L iter s cs s'] store_inv_kv_inv by (intro system_step_effects) auto
  with ts1(1) obtain ts2 es2 where "holds L (S_task L) s'' ts2" "task_steps ts1 es2 ts2"
    using effects_task run_snoc.prems(1) by blast
  with task_steps_append [OF ts1(2)] show ?case by blast
qed

lemma system_run_approved:
  assumes "system_run L iter s cs s'" "libs_ok L" "store_inv L s" "holds L (S_task L) s' ts'" "u |\<in>| approved_users ts'"
  shows "(\<exists>c \<in> set cs. (task_id ts', u) \<in> call_approvals c) \<or>
    (\<exists>ts. holds L (S_task L) s ts \<and> task_id ts = task_id ts' \<and> u |\<in>| approved_users ts)"
  using assms
proof (induction arbitrary: ts' rule: system_run.induct)
  case (run_snoc s cs s' c s'')
  have "effects L (call_approvals c) s' s''"
    using run_snoc system_run_inv [of L iter s cs s'] store_inv_kv_inv by (intro system_step_effects) auto
  from effects_approved [OF this run_snoc.prems(1,3,4)] show ?case
    using run_snoc.IH [OF run_snoc.prems(1,2)] by fastforce
qed blast

lemma reachable_run: "reachable L iter s \<longleftrightarrow> (\<exists>cs. system_run L iter empty_store cs s)"
proof
  show "reachable L iter s \<Longrightarrow> \<exists>cs. system_run L iter empty_store cs s"
    by (induction rule: reachable.induct) (blast intro: system_run.intros)+
  have "system_run L iter e cs s \<Longrightarrow> e = empty_store \<Longrightarrow> reachable L iter s" for e cs
    by (induction rule: system_run.induct) (auto intro: reachable.intros)
  then show "\<exists>cs. system_run L iter empty_store cs s \<Longrightarrow> reachable L iter s" by blast
qed

end
