(* ===== verification/Storage_Service.thy ===== *)
theory Storage_Service
  imports Teaclave_System
begin

text \<open>
  The storage service, \<^verbatim>\<open>services/storage/enclave/src/service.rs\<close>: a persistent
  queue \<^verbatim>\<open>DBQueue\<close> kept in a key-value database under three kinds of keys, and
  the five handlers.  The database is the record \<open>kvdb\<close> of the operations of
  \<^verbatim>\<open>rusty_leveldb::DB\<close> that the service calls; the locale \<open>kv_store\<close> is what the
  service relies on.  Inside it every handler is shown to simulate the abstract
  store of the storage client, with the queue of a key as a list.

  An operation needs room in the database; \<open>cost\<close> bounds what a write takes.
\<close>

section \<open>The database\<close>

record ('db, 'st) kvdb =
  db_get :: "bytes \<Rightarrow> ('db, bytes option, 'st) op"
  db_put :: "bytes \<Rightarrow> bytes \<Rightarrow> ('db, unit, 'st) op"
  db_delete :: "bytes \<Rightarrow> ('db, unit, 'st) op"

datatype 'st storage_error = Connection | LevelDb 'st | NoneError

fun storage_error_to_string :: "'st storage_error \<Rightarrow> string" where
  "storage_error_to_string Connection = ''connection error''"
| "storage_error_to_string (LevelDb _) = ''leveldb error''"
| "storage_error_to_string NoneError = ''none error''"

definition storage_error_into :: "'st storage_error \<Rightarrow> teaclave_service_response_error" where
  "storage_error_into e = RequestError (storage_error_to_string e)"

section \<open>DBQueue\<close>

definition get_tail_key :: "bytes \<Rightarrow> bytes" where
  "get_tail_key q = into_bytes ''queue-'' @ q @ into_bytes ''-tail''"

definition get_head_key :: "bytes \<Rightarrow> bytes" where
  "get_head_key q = into_bytes ''queue-'' @ q @ into_bytes ''-head''"

definition get_element_key :: "bytes \<Rightarrow> u32 \<Rightarrow> bytes" where
  "get_element_key q index = into_bytes ''queue-'' @ q @ into_bytes ''-'' @ u32_to_le_bytes index"

definition read_u32 :: "('db, 'st) kvdb \<Rightarrow> bytes \<Rightarrow> ('db, u32 option, 'st) op" where
  "read_u32 D k =
     bind_op (db_get D k) (\<lambda>r.
     return_op (Ok (case r of
        None \<Rightarrow> None
      | Some element_bytes \<Rightarrow> if length element_bytes \<noteq> 4 then None else Some (u32_from_le_bytes element_bytes))))"

definition get_head :: "('db, 'st) kvdb \<Rightarrow> bytes \<Rightarrow> ('db, u32, 'st) op" where
  "get_head D q = bind_op (read_u32 D (get_head_key q)) (\<lambda>r. return_op (Ok (case r of Some w \<Rightarrow> w | None \<Rightarrow> 0)))"

definition get_tail :: "('db, 'st) kvdb \<Rightarrow> bytes \<Rightarrow> ('db, u32, 'st) op" where
  "get_tail D q = bind_op (read_u32 D (get_tail_key q)) (\<lambda>r. return_op (Ok (case r of Some w \<Rightarrow> w | None \<Rightarrow> 0)))"

text \<open>The conversion of a database error by the operator \<^verbatim>\<open>?\<close>.\<close>

abbreviation leveldb_op :: "('db, 'a, 'st) op \<Rightarrow> ('db, 'a) service_op" where
  "leveldb_op \<equiv> map_err_op (storage_error_into \<circ> LevelDb)"

text \<open>\<^verbatim>\<open>+=\<close> on \<^verbatim>\<open>u32\<close> wraps, as in a release build.\<close>

definition enqueue :: "('db, 'st) kvdb \<Rightarrow> bytes \<Rightarrow> bytes \<Rightarrow> ('db, unit) service_op" where
  "enqueue D q value =
     bind_op (leveldb_op (get_tail D q)) (\<lambda>tail_index.
     bind_op (leveldb_op (db_put D (get_element_key q tail_index) value)) (\<lambda>_.
     leveldb_op (db_put D (get_tail_key q) (u32_to_le_bytes (tail_index + 1)))))"

definition dequeue :: "('db, 'st) kvdb \<Rightarrow> bytes \<Rightarrow> ('db, bytes) service_op" where
  "dequeue D q =
     bind_op (leveldb_op (get_head D q)) (\<lambda>head_index.
     bind_op (leveldb_op (get_tail D q)) (\<lambda>tail_index.
     if head_index \<ge> tail_index then return_op (Err (storage_error_into (NoneError :: 'st storage_error)))
     else
       let element_key = get_element_key q head_index in
       bind_op (leveldb_op (db_get D element_key)) (\<lambda>element.
       case element of
         None \<Rightarrow> return_op (Err (storage_error_into (NoneError :: 'st storage_error)))
       | Some result \<Rightarrow>
           bind_op (leveldb_op (db_put D (get_head_key q) (u32_to_le_bytes (head_index + 1)))) (\<lambda>_.
           bind_op (try_op (db_delete D element_key)) (\<lambda>r.
           return_op (if r = Panic then Panic else Ok result))))))"

definition queue_len :: "('db, 'st) kvdb \<Rightarrow> bytes \<Rightarrow> ('db, u32, 'st) op" where
  "queue_len D q = bind_op (get_tail D q) (\<lambda>t. bind_op (get_head D q) (\<lambda>h. return_op (Ok (t - h))))"

section \<open>Handlers\<close>

definition storage_get :: "('db, 'st) kvdb \<Rightarrow> bytes \<Rightarrow> ('db, bytes) service_op" where
  "storage_get D k =
     bind_op (leveldb_op (db_get D k)) (\<lambda>r.
     return_op (case r of Some v \<Rightarrow> Ok v | None \<Rightarrow> Err (storage_error_into (NoneError :: 'st storage_error))))"

definition storage_put :: "('db, 'st) kvdb \<Rightarrow> bytes \<Rightarrow> bytes \<Rightarrow> ('db, unit) service_op" where
  "storage_put D k v = leveldb_op (db_put D k v)"

definition storage_delete :: "('db, 'st) kvdb \<Rightarrow> bytes \<Rightarrow> ('db, unit) service_op" where
  "storage_delete D k = leveldb_op (db_delete D k)"

datatype storage_request =
    GetRequest bytes | PutRequest bytes bytes | DeleteRequest bytes
  | EnqueueRequest bytes bytes | DequeueRequest bytes

datatype storage_response =
    GetResponse bytes | PutResponse | DeleteResponse | EnqueueResponse | DequeueResponse bytes

text \<open>\<^verbatim>\<open>dispatch\<close>, and the loop of \<^verbatim>\<open>start\<close> over the requests received from the proxy.\<close>

fun storage_dispatch :: "('db, 'st) kvdb \<Rightarrow> storage_request \<Rightarrow> ('db, storage_response) service_op" where
  "storage_dispatch D (GetRequest k) = bind_op (storage_get D k) (\<lambda>v. return_op (Ok (GetResponse v)))"
| "storage_dispatch D (PutRequest k v) = bind_op (storage_put D k v) (\<lambda>_. return_op (Ok PutResponse))"
| "storage_dispatch D (DeleteRequest k) = bind_op (storage_delete D k) (\<lambda>_. return_op (Ok DeleteResponse))"
| "storage_dispatch D (EnqueueRequest q v) = bind_op (enqueue D q v) (\<lambda>_. return_op (Ok EnqueueResponse))"
| "storage_dispatch D (DequeueRequest q) = bind_op (dequeue D q) (\<lambda>v. return_op (Ok (DequeueResponse v)))"

fun storage_start ::
    "('db, 'st) kvdb \<Rightarrow> storage_request list \<Rightarrow> 'db \<Rightarrow> storage_response service_result list \<times> 'db" where
  "storage_start D [] db = ([], db)"
| "storage_start D (r # rs) db =
     (case storage_dispatch D r db of (resp, db1) \<Rightarrow>
      case storage_start D rs db1 of (resps, db2) \<Rightarrow> (resp # resps, db2))"

text \<open>The storage service behind its proxy, as the client of the other services.\<close>

definition storage_client_of :: "('db, 'st) kvdb \<Rightarrow> ('db, bytes) storage_client" where
  "storage_client_of D =
     \<lparr>sc_lock = (\<lambda>_. True), sc_get = storage_get D, sc_put = storage_put D,
      sc_enqueue = enqueue D, sc_dequeue = dequeue D\<rparr>"

section \<open>Queue keys\<close>

definition qkey :: "bytes \<Rightarrow> bytes \<Rightarrow> bytes" where
  "qkey q x = into_bytes ''queue-'' @ q @ into_bytes ''-'' @ x"

lemma key_qkey:
  "get_tail_key q = qkey q (into_bytes ''tail'')"
  "get_head_key q = qkey q (into_bytes ''head'')"
  "get_element_key q i = qkey q (u32_to_le_bytes i)"
  by (simp_all add: get_tail_key_def get_head_key_def get_element_key_def qkey_def into_bytes_def)

lemma qkey_inj:
  assumes "length x = length y"
  shows "qkey q x = qkey q' y \<longleftrightarrow> q = q' \<and> x = y"
proof
  assume "qkey q x = qkey q' y"
  then have "(q @ into_bytes ''-'') @ x = (q' @ into_bytes ''-'') @ y" by (simp add: qkey_def)
  with assms show "q = q' \<and> x = y" by (simp add: append_eq_append_conv)
qed simp

lemma queue_key_qkey [simp]: "queue_key (qkey q x)"
  by (simp add: queue_key_def qkey_def)

text \<open>The index whose bytes spell \<^verbatim>\<open>head\<close>; the one of \<^verbatim>\<open>tail\<close> is larger.\<close>

definition index_limit :: nat where
  "index_limit = 0x64616568"

lemma index_bytes_head: "u32_to_le_bytes w = into_bytes ''head'' \<longleftrightarrow> w = 0x64616568"
proof -
  have "into_bytes ''head'' = u32_to_le_bytes 0x64616568"
    by (simp add: into_bytes_def u32_to_le_bytes_def le_bytes_4)
  then show ?thesis by simp
qed

lemma index_bytes_tail: "u32_to_le_bytes w = into_bytes ''tail'' \<longleftrightarrow> w = 0x6C696174"
proof -
  have "into_bytes ''tail'' = u32_to_le_bytes 0x6C696174"
    by (simp add: into_bytes_def u32_to_le_bytes_def le_bytes_4)
  then show ?thesis by simp
qed

section \<open>The queue of a key, in the contents of the database\<close>

definition u32_at :: "(bytes \<Rightarrow> bytes option) \<Rightarrow> bytes \<Rightarrow> u32" where
  "u32_at M k = (case M k of Some bs \<Rightarrow> if length bs = 4 then u32_from_le_bytes bs else 0 | None \<Rightarrow> 0)"

definition q_head :: "(bytes \<Rightarrow> bytes option) \<Rightarrow> bytes \<Rightarrow> nat" where
  "q_head M q = unat (u32_at M (get_head_key q))"

definition q_tail :: "(bytes \<Rightarrow> bytes option) \<Rightarrow> bytes \<Rightarrow> nat" where
  "q_tail M q = unat (u32_at M (get_tail_key q))"

definition q_list :: "(bytes \<Rightarrow> bytes option) \<Rightarrow> bytes \<Rightarrow> bytes list" where
  "q_list M q = map (\<lambda>i. the (M (get_element_key q (of_nat i)))) [q_head M q..<q_tail M q]"

definition q_inv :: "nat \<Rightarrow> (bytes \<Rightarrow> bytes option) \<Rightarrow> bytes \<Rightarrow> bool" where
  "q_inv n M q \<longleftrightarrow> q_head M q \<le> q_tail M q \<and> q_tail M q + n < index_limit \<and>
     (\<forall>i \<in> {q_head M q..<q_tail M q}. M (get_element_key q (of_nat i)) \<noteq> None)"

definition store_view :: "(bytes \<Rightarrow> bytes option) \<Rightarrow> bytes store" where
  "store_view M = \<lparr>kv = (\<lambda>k. if queue_key k then None else M k), queues = q_list M\<rparr>"

lemma of_nat_index:
  assumes "i < index_limit"
  shows "unat (of_nat i :: u32) = i" "(of_nat i :: u32) \<noteq> 0x64616568" "(of_nat i :: u32) \<noteq> 0x6C696174"
proof -
  show i: "unat (of_nat i :: u32) = i" using assms by (simp add: unat_of_nat index_limit_def)
  have "unat (0x64616568 :: u32) = 0x64616568" "unat (0x6C696174 :: u32) = 0x6C696174" by simp_all
  with i assms show "(of_nat i :: u32) \<noteq> 0x64616568" "(of_nat i :: u32) \<noteq> 0x6C696174"
    by (auto simp: index_limit_def)
qed

lemma of_nat_Suc_index: "Suc i < index_limit \<Longrightarrow> unat (of_nat i + 1 :: u32) = Suc i"
  using of_nat_index(1) [of "Suc i"] by (simp add: add.commute)

lemma of_nat_index_inj:
  "i < index_limit \<Longrightarrow> j < index_limit \<Longrightarrow> (of_nat i :: u32) = of_nat j \<longleftrightarrow> i = j"
  by (metis of_nat_index(1))

lemma key_eqs [simp]:
  "get_head_key q = get_element_key q' w \<longleftrightarrow> q = q' \<and> w = 0x64616568"
  "get_element_key q' w = get_head_key q \<longleftrightarrow> q = q' \<and> w = 0x64616568"
  "get_tail_key q = get_element_key q' w \<longleftrightarrow> q = q' \<and> w = 0x6C696174"
  "get_element_key q' w = get_tail_key q \<longleftrightarrow> q = q' \<and> w = 0x6C696174"
  "get_element_key q w = get_element_key q' w' \<longleftrightarrow> q = q' \<and> w = w'"
  "get_head_key q = get_head_key q' \<longleftrightarrow> q = q'"
  "get_tail_key q = get_tail_key q' \<longleftrightarrow> q = q'"
  "get_head_key q \<noteq> get_tail_key q'" "get_tail_key q \<noteq> get_head_key q'"
  by (auto simp: key_qkey qkey_inj index_bytes_head index_bytes_tail
      eq_commute [of "into_bytes _" "u32_to_le_bytes _"])

lemma queue_key_keys [simp]:
  "queue_key (get_head_key q)" "queue_key (get_tail_key q)" "queue_key (get_element_key q w)"
  by (simp_all add: key_qkey)

lemma length_keys [simp]:
  "length (get_head_key q) = length q + 11" "length (get_tail_key q) = length q + 11"
  "length (get_element_key q w) = length q + 11"
  by (simp_all add: get_head_key_def get_tail_key_def get_element_key_def)

lemma u32_at_upd:
  "u32_at (M(k := x)) k' = (if k' = k then u32_at (\<lambda>_. x) k else u32_at M k')"
  by (simp add: u32_at_def)

lemma u32_at_le_bytes [simp]: "u32_at (\<lambda>_. Some (u32_to_le_bytes w)) k = w"
  by (simp add: u32_at_def)

text \<open>The two writes of \<^verbatim>\<open>enqueue\<close> and the two of \<^verbatim>\<open>dequeue\<close>, on the contents.\<close>

definition enq_map :: "bytes \<Rightarrow> bytes \<Rightarrow> (bytes \<Rightarrow> bytes option) \<Rightarrow> bytes \<Rightarrow> bytes option" where
  "enq_map q v M =
     (let w = u32_at M (get_tail_key q)
      in M(get_element_key q w \<mapsto> v, get_tail_key q \<mapsto> u32_to_le_bytes (w + 1)))"

definition deq_map :: "bytes \<Rightarrow> (bytes \<Rightarrow> bytes option) \<Rightarrow> bytes \<Rightarrow> bytes option" where
  "deq_map q M =
     (let w = u32_at M (get_head_key q)
      in M(get_head_key q \<mapsto> u32_to_le_bytes (w + 1), get_element_key q w := None))"

lemma q_tail_index: "q_inv n M q \<Longrightarrow> u32_at M (get_tail_key q) = of_nat (q_tail M q)"
  by (simp add: q_tail_def)

lemma q_head_index: "q_inv n M q \<Longrightarrow> u32_at M (get_head_key q) = of_nat (q_head M q)"
  by (simp add: q_head_def)

lemma enq_map_other:
  assumes "q' \<noteq> q" "q_inv (Suc n) M q"
  shows "q_head (enq_map q v M) q' = q_head M q'" "q_tail (enq_map q v M) q' = q_tail M q'"
    "enq_map q v M (get_element_key q' i) = M (get_element_key q' i)"
  using assms by (auto simp: q_head_def q_tail_def enq_map_def Let_def u32_at_upd)

lemma enq_map_same:
  assumes "q_inv (Suc n) M q"
  shows "q_head (enq_map q v M) q = q_head M q" "q_tail (enq_map q v M) q = Suc (q_tail M q)"
    "i < index_limit \<Longrightarrow> enq_map q v M (get_element_key q (of_nat i)) =
       (if i = q_tail M q then Some v else M (get_element_key q (of_nat i)))"
proof -
  let ?t = "q_tail M q"
  from assms have t: "?t < index_limit" "Suc ?t < index_limit" by (auto simp: q_inv_def)
  note w = q_tail_index [OF assms]
  show "q_head (enq_map q v M) q = q_head M q"
    using of_nat_index [OF t(1)] by (simp add: q_head_def enq_map_def Let_def w u32_at_upd)
  show "q_tail (enq_map q v M) q = Suc ?t"
    using of_nat_Suc_index [OF t(2)] unfolding q_tail_def [of "enq_map q v M"]
    by (simp add: enq_map_def Let_def w u32_at_upd)
  assume "i < index_limit"
  with of_nat_index [OF this] of_nat_index_inj [OF this t(1)]
  show "enq_map q v M (get_element_key q (of_nat i)) =
      (if i = ?t then Some v else M (get_element_key q (of_nat i)))"
    by (simp add: enq_map_def Let_def w)
qed

lemma enq_map_inv:
  assumes "\<And>q'. q_inv (Suc n) M q'"
  shows "q_inv n (enq_map q v M) q'"
proof (cases "q' = q")
  case True
  have "i < index_limit" if "i \<in> {q_head M q..<Suc (q_tail M q)}" for i
    using that assms [of q] by (auto simp: q_inv_def)
  with True assms [of q] show ?thesis
    by (auto simp: q_inv_def enq_map_same [OF assms [of q]])
next
  case False
  with assms [of q'] enq_map_other [OF False assms [of q]] show ?thesis by (simp add: q_inv_def)
qed

lemma enq_map_list:
  assumes "q_inv (Suc n) M q"
  shows "q_list (enq_map q v M) q = q_list M q @ [v]"
proof -
  have lim: "i < index_limit" if "i < Suc (q_tail M q)" for i
    using that assms by (auto simp: q_inv_def)
  have "map (\<lambda>i. the (enq_map q v M (get_element_key q (of_nat i)))) [q_head M q..<q_tail M q] = q_list M q"
    unfolding q_list_def by (rule map_cong) (use lim in \<open>auto simp: enq_map_same(3) [OF assms]\<close>)
  moreover have "q_head M q \<le> q_tail M q" using assms by (simp add: q_inv_def)
  ultimately show ?thesis
    using lim [of "q_tail M q"] unfolding q_list_def [of "enq_map q v M"]
    by (simp add: enq_map_same [OF assms])
qed

lemma enq_map_view:
  assumes "q_inv (Suc n) M q"
  shows "store_view (enq_map q v M) =
    (store_view M)\<lparr>queues := (queues (store_view M))(q := queues (store_view M) q @ [v])\<rparr>"
proof -
  have "q_list (enq_map q v M) q' = q_list M q'" if "q' \<noteq> q" for q'
    by (simp add: q_list_def enq_map_other [OF that assms])
  then have "q_list (enq_map q v M) = (q_list M)(q := q_list M q @ [v])"
    using enq_map_list [OF assms] by auto
  moreover have "(if queue_key k then None else enq_map q v M k) = (if queue_key k then None else M k)" for k
    by (auto simp: enq_map_def Let_def)
  ultimately show ?thesis by (simp add: store_view_def)
qed

lemma deq_map_other:
  assumes "q' \<noteq> q"
  shows "q_head (deq_map q M) q' = q_head M q'" "q_tail (deq_map q M) q' = q_tail M q'"
    "deq_map q M (get_element_key q' i) = M (get_element_key q' i)"
  using assms by (auto simp: q_head_def q_tail_def deq_map_def Let_def u32_at_upd)

lemma deq_map_same:
  assumes "q_inv n M q" "q_head M q < q_tail M q"
  shows "q_head (deq_map q M) q = Suc (q_head M q)" "q_tail (deq_map q M) q = q_tail M q"
    "i < index_limit \<Longrightarrow> deq_map q M (get_element_key q (of_nat i)) =
       (if i = q_head M q then None else M (get_element_key q (of_nat i)))"
proof -
  let ?h = "q_head M q"
  from assms have h: "?h < index_limit" "Suc ?h < index_limit" by (auto simp: q_inv_def)
  note w = q_head_index [OF assms(1)]
  show "q_head (deq_map q M) q = Suc ?h"
    using of_nat_Suc_index [OF h(2)] of_nat_index [OF h(1)] unfolding q_head_def [of "deq_map q M"]
    by (simp add: deq_map_def Let_def w u32_at_upd)
  show "q_tail (deq_map q M) q = q_tail M q"
    using of_nat_index [OF h(1)] by (simp add: q_tail_def deq_map_def Let_def w u32_at_upd)
  assume "i < index_limit"
  with of_nat_index [OF this] of_nat_index_inj [OF this h(1)]
  show "deq_map q M (get_element_key q (of_nat i)) =
      (if i = ?h then None else M (get_element_key q (of_nat i)))"
    by (simp add: deq_map_def Let_def w)
qed

lemma deq_map_inv:
  assumes "\<And>q'. q_inv n M q'" "q_head M q < q_tail M q"
  shows "q_inv n (deq_map q M) q'"
proof (cases "q' = q")
  case True
  have "i < index_limit" if "i < q_tail M q" for i using that assms(1) [of q] by (auto simp: q_inv_def)
  with True assms(1) [of q] assms(2) show ?thesis
    by (auto simp: q_inv_def deq_map_same [OF assms(1) assms(2)])
next
  case False
  with assms(1) [of q'] deq_map_other [OF False] show ?thesis by (simp add: q_inv_def)
qed

lemma deq_map_view:
  assumes "q_inv n M q" "q_head M q < q_tail M q"
  shows "q_list M q = the (M (get_element_key q (of_nat (q_head M q)))) # q_list (deq_map q M) q"
    "store_view (deq_map q M) = (store_view M)\<lparr>queues := (queues (store_view M))(q := q_list (deq_map q M) q)\<rparr>"
proof -
  have lim: "i < index_limit" if "i < q_tail M q" for i using that assms(1) by (auto simp: q_inv_def)
  have "q_list (deq_map q M) q = map (\<lambda>i. the (M (get_element_key q (of_nat i)))) [Suc (q_head M q)..<q_tail M q]"
    unfolding q_list_def deq_map_same [OF assms]
    by (rule map_cong) (use lim in \<open>auto simp: deq_map_same(3) [OF assms]\<close>)
  then show "q_list M q = the (M (get_element_key q (of_nat (q_head M q)))) # q_list (deq_map q M) q"
    using assms(2) by (simp add: q_list_def [of M] upt_conv_Cons)
  have "q_list (deq_map q M) q' = q_list M q'" if "q' \<noteq> q" for q'
    by (simp add: q_list_def deq_map_other [OF that])
  then have "q_list (deq_map q M) = (q_list M)(q := q_list (deq_map q M) q)" by auto
  moreover have "(if queue_key k then None else deq_map q M k) = (if queue_key k then None else M k)" for k
    by (auto simp: deq_map_def Let_def)
  ultimately show "store_view (deq_map q M) =
      (store_view M)\<lparr>queues := (queues (store_view M))(q := q_list (deq_map q M) q)\<rparr>"
    unfolding store_view_def by simp
qed

lemma q_list_empty:
  assumes "q_inv n M q"
  shows "q_list M q = [] \<longleftrightarrow> u32_at M (get_head_key q) \<ge> u32_at M (get_tail_key q)"
  by (auto simp: q_list_def q_head_def q_tail_def word_le_nat_alt)

lemma q_inv_put:
  assumes "\<not> queue_key k" "q_inv (b + n) M q"
  shows "q_inv n (M(k := x)) q"
proof -
  from assms(1) have "get_head_key q \<noteq> k" "get_tail_key q \<noteq> k" "get_element_key q i \<noteq> k" for i by auto
  with assms(2) show ?thesis by (auto simp: q_inv_def q_head_def q_tail_def u32_at_upd)
qed

lemma store_view_put:
  assumes "\<not> queue_key k"
  shows "store_view (M(k \<mapsto> v)) = (store_view M)\<lparr>kv := (kv (store_view M))(k \<mapsto> v)\<rparr>"
proof -
  from assms have "get_head_key q \<noteq> k" "get_tail_key q \<noteq> k" "get_element_key q i \<noteq> k" for q i by auto
  then have "q_list (M(k \<mapsto> v)) = q_list M"
    by (intro ext) (simp add: q_list_def q_head_def q_tail_def u32_at_upd)
  with assms show ?thesis by (auto simp: store_view_def)
qed

lemma store_view_queues: "queues (store_view M) = q_list M"
  by (simp add: store_view_def)

lemma q_inv_mono: "q_inv (b + n) M q \<Longrightarrow> q_inv n M q"
  by (auto simp: q_inv_def)

section \<open>The contract of the database\<close>

locale kv_store =
  fixes D :: "('db, 'st) kvdb"
    and room :: "nat \<Rightarrow> 'db \<Rightarrow> bool"
    and contents :: "'db \<Rightarrow> bytes \<Rightarrow> bytes option"
    and cost :: "nat \<Rightarrow> nat \<Rightarrow> nat"
  assumes room_mono: "room (m + n) s \<Longrightarrow> room n s"
    and get_spec: "room n s \<Longrightarrow>
      \<exists>s'. db_get D k s = (Ok (contents s k), s') \<and> contents s' = contents s \<and> room n s'"
    and put_spec: "room (cost (length k) (length v) + n) s \<Longrightarrow>
      \<exists>s'. db_put D k v s = (Ok (), s') \<and> contents s' = (contents s)(k \<mapsto> v) \<and> room n s'"
    and delete_spec: "room (cost (length k) 0 + n) s \<Longrightarrow>
      \<exists>s'. db_delete D k s = (Ok (), s') \<and> contents s' = (contents s)(k := None) \<and> room n s'"

text \<open>
  The relation to the counted abstract store: the database has room for what the
  run still costs, and so have the indices of every queue.
\<close>

definition store_room :: "(nat \<Rightarrow> 'db \<Rightarrow> bool) \<Rightarrow> ('db \<Rightarrow> bytes \<Rightarrow> bytes option) \<Rightarrow> nat \<Rightarrow> 'db \<Rightarrow> bool" where
  "store_room room contents n s \<longleftrightarrow> room n s \<and> (\<forall>q. q_inv n (contents s) q)"

definition counted_le :: "bytes store \<times> nat \<Rightarrow> bytes store \<times> nat \<Rightarrow> bool" where
  "counted_le t t' \<longleftrightarrow> snd t \<le> snd t'"

definition store_rel ::
    "(nat \<Rightarrow> 'db \<Rightarrow> bool) \<Rightarrow> ('db \<Rightarrow> bytes \<Rightarrow> bytes option) \<Rightarrow> bytes store \<times> nat \<Rightarrow> 'db \<Rightarrow> bytes store \<times> nat \<Rightarrow> bool" where
  "store_rel room contents tf s t \<longleftrightarrow> store_view (contents s) = fst t \<and> store_room room contents (snd tf - snd t) s"

context kv_store
begin

lemma read_u32_spec:
  "room n s \<Longrightarrow> \<exists>s'. read_u32 D k s =
     (Ok (case contents s k of Some bs \<Rightarrow> if length bs = 4 then Some (u32_from_le_bytes bs) else None | None \<Rightarrow> None), s')
     \<and> contents s' = contents s \<and> room n s'"
  using get_spec [of n s k] by (auto simp: read_u32_def bind_op_def return_op_def split: option.splits)

lemma get_head_spec:
  "room n s \<Longrightarrow> \<exists>s'. get_head D q s = (Ok (u32_at (contents s) (get_head_key q)), s') \<and> contents s' = contents s \<and> room n s'"
  using read_u32_spec [of n s "get_head_key q"] by (auto simp: get_head_def u32_at_def bind_op_def return_op_def split: option.splits)

lemma get_tail_spec:
  "room n s \<Longrightarrow> \<exists>s'. get_tail D q s = (Ok (u32_at (contents s) (get_tail_key q)), s') \<and> contents s' = contents s \<and> room n s'"
  using read_u32_spec [of n s "get_tail_key q"] by (auto simp: get_tail_def u32_at_def bind_op_def return_op_def split: option.splits)

lemma enqueue_spec:
  assumes "room (cost (length q + 11) (length v) + cost (length q + 11) 4 + n) s"
  shows "\<exists>s'. enqueue D q v s = (Ok (), s') \<and> contents s' = enq_map q v (contents s) \<and> room n s'"
proof -
  let ?w = "u32_at (contents s) (get_tail_key q)"
  obtain s1 where s1: "get_tail D q s = (Ok ?w, s1)" "contents s1 = contents s"
    "room (cost (length q + 11) (length v) + (cost (length q + 11) 4 + n)) s1"
    using get_tail_spec [OF assms] by (auto simp: add.assoc)
  obtain s2 where s2: "db_put D (get_element_key q ?w) v s1 = (Ok (), s2)"
    "contents s2 = (contents s)(get_element_key q ?w \<mapsto> v)" "room (cost (length q + 11) 4 + n) s2"
    using put_spec [of "get_element_key q ?w" v _ s1] s1 by auto
  obtain s3 where s3: "db_put D (get_tail_key q) (u32_to_le_bytes (?w + 1)) s2 = (Ok (), s3)"
    "contents s3 = (contents s2)(get_tail_key q \<mapsto> u32_to_le_bytes (?w + 1))" "room n s3"
    using put_spec [of "get_tail_key q" "u32_to_le_bytes (?w + 1)" n s2] s2 by auto
  from s1 s2 s3 show ?thesis
    by (simp add: enqueue_def bind_op_def map_err_op_def enq_map_def Let_def)
qed

lemma dequeue_empty:
  assumes "room n s" "u32_at (contents s) (get_head_key q) \<ge> u32_at (contents s) (get_tail_key q)"
  shows "\<exists>s'. dequeue D q s = (Err none_error, s') \<and> contents s' = contents s \<and> room n s'"
proof -
  obtain s1 where s1: "get_head D q s = (Ok (u32_at (contents s) (get_head_key q)), s1)" "contents s1 = contents s" "room n s1"
    using get_head_spec [OF assms(1)] by blast
  obtain s2 where "get_tail D q s1 = (Ok (u32_at (contents s) (get_tail_key q)), s2)" "contents s2 = contents s" "room n s2"
    using get_tail_spec [OF s1(3), of q] s1(2) by auto
  with s1 assms(2) show ?thesis by (simp add: dequeue_def bind_op_def map_err_op_def return_op_def storage_error_into_def none_error_def)
qed

lemma dequeue_spec:
  assumes "room (cost (length q + 11) 4 + cost (length q + 11) 0 + n) s"
    and "u32_at (contents s) (get_head_key q) < u32_at (contents s) (get_tail_key q)"
    and "contents s (get_element_key q (u32_at (contents s) (get_head_key q))) = Some v"
  shows "\<exists>s'. dequeue D q s = (Ok v, s') \<and> contents s' = deq_map q (contents s) \<and> room n s'"
proof -
  let ?w = "u32_at (contents s) (get_head_key q)"
  obtain s1 where s1: "get_head D q s = (Ok ?w, s1)" "contents s1 = contents s"
    "room (cost (length q + 11) 4 + cost (length q + 11) 0 + n) s1"
    using get_head_spec [OF assms(1)] by blast
  obtain s2 where s2: "get_tail D q s1 = (Ok (u32_at (contents s) (get_tail_key q)), s2)" "contents s2 = contents s"
    "room (cost (length q + 11) 4 + cost (length q + 11) 0 + n) s2"
    using get_tail_spec [OF s1(3), of q] s1(2) by auto
  obtain s3 where s3: "db_get D (get_element_key q ?w) s2 = (Ok (Some v), s3)" "contents s3 = contents s"
    "room (cost (length q + 11) 4 + (cost (length q + 11) 0 + n)) s3"
    using get_spec [OF s2(3), of "get_element_key q ?w"] s2(2) assms(3) by (auto simp: add.assoc)
  obtain s4 where s4: "db_put D (get_head_key q) (u32_to_le_bytes (?w + 1)) s3 = (Ok (), s4)"
    "contents s4 = (contents s)(get_head_key q \<mapsto> u32_to_le_bytes (?w + 1))" "room (cost (length q + 11) 0 + n) s4"
    using put_spec [of "get_head_key q" "u32_to_le_bytes (?w + 1)" _ s3] s3 by auto
  obtain s5 where s5: "db_delete D (get_element_key q ?w) s4 = (Ok (), s5)"
    "contents s5 = (contents s4)(get_element_key q ?w := None)" "room n s5"
    using delete_spec [of "get_element_key q ?w" n s4] s4(3) by auto
  from s1 s2 s3 s4 s5 assms(2) show ?thesis
    by (simp add: dequeue_def bind_op_def map_err_op_def try_op_def return_op_def deq_map_def Let_def not_le)
qed

lemma counted_simI:
  assumes m': "\<And>t c. m' (t, c) = (fst (h t), (snd (h t), c + b))"
    and m: "\<And>n s. store_room room contents (b + n) s \<Longrightarrow>
      \<exists>s'. m s = (fst (h (store_view (contents s))), s') \<and> store_view (contents s') = snd (h (store_view (contents s))) \<and>
        store_room room contents n s'"
  shows "sim_op counted_le (store_rel room contents) m m'"
proof (rule sim_opI)
  fix t r t' assume t': "m' t = (r, t')"
  obtain t0 c where t: "t = (t0, c)" by fastforce
  show "counted_le t t'" using t' m' t by (auto simp: counted_le_def)
  fix tf s assume tf: "counted_le t' tf" and rel: "store_rel room contents tf s t"
  have c: "snd t' = c + b" "fst t' = snd (h t0)" "r = fst (h t0)" using t' m' t by auto
  have "snd tf - c = b + (snd tf - (c + b))" using tf c by (simp add: counted_le_def)
  then have "store_room room contents (b + (snd tf - (c + b))) s" "store_view (contents s) = t0"
    using rel t by (auto simp: store_rel_def)
  then show "\<exists>s'. m s = (r, s') \<and> store_rel room contents tf s' t'"
    using m [of "snd tf - (c + b)" s] c by (auto simp: store_rel_def)
qed

lemma storage_sim_get:
  assumes "\<not> queue_key k"
  shows "sim_op counted_le (store_rel room contents) (storage_get D k) (sc_get (counted_client cost) k)"
proof (rule counted_simI [where h = "sc_get ideal_client k" and b = 0])
  fix n s
  assume s: "store_room room contents (0 + n) s"
  then obtain s' where "db_get D k s = (Ok (contents s k), s')" "contents s' = contents s" "room n s'"
    using get_spec [of n s k] by (auto simp: store_room_def)
  with s assms show "\<exists>s'. storage_get D k s = (fst (sc_get ideal_client k (store_view (contents s))), s') \<and>
      store_view (contents s') = snd (sc_get ideal_client k (store_view (contents s))) \<and> store_room room contents n s'"
    by (auto simp: storage_get_def bind_op_def map_err_op_def return_op_def ideal_client_def store_view_def store_room_def
        storage_error_into_def none_error_def split: option.splits)
qed (simp add: counted_client_def case_prod_beta)

lemma storage_sim_put:
  assumes "\<not> queue_key k"
  shows "sim_op counted_le (store_rel room contents) (storage_put D k v) (sc_put (counted_client cost) k v)"
proof (rule counted_simI [where h = "sc_put ideal_client k v" and b = "cost (length k) (length v)"])
  fix n s
  assume s: "store_room room contents (cost (length k) (length v) + n) s"
  then obtain s' where "db_put D k v s = (Ok (), s')" "contents s' = (contents s)(k \<mapsto> v)" "room n s'"
    using put_spec [of k v n s] by (auto simp: store_room_def)
  with s show "\<exists>s'. storage_put D k v s = (fst (sc_put ideal_client k v (store_view (contents s))), s') \<and>
      store_view (contents s') = snd (sc_put ideal_client k v (store_view (contents s))) \<and> store_room room contents n s'"
    using q_inv_put [OF assms, of "cost (length k) (length v)" n] store_view_put [OF assms, of "contents s" v]
    by (auto simp: storage_put_def map_err_op_def ideal_client_def store_room_def)
qed (simp add: counted_client_def case_prod_beta)

lemma storage_sim_enqueue:
  "sim_op counted_le (store_rel room contents) (enqueue D q v) (sc_enqueue (counted_client cost) q v)"
proof (rule counted_simI [where h = "sc_enqueue ideal_client q v" and b = "cost (length q + 11) (length v) + cost (length q + 11) 4 + 1"])
  fix n s
  let ?b = "cost (length q + 11) (length v) + cost (length q + 11) 4"
  assume s: "store_room room contents (?b + 1 + n) s"
  then obtain s' where s': "enqueue D q v s = (Ok (), s')" "contents s' = enq_map q v (contents s)" "room (Suc n) s'"
    using enqueue_spec [of q v "Suc n" s] by (auto simp: store_room_def)
  from s have inv: "q_inv (Suc n) (contents s) q'" for q'
    using q_inv_mono [of ?b "Suc n"] by (simp add: store_room_def)
  have "room n s'" using room_mono [of 1 n s'] s'(3) by simp
  with s'(2) have "store_room room contents n s'" by (simp add: store_room_def enq_map_inv [OF inv])
  with s' enq_map_view [OF inv, of q v]
  show "\<exists>s'. enqueue D q v s = (fst (sc_enqueue ideal_client q v (store_view (contents s))), s') \<and>
      store_view (contents s') = snd (sc_enqueue ideal_client q v (store_view (contents s))) \<and> store_room room contents n s'"
    by (auto simp: ideal_client_def)
qed (simp add: counted_client_def case_prod_beta)

lemma storage_sim_dequeue:
  "sim_op counted_le (store_rel room contents) (dequeue D q) (sc_dequeue (counted_client cost) q)"
proof (rule counted_simI [where h = "sc_dequeue ideal_client q" and b = "cost (length q + 11) 4 + cost (length q + 11) 0"])
  fix n s
  let ?b = "cost (length q + 11) 4 + cost (length q + 11) 0" and ?M = "contents s"
  assume s: "store_room room contents (?b + n) s"
  have inv: "q_inv n ?M q'" for q' using s q_inv_mono [of ?b n] by (simp add: store_room_def)
  have room: "room n s" using s room_mono by (auto simp: store_room_def)
  show "\<exists>s'. dequeue D q s = (fst (sc_dequeue ideal_client q (store_view ?M)), s') \<and>
      store_view (contents s') = snd (sc_dequeue ideal_client q (store_view ?M)) \<and> store_room room contents n s'"
  proof (cases "u32_at ?M (get_head_key q) \<ge> u32_at ?M (get_tail_key q)")
    case True
    then obtain s' where s': "dequeue D q s = (Err none_error, s')" "contents s' = ?M" "room n s'"
      using dequeue_empty [OF room] by blast
    with True q_list_empty [OF inv, of q] inv show ?thesis
      by (auto simp: ideal_client_def store_view_queues store_room_def)
  next
    case False
    then have lt: "q_head ?M q < q_tail ?M q" by (simp add: q_head_def q_tail_def word_le_nat_alt)
    then obtain v where v: "?M (get_element_key q (of_nat (q_head ?M q))) = Some v"
      using inv [of q] unfolding q_inv_def by fastforce
    with False s obtain s' where s': "dequeue D q s = (Ok v, s')" "contents s' = deq_map q ?M" "room n s'"
      using dequeue_spec [of q n s v] q_head_index [OF inv, of q] by (auto simp: store_room_def not_le)
    with deq_map_inv [OF inv lt] have "store_room room contents n s'" by (simp add: store_room_def)
    with s' v deq_map_view [OF inv lt] show ?thesis
      by (auto simp: ideal_client_def store_view_queues)
  qed
qed (simp add: counted_client_def case_prod_beta)

end

text \<open>A database that keeps its contract gives a storage service that keeps the clients' contract.\<close>

sublocale kv_store \<subseteq> stor: storage_service counted_le "store_rel room contents" "storage_client_of D" "counted_client cost"
  by unfold_locales
    (auto simp: counted_le_def storage_client_of_def counted_client_def [of cost, THEN arg_cong [of _ _ sc_lock]] ideal_client_def
      storage_sim_get storage_sim_put storage_sim_enqueue storage_sim_dequeue)

end
