(* ===== verification/Authentication.thy ===== *)
theory Authentication
  imports Storage_Service
begin

text \<open>
  The authentication service, \<^verbatim>\<open>services/authentication/enclave/src\<close>: users with salted
  password hashes (\<^verbatim>\<open>user_info.rs\<close>), the thread that owns the user database
  (\<^verbatim>\<open>user_db.rs\<close>), registration and login (\<^verbatim>\<open>api_service.rs\<close>) and the check of a
  token for the other services (\<^verbatim>\<open>internal_service.rs\<close>).

  The crates \<^verbatim>\<open>ring\<close>, \<^verbatim>\<open>jsonwebtoken\<close> and \<^verbatim>\<open>serde_json\<close> are the record \<open>auth_libs\<close>; what
  the code relies on is \<open>auth_libs_ok\<close>.  The clock and the random salt are
  arguments.  The database is a \<open>kvdb\<close>, and the lemmas hold in its contract
  \<open>kv_store\<close>.
\<close>

section \<open>Users and tokens\<close>

definition SALT_LEN :: nat where "SALT_LEN = 16"
definition PASSWORD_DIGEST_LEN :: nat where "PASSWORD_DIGEST_LEN = 64"
definition PBKDF2_ITERATIONS :: u32 where "PBKDF2_ITERATIONS = 100000"
definition ISSUER_NAME :: string where "ISSUER_NAME = ''Teaclave''"

record user_info =
  ui_id :: string
  ui_salt :: bytes
  ui_salted_password_hash :: bytes

record claims =
  cl_sub :: string
  cl_iss :: string
  cl_exp :: u64

datatype jwt_alg = HS256 | HS384 | HS512

definition JWT_ALG :: jwt_alg where "JWT_ALG = HS512"

record validation =
  val_alg :: jwt_alg
  val_iss :: "string option"
  val_sub :: "string option"

text \<open>\<open>jwt_decode\<close> checks the expiration against the clock, its first argument.\<close>

record auth_libs =
  pbkdf2_derive :: "u32 \<Rightarrow> bytes \<Rightarrow> bytes \<Rightarrow> nat \<Rightarrow> bytes"
  pbkdf2_verify :: "u32 \<Rightarrow> bytes \<Rightarrow> bytes \<Rightarrow> bytes \<Rightarrow> bool"
  jwt_encode :: "jwt_alg \<Rightarrow> claims \<Rightarrow> bytes \<Rightarrow> string option"
  jwt_decode :: "u64 \<Rightarrow> string \<Rightarrow> bytes \<Rightarrow> validation \<Rightarrow> claims option"
  js_user :: "(user_info, bytes) json"

definition UserInfo_new :: "auth_libs \<Rightarrow> bytes \<Rightarrow> string \<Rightarrow> string \<Rightarrow> user_info" where
  "UserInfo_new L salt uid password =
     \<lparr>ui_id = uid, ui_salt = salt,
      ui_salted_password_hash = pbkdf2_derive L PBKDF2_ITERATIONS salt (into_bytes password) PASSWORD_DIGEST_LEN\<rparr>"

definition verify_password :: "auth_libs \<Rightarrow> user_info \<Rightarrow> string \<Rightarrow> bool" where
  "verify_password L u password =
     pbkdf2_verify L PBKDF2_ITERATIONS (ui_salt u) (into_bytes password) (ui_salted_password_hash u)"

definition get_token :: "auth_libs \<Rightarrow> user_info \<Rightarrow> u64 \<Rightarrow> bytes \<Rightarrow> string option" where
  "get_token L u exp secret = jwt_encode L JWT_ALG \<lparr>cl_sub = ui_id u, cl_iss = ISSUER_NAME, cl_exp = exp\<rparr> secret"

definition validate_token :: "auth_libs \<Rightarrow> u64 \<Rightarrow> user_info \<Rightarrow> bytes \<Rightarrow> string \<Rightarrow> bool" where
  "validate_token L now u secret token \<longleftrightarrow>
     jwt_decode L now token secret \<lparr>val_alg = JWT_ALG, val_iss = Some ISSUER_NAME, val_sub = Some (ui_id u)\<rparr> \<noteq> None"

text \<open>
  What the code relies on: a digest has the length asked for and verifies the
  passwords that derive it; encoding a token succeeds, and decoding it under the
  same secret gives the claims exactly when algorithm, issuer, subject and
  expiration (which the library reads as a signed number) are accepted; no token is accepted against the issuer or the
  subject that is demanded, or after its expiration.
\<close>

definition accepts :: "validation \<Rightarrow> u64 \<Rightarrow> claims \<Rightarrow> bool" where
  "accepts v now c \<longleftrightarrow> (\<forall>i. val_iss v = Some i \<longrightarrow> cl_iss c = i) \<and> (\<forall>s. val_sub v = Some s \<longrightarrow> cl_sub c = s) \<and> now \<le> cl_exp c"

definition auth_libs_ok :: "auth_libs \<Rightarrow> bool" where
  "auth_libs_ok L \<longleftrightarrow>
     (\<forall>i salt pw n. length (pbkdf2_derive L i salt pw n) = n) \<and>
     (\<forall>i salt pw h. pbkdf2_verify L i salt pw h \<longleftrightarrow> h \<noteq> [] \<and> pbkdf2_derive L i salt pw (length h) = h) \<and>
     (\<forall>a c s. unat (cl_exp c) < 2 ^ 63 \<longrightarrow> (\<exists>t. t \<noteq> [] \<and> jwt_encode L a c s = Some t \<and>
        (\<forall>now v. jwt_decode L now t s v = (if val_alg v = a \<and> accepts v now c then Some c else None)))) \<and>
     (\<forall>now t s v c. jwt_decode L now t s v = Some c \<longrightarrow> accepts v now c) \<and>
     json_ok (js_user L)"

section \<open>The user database\<close>

datatype db_error = UserNotExist | UserExist | DbConnectionError | LevelDbInternalError | InvalidResponse | DbInvalidRequest

datatype db_request = DbGet bytes | DbCreate bytes bytes | DbPing

datatype db_response = DbGetResponse bytes | DbCreateResponse | DbPingResponse

text \<open>\<^verbatim>\<open>DB::get\<close> has no error to report.\<close>

definition get_value :: "('db, 'st) kvdb \<Rightarrow> bytes \<Rightarrow> ('db, bytes option, 'e) op" where
  "get_value D k db = (case db_get D k db of
     (Ok v, db') \<Rightarrow> (Ok v, db') | (Err _, db') \<Rightarrow> (Ok None, db') | (Panic, db') \<Rightarrow> (Panic, db'))"

text \<open>One round of the loop of the database thread.\<close>

fun user_db_serve :: "('db, 'st) kvdb \<Rightarrow> db_request \<Rightarrow> ('db, db_response, db_error) op" where
  "user_db_serve D (DbGet k) =
     bind_op (get_value D k) (\<lambda>r. return_op (case r of Some v \<Rightarrow> Ok (DbGetResponse v) | None \<Rightarrow> Err UserNotExist))"
| "user_db_serve D (DbCreate k v) =
     bind_op (get_value D k) (\<lambda>r. case r of
       Some _ \<Rightarrow> return_op (Err UserExist)
     | None \<Rightarrow> bind_op (map_err_op (\<lambda>_. LevelDbInternalError) (db_put D k v)) (\<lambda>_. return_op (Ok DbCreateResponse)))"
| "user_db_serve D DbPing = return_op (Ok DbPingResponse)"

text \<open>A call over the channel; a panic ends the thread and drops its ends of the channels.\<close>

definition db_call :: "('db, 'st) kvdb \<Rightarrow> db_request \<Rightarrow> ('db option, db_response, db_error) op" where
  "db_call D req s = (case s of
     None \<Rightarrow> (Err DbConnectionError, None)
   | Some db \<Rightarrow> (case user_db_serve D req db of (Panic, _) \<Rightarrow> (Err DbConnectionError, None) | (r, db') \<Rightarrow> (r, Some db')))"

definition get_user :: "('db, 'st) kvdb \<Rightarrow> auth_libs \<Rightarrow> string \<Rightarrow> ('db option, user_info, db_error) op" where
  "get_user D L uid =
     bind_op (db_call D (DbGet (into_bytes uid))) (\<lambda>resp.
     return_op (case resp of
       DbGetResponse v \<Rightarrow> map_err (\<lambda>_. InvalidResponse) (json_from_slice (js_user L) v)
     | _ \<Rightarrow> Err UserNotExist))"

definition create_user :: "('db, 'st) kvdb \<Rightarrow> auth_libs \<Rightarrow> user_info \<Rightarrow> ('db option, unit, db_error) op" where
  "create_user D L u =
     bind_op (return_op (map_err (\<lambda>_. DbInvalidRequest) (json_to_vec (js_user L) u))) (\<lambda>user_bytes.
     bind_op (db_call D (DbCreate (into_bytes (ui_id u)) user_bytes)) (\<lambda>resp.
     return_op (case resp of DbCreateResponse \<Rightarrow> Ok () | _ \<Rightarrow> Err InvalidResponse)))"

definition ping :: "('db, 'st) kvdb \<Rightarrow> ('db option, unit, db_error) op" where
  "ping D = bind_op (db_call D DbPing) (\<lambda>resp. return_op (case resp of DbPingResponse \<Rightarrow> Ok () | _ \<Rightarrow> Err InvalidResponse))"

section \<open>Registration and login\<close>

datatype auth_api_error = AuthPermissionDenied | InvalidUserId | InvalidPassword | ServiceUnavailable

fun auth_api_error_to_string :: "auth_api_error \<Rightarrow> string" where
  "auth_api_error_to_string AuthPermissionDenied = ''permission denied''"
| "auth_api_error_to_string InvalidUserId = ''invalid userid''"
| "auth_api_error_to_string InvalidPassword = ''invalid password''"
| "auth_api_error_to_string ServiceUnavailable = ''service unavailable''"

definition auth_error :: "auth_api_error \<Rightarrow> teaclave_service_response_error" where
  "auth_error e = RequestError (auth_api_error_to_string e)"

record user_password_request =
  upr_id :: string
  upr_password :: string

definition user_register ::
    "('db, 'st) kvdb \<Rightarrow> auth_libs \<Rightarrow> bytes \<Rightarrow> user_password_request request \<Rightarrow> ('db option, unit) service_op" where
  "user_register D L salt req =
     (let r = message req in
      bind_op (return_op (ensure (upr_id r \<noteq> []) (auth_error InvalidUserId))) (\<lambda>_.
      bind_op (try_op (get_user D L (upr_id r))) (\<lambda>old.
      bind_op (return_op (ensure (\<not> is_ok old) (auth_error InvalidUserId))) (\<lambda>_.
      bind_op (try_op (create_user D L (UserInfo_new L salt (upr_id r) (upr_password r)))) (\<lambda>res.
      return_op (case res of
        Ok _ \<Rightarrow> Ok () | Err UserExist \<Rightarrow> Err (auth_error InvalidUserId)
      | Err _ \<Rightarrow> Err (auth_error ServiceUnavailable) | Panic \<Rightarrow> Panic))))))"

text \<open>The clock is \<open>None\<close> when it is before 1970; adding to a \<^verbatim>\<open>Duration\<close> panics on overflow.\<close>

definition token_expiry :: "u64 option \<Rightarrow> u64 service_result" where
  "token_expiry now = (case now of
     None \<Rightarrow> Err (auth_error ServiceUnavailable)
   | Some t \<Rightarrow> if unat t + 24 * 60 < 2 ^ 64 then Ok (t + 24 * 60) else Panic)"

definition user_login ::
    "('db, 'st) kvdb \<Rightarrow> auth_libs \<Rightarrow> bytes \<Rightarrow> u64 option \<Rightarrow> user_password_request request \<Rightarrow> ('db option, string) service_op" where
  "user_login D L secret now req =
     (let r = message req in
      bind_op (return_op (ensure (upr_id r \<noteq> []) (auth_error InvalidUserId))) (\<lambda>_.
      bind_op (return_op (ensure (upr_password r \<noteq> []) (auth_error InvalidPassword))) (\<lambda>_.
      bind_op (map_err_op (\<lambda>_. auth_error AuthPermissionDenied) (get_user D L (upr_id r))) (\<lambda>user.
      if \<not> verify_password L user (upr_password r) then return_op (Err (auth_error AuthPermissionDenied))
      else
        bind_op (return_op (token_expiry now)) (\<lambda>exp.
        return_op (ok_or (auth_error ServiceUnavailable) (get_token L user exp secret)))))))"

section \<open>Checking a token\<close>

record user_credential =
  cred_id :: string
  cred_token :: string

definition user_authenticate ::
    "('db, 'st) kvdb \<Rightarrow> auth_libs \<Rightarrow> bytes \<Rightarrow> u64 \<Rightarrow> user_credential request \<Rightarrow> ('db option, bool) service_op" where
  "user_authenticate D L secret now req =
     (let c = message req in
      if cred_id c = [] \<or> cred_token c = [] then return_op (Ok False)
      else
        bind_op (try_op (get_user D L (cred_id c))) (\<lambda>r.
        return_op (case r of
          Ok user \<Rightarrow> Ok (validate_token L now user secret (cred_token c))
        | Err _ \<Rightarrow> Ok False
        | Panic \<Rightarrow> Panic)))"

section \<open>What the operations do on a database that keeps its contract\<close>

definition stored_user :: "auth_libs \<Rightarrow> (bytes \<Rightarrow> bytes option) \<Rightarrow> string \<Rightarrow> (user_info, db_error) result" where
  "stored_user L M uid = (case M (into_bytes uid) of
     None \<Rightarrow> Err UserNotExist
   | Some v \<Rightarrow> map_err (\<lambda>_. InvalidResponse) (json_from_slice (js_user L) v))"

context kv_store
begin

lemma get_user_spec:
  assumes "room n db"
  shows "\<exists>db'. get_user D L uid (Some db) = (stored_user L (contents db) uid, Some db') \<and> contents db' = contents db \<and> room n db'"
  using get_spec [OF assms, of "into_bytes uid"]
  by (auto simp: get_user_def db_call_def get_value_def stored_user_def bind_op_def return_op_def split: option.splits)

lemma create_user_new:
  assumes "json_to_vec (js_user L) u = Ok v" "contents db (into_bytes (ui_id u)) = None"
    and "room (cost (length (ui_id u)) (length v) + n) db"
  shows "\<exists>db'. create_user D L u (Some db) = (Ok (), Some db') \<and>
    contents db' = (contents db)(into_bytes (ui_id u) \<mapsto> v) \<and> room n db'"
proof -
  obtain db1 where "db_get D (into_bytes (ui_id u)) db = (Ok None, db1)" "contents db1 = contents db"
    "room (cost (length (ui_id u)) (length v) + n) db1"
    using get_spec [OF assms(3), of "into_bytes (ui_id u)"] assms(2) by auto
  moreover from this obtain db2 where "db_put D (into_bytes (ui_id u)) v db1 = (Ok (), db2)"
    "contents db2 = (contents db)(into_bytes (ui_id u) \<mapsto> v)" "room n db2"
    using put_spec [of "into_bytes (ui_id u)" v n db1] by auto
  ultimately show ?thesis using assms(1)
    by (simp add: create_user_def db_call_def get_value_def bind_op_def map_err_op_def return_op_def)
qed

lemma create_user_taken:
  assumes "json_to_vec (js_user L) u = Ok v" "contents db (into_bytes (ui_id u)) = Some w" "room n db"
  shows "\<exists>db'. create_user D L u (Some db) = (Err UserExist, Some db') \<and> contents db' = contents db \<and> room n db'"
  using get_spec [OF assms(3), of "into_bytes (ui_id u)"] assms(1,2)
  by (auto simp: create_user_def db_call_def get_value_def bind_op_def map_err_op_def return_op_def)

lemma user_register_new:
  assumes v: "json_to_vec (js_user L) (UserInfo_new L salt uid pw) = Ok v" and uid: "uid \<noteq> []" "contents db (into_bytes uid) = None"
    and room: "room (cost (length uid) (length v) + n) db"
  shows "\<exists>db'. user_register D L salt \<lparr>metadata = m, message = \<lparr>upr_id = uid, upr_password = pw\<rparr>\<rparr> (Some db) = (Ok (), Some db') \<and>
    contents db' = (contents db)(into_bytes uid \<mapsto> v) \<and> room n db'"
proof -
  obtain db1 where db1: "get_user D L uid (Some db) = (Err UserNotExist, Some db1)" "contents db1 = contents db"
    "room (cost (length uid) (length v) + n) db1"
    using get_user_spec [OF room, of L uid] uid(2) by (auto simp: stored_user_def)
  have "ui_id (UserInfo_new L salt uid pw) = uid" by (simp add: UserInfo_new_def)
  then obtain db2 where "create_user D L (UserInfo_new L salt uid pw) (Some db1) = (Ok (), Some db2)"
    "contents db2 = (contents db)(into_bytes uid \<mapsto> v)" "room n db2"
    using create_user_new [OF v, of db1 n] db1(2,3) uid(2) by auto
  then show ?thesis using db1 uid(1)
    by (simp add: user_register_def bind_op_def try_op_def return_op_def Let_def)
qed

lemma user_register_taken:
  assumes v: "json_to_vec (js_user L) (UserInfo_new L salt uid pw) = Ok v" and uid: "contents db (into_bytes uid) = Some w"
    and room: "room n db" and np: "json_from_slice (js_user L) w \<noteq> Panic"
  shows "\<exists>db'. user_register D L salt \<lparr>metadata = m, message = \<lparr>upr_id = uid, upr_password = pw\<rparr>\<rparr> (Some db) =
    (Err (auth_error InvalidUserId), Some db') \<and> contents db' = contents db \<and> room n db'"
proof (cases "uid = []")
  case True
  then show ?thesis using room by (simp add: user_register_def bind_op_def return_op_def Let_def)
next
  case False
  obtain db1 where db1: "get_user D L uid (Some db) = (stored_user L (contents db) uid, Some db1)" "contents db1 = contents db" "room n db1"
    using get_user_spec [OF room] by blast
  have "ui_id (UserInfo_new L salt uid pw) = uid" by (simp add: UserInfo_new_def)
  then obtain db2 where "create_user D L (UserInfo_new L salt uid pw) (Some db1) = (Err UserExist, Some db2)"
    "contents db2 = contents db" "room n db2"
    using create_user_taken [OF v, of db1 w n] db1(2,3) uid by auto
  then show ?thesis using db1 False
    by (cases "is_ok (stored_user L (contents db) uid)") (auto simp: user_register_def bind_op_def try_op_def return_op_def Let_def)
qed

end

text \<open>The outcome of a login and of the check of a token, as functions of the stored users.\<close>

definition login_outcome ::
    "auth_libs \<Rightarrow> (bytes \<Rightarrow> bytes option) \<Rightarrow> bytes \<Rightarrow> u64 option \<Rightarrow> string \<Rightarrow> string \<Rightarrow> string service_result" where
  "login_outcome L M secret now uid pw =
     (if uid = [] then Err (auth_error InvalidUserId) else if pw = [] then Err (auth_error InvalidPassword)
      else case stored_user L M uid of
        Ok u \<Rightarrow> if verify_password L u pw
          then bind_result (token_expiry now) (\<lambda>exp. ok_or (auth_error ServiceUnavailable) (get_token L u exp secret))
          else Err (auth_error AuthPermissionDenied)
      | Err _ \<Rightarrow> Err (auth_error AuthPermissionDenied)
      | Panic \<Rightarrow> Panic)"

definition accepts_token :: "auth_libs \<Rightarrow> (bytes \<Rightarrow> bytes option) \<Rightarrow> bytes \<Rightarrow> u64 \<Rightarrow> string \<Rightarrow> string \<Rightarrow> bool" where
  "accepts_token L M secret now uid token \<longleftrightarrow> uid \<noteq> [] \<and> token \<noteq> [] \<and>
     (case stored_user L M uid of Ok u \<Rightarrow> validate_token L now u secret token | _ \<Rightarrow> False)"

context kv_store
begin

lemma user_login_spec:
  assumes "room n db"
  shows "\<exists>db'. user_login D L secret now \<lparr>metadata = m, message = \<lparr>upr_id = uid, upr_password = pw\<rparr>\<rparr> (Some db) =
    (login_outcome L (contents db) secret now uid pw, Some db') \<and> contents db' = contents db \<and> room n db'"
  using get_user_spec [OF assms, of L uid] assms
  by (auto simp: user_login_def login_outcome_def bind_op_def map_err_op_def return_op_def bind_result_def Let_def split: result.splits)

lemma user_authenticate_spec:
  assumes "room n db" "stored_user L (contents db) uid \<noteq> Panic"
  shows "\<exists>db'. user_authenticate D L secret now \<lparr>metadata = m, message = \<lparr>cred_id = uid, cred_token = token\<rparr>\<rparr> (Some db) =
    (Ok (accepts_token L (contents db) secret now uid token), Some db') \<and> contents db' = contents db \<and> room n db'"
  using get_user_spec [OF assms(1), of L uid] assms
  by (auto simp: user_authenticate_def accepts_token_def bind_op_def try_op_def return_op_def Let_def split: result.splits)

end

lemma verify_new_password:
  "auth_libs_ok L \<Longrightarrow> verify_password L (UserInfo_new L salt uid pw) pw' \<longleftrightarrow>
    pbkdf2_derive L PBKDF2_ITERATIONS salt (into_bytes pw') PASSWORD_DIGEST_LEN = pbkdf2_derive L PBKDF2_ITERATIONS salt (into_bytes pw) PASSWORD_DIGEST_LEN"
  by (auto simp: auth_libs_ok_def verify_password_def UserInfo_new_def PASSWORD_DIGEST_LEN_def)
    (metis length_0_conv zero_neq_numeral)+

lemma new_token:
  assumes "auth_libs_ok L" "unat exp < 2 ^ 63"
  obtains t where "t \<noteq> []" "get_token L u exp secret = Some t"
    "\<And>now u'. validate_token L now u' secret t \<longleftrightarrow> ui_id u' = ui_id u \<and> now \<le> exp"
proof -
  obtain t where "t \<noteq> []" "jwt_encode L JWT_ALG \<lparr>cl_sub = ui_id u, cl_iss = ISSUER_NAME, cl_exp = exp\<rparr> secret = Some t"
    "\<And>now v. jwt_decode L now t secret v =
      (if val_alg v = JWT_ALG \<and> accepts v now \<lparr>cl_sub = ui_id u, cl_iss = ISSUER_NAME, cl_exp = exp\<rparr>
       then Some \<lparr>cl_sub = ui_id u, cl_iss = ISSUER_NAME, cl_exp = exp\<rparr> else None)"
    using assms unfolding auth_libs_ok_def by (metis claims.select_convs(3))
  then show thesis by (intro that [of t]) (auto simp: get_token_def validate_token_def accepts_def)
qed

end
