(* ===== verification/Demo_Auth.thy ===== *)
theory Demo_Auth
  imports Authentication
begin

text \<open>
  Concrete libraries for the authentication service on which \<open>auth_libs_ok\<close> holds.
  Records are framed by a length in unary; a token is the framed claims.
\<close>

section \<open>Frames\<close>

lemma demo_byte_char: "(of_char (char_of (unat (b :: byte)) :: char) :: byte) = b"
proof -
  have "(of_char (char_of (unat b) :: char) :: byte) = of_nat (of_char (char_of (unat b) :: char))"
    by (simp only: of_nat_of_char)
  also have "\<dots> = of_nat (unat b mod 256)" by (simp only: of_char_of)
  also have "\<dots> = b" using unat_byte_less [of b] by simp
  finally show ?thesis .
qed

definition from_bytes :: "bytes \<Rightarrow> string" where
  "from_bytes bs = map (\<lambda>b. char_of (unat b)) bs"

lemma into_from_bytes [simp]: "into_bytes (from_bytes bs) = bs"
  by (simp add: into_bytes_def from_bytes_def comp_def demo_byte_char)

lemma from_into_bytes [simp]: "from_bytes (into_bytes s) = s"
  using into_from_bytes [of "into_bytes s"] by (simp only: into_bytes_inj)

definition frame :: "bytes \<Rightarrow> bytes" where
  "frame b = replicate (length b) 1 @ 0 # b"

definition unframe :: "bytes \<Rightarrow> bytes \<times> bytes" where
  "unframe v = (let n = length (takeWhile (\<lambda>x. x = 1) v) in (take n (drop (Suc n) v), drop (n + Suc n) v))"

lemma unframe_frame [simp]: "unframe (frame b @ r) = (b, r)"
proof -
  have "takeWhile (\<lambda>x. x = 1) (replicate (length b) 1 @ 0 # b @ r) = replicate (length b) (1 :: byte)"
    by (subst takeWhile_append2) auto
  then show ?thesis by (simp add: frame_def unframe_def Let_def)
qed

section \<open>Libraries\<close>

definition user_to_bytes :: "user_info \<Rightarrow> bytes" where
  "user_to_bytes u = frame (into_bytes (ui_id u)) @ frame (ui_salt u) @ ui_salted_password_hash u"

definition user_from_bytes :: "bytes \<Rightarrow> user_info" where
  "user_from_bytes v = (case unframe v of (i, v1) \<Rightarrow> case unframe v1 of (salt, h) \<Rightarrow>
     \<lparr>ui_id = from_bytes i, ui_salt = salt, ui_salted_password_hash = h\<rparr>)"

fun alg_byte :: "jwt_alg \<Rightarrow> byte" where
  "alg_byte HS256 = 0" | "alg_byte HS384 = 1" | "alg_byte HS512 = 2"

definition claims_token :: "jwt_alg \<Rightarrow> claims \<Rightarrow> string" where
  "claims_token a c = from_bytes (alg_byte a # frame (into_bytes (cl_sub c)) @ frame (into_bytes (cl_iss c)) @ u64_to_le_bytes (cl_exp c))"

definition token_claims :: "string \<Rightarrow> byte \<times> claims" where
  "token_claims t = (case into_bytes t of
     [] \<Rightarrow> (255, \<lparr>cl_sub = [], cl_iss = [], cl_exp = 0\<rparr>)
   | a # v \<Rightarrow> (case unframe v of (s, v1) \<Rightarrow> case unframe v1 of (i, v2) \<Rightarrow>
       (a, \<lparr>cl_sub = from_bytes s, cl_iss = from_bytes i, cl_exp = u64_from_le_bytes v2\<rparr>)))"

lemma token_round_trip [simp]: "token_claims (claims_token a c) = (alg_byte a, c)"
  by (simp add: token_claims_def claims_token_def)

definition demo_auth :: auth_libs where
  "demo_auth =
     \<lparr>pbkdf2_derive = (\<lambda>i salt pw n. take n (pw @ replicate n 0)),
      pbkdf2_verify = (\<lambda>i salt pw h. h \<noteq> [] \<and> take (length h) (pw @ replicate (length h) 0) = h),
      jwt_encode = (\<lambda>a c s. Some (claims_token a c)),
      jwt_decode = (\<lambda>now t s v. case token_claims t of (a, c) \<Rightarrow> if a = alg_byte (val_alg v) \<and> accepts v now c then Some c else None),
      js_user = \<lparr>json_to_vec = (\<lambda>u. Ok (user_to_bytes u)), json_from_slice = (\<lambda>v. Ok (user_from_bytes v))\<rparr>\<rparr>"

lemma alg_byte_inj: "alg_byte a = alg_byte b \<longleftrightarrow> a = b"
  by (cases a; cases b) simp_all

lemma claims_token_nonempty: "claims_token a c \<noteq> []"
  by (simp add: claims_token_def from_bytes_def)

lemma demo_auth_ok: "auth_libs_ok demo_auth"
  by (auto simp: auth_libs_ok_def demo_auth_def json_ok_def alg_byte_inj user_from_bytes_def user_to_bytes_def
      intro!: exI [of _ "claims_token _ _"] claims_token_nonempty split: if_splits prod.splits)

definition demo_token :: "string \<Rightarrow> string" where
  "demo_token u = claims_token HS512 \<lparr>cl_sub = u, cl_iss = ISSUER_NAME, cl_exp = 2000\<rparr>"

end
