(* ===== verification/Demo_Libs.thy ===== *)
theory Demo_Libs
  imports Teaclave_System Demo_Auth
begin

text \<open>
  Concrete libraries on which the hypotheses of the properties hold: a uuid text
  form of 36 characters and a codec whose serialised values are tagged objects.
  They serve the examples at which the properties are evaluated, and a small run
  of the system (a private function, a task of two users, both approvals, the
  invocation) that several of them start from.
\<close>

section \<open>Libraries\<close>

definition demo_uuid :: uuid_lib where
  "demo_uuid =
     \<lparr>uuid_to_string = (\<lambda>u. map (\<lambda>b. char_of (unat b)) (le_bytes 16 (unat u)) @ replicate 20 (CHR ''-'')),
      uuid_parse_str = (\<lambda>s. Some (of_nat (le_val (map of_char (take 16 s)))))\<rparr>"

datatype demo_value =
  DFunction func | DInput input_file | DOutput output_file | DTask task_state | DStaged staged_task

definition demo_libs :: "demo_value libs" where
  "demo_libs =
     \<lparr>lib_uuid = demo_uuid,
      js_function = \<lparr>json_to_vec = (\<lambda>x. Ok (DFunction x)),
        json_from_slice = (\<lambda>v. case v of DFunction x \<Rightarrow> Ok x | _ \<Rightarrow> Err (Anyhow [] []))\<rparr>,
      js_input = \<lparr>json_to_vec = (\<lambda>x. Ok (DInput x)),
        json_from_slice = (\<lambda>v. case v of DInput x \<Rightarrow> Ok x | _ \<Rightarrow> Err (Anyhow [] []))\<rparr>,
      js_output = \<lparr>json_to_vec = (\<lambda>x. Ok (DOutput x)),
        json_from_slice = (\<lambda>v. case v of DOutput x \<Rightarrow> Ok x | _ \<Rightarrow> Err (Anyhow [] []))\<rparr>,
      js_task = \<lparr>json_to_vec = (\<lambda>x. Ok (DTask x)),
        json_from_slice = (\<lambda>v. case v of DTask x \<Rightarrow> Ok x | _ \<Rightarrow> Err (Anyhow [] []))\<rparr>,
      js_staged = \<lparr>json_to_vec = (\<lambda>x. Ok (DStaged x)),
        json_from_slice = (\<lambda>v. case v of DStaged x \<Rightarrow> Ok x | _ \<Rightarrow> Err (Anyhow [] []))\<rparr>,
      url_parse = Some\<rparr>"

definition demo_iter :: tag_iter where
  "demo_iter m = []"

lemma demo_uuid_ok: "uuid_ok demo_uuid"
proof -
  have "of_nat (le_val (le_bytes 16 (unat u))) = u" for u :: uuid
    using unsigned_less [of u, where ?'a = nat] by (simp add: le_val_le_bytes)
  then show ?thesis by (simp add: uuid_ok_def demo_uuid_def comp_def demo_byte_char)
qed

lemma demo_libs_ok: "libs_ok demo_libs"
  by (simp add: libs_ok_def json_ok_def demo_libs_def demo_uuid_ok)

lemma demo_enc:
  "enc (S_function demo_libs) f = DFunction f" "enc (S_input demo_libs) i = DInput i"
  "enc (S_output demo_libs) out = DOutput out" "enc (S_task demo_libs) ts = DTask ts"
  "enc (S_staged demo_libs) st = DStaged st"
  by (simp_all add: enc_def to_vec_def demo_libs_def storable_defs storable_task_def)

lemmas demo_impls = libs_ok_impls [OF demo_libs_ok]

section \<open>A run\<close>

definition user_meta :: "string \<Rightarrow> metadata" where
  "user_meta u = fmupd ''token'' (demo_token u) (fmupd ''id'' u fmempty)"

definition demo_function :: func where
  "demo_function =
     \<lparr>fn_id = 1, fn_name = ''f'', fn_description = [], fn_public = False, fn_executor_type = Builtin,
      fn_payload = [], fn_arguments = [], fn_inputs = [], fn_outputs = [], fn_owner = ''alice''\<rparr>"

definition demo_task :: "user_list \<Rightarrow> task_status \<Rightarrow> task_state" where
  "demo_task approved st = TaskState_default
     \<lparr>task_id := 2, creator := ''bob'', executor := MesaPy,
      function_id := ExternalID_new ''function'' 1, function_owner := ''alice'',
      participants := {|''alice'', ''bob''|}, approved_users := approved, status := st\<rparr>"

definition demo_staged :: staged_task where
  "demo_staged =
     \<lparr>st_task_id = 2, st_function_id = 1, st_executor = MesaPy, st_executor_type = Builtin,
      st_function_name = ''f'', st_function_arguments = fmempty, st_function_payload = [],
      st_input_data = fmempty, st_output_data = fmempty\<rparr>"

definition register_call :: system_call where
  "register_call = RegisterFunction 1 \<lparr>metadata = user_meta ''alice'', message =
     \<lparr>rf_name = ''f'', rf_description = [], rf_executor_type = Builtin, rf_payload = [], rf_public = False,
      rf_arguments = [], rf_inputs = [], rf_outputs = []\<rparr>\<rparr>"

definition create_call :: system_call where
  "create_call = CreateTask 2 \<lparr>metadata = user_meta ''bob'', message =
     \<lparr>ct_function_id = ExternalID_new ''function'' 1, ct_function_arguments = fmempty, ct_executor = MesaPy,
      ct_inputs_ownership = fmempty, ct_outputs_ownership = fmempty\<rparr>\<rparr>"

definition approve_call :: "string \<Rightarrow> system_call" where
  "approve_call u = ApproveTaskCall \<lparr>metadata = user_meta u, message = ExternalID_new ''task'' 2\<rparr>"

definition invoke_call :: system_call where
  "invoke_call = InvokeTaskCall \<lparr>metadata = user_meta ''bob'', message = ExternalID_new ''task'' 2\<rparr>"

section \<open>The run, step by step\<close>

abbreviation demo_put_task :: "user_list \<Rightarrow> task_status \<Rightarrow> demo_value store \<Rightarrow> demo_value store" where
  "demo_put_task a st \<equiv> put_obj demo_libs (S_task demo_libs) (demo_task a st)"

definition demo_s1 :: "demo_value store" where
  "demo_s1 = put_obj demo_libs (S_function demo_libs) demo_function empty_store"

definition demo_s2 :: "demo_value store" where
  "demo_s2 = demo_put_task {||} Created demo_s1"

definition demo_s3 :: "demo_value store" where
  "demo_s3 = demo_put_task {|''alice''|} DataAssigned demo_s2"

definition demo_s4 :: "demo_value store" where
  "demo_s4 = demo_put_task {|''alice'', ''bob''|} Approved demo_s3"

definition demo_s5 :: "demo_value store" where
  "demo_s5 = demo_put_task {|''alice'', ''bob''|} Staged
     (demo_s4\<lparr>queues := (\<lambda>_. [])(into_bytes QUEUE_KEY := [DStaged demo_staged])\<rparr>)"

lemma id_bytes_eq:
  "uuid_ok U \<Longrightarrow> ExternalID_to_bytes U (ExternalID_new p u) = storable_key U S x \<longleftrightarrow> p = key_prefix S \<and> u = uuid_of S x"
  by (auto simp: storable_key_eq ExternalID_to_bytes_inj external_id_of_def ExternalID_new_def)

lemma id_bytes_inj:
  "uuid_ok U \<Longrightarrow> ExternalID_to_bytes U (ExternalID_new p u) = ExternalID_to_bytes U (ExternalID_new p' u') \<longleftrightarrow> p = p' \<and> u = u'"
  by (simp add: ExternalID_to_bytes_inj ExternalID_new_def)

lemma demo_lib_uuid [simp]: "lib_uuid demo_libs = demo_uuid"
  by (simp add: demo_libs_def)

lemma demo_from_slice [simp]:
  "from_slice (S_function demo_libs) (DFunction f) = Ok f"
  "from_slice (S_task demo_libs) (DTask ts) = Ok ts"
  "from_slice (S_input demo_libs) (DInput i) = Ok i"
  "from_slice (S_output demo_libs) (DOutput out) = Ok out"
  "from_slice (S_staged demo_libs) (DStaged st) = Ok st"
  by (simp_all add: from_slice_def demo_libs_def storable_defs storable_task_def)

lemma demo_kv_put:
  "kv (put_obj demo_libs S x s) (ExternalID_to_bytes demo_uuid (ExternalID_new p u)) =
   (if p = key_prefix S \<and> u = uuid_of S x then Some (enc S x)
    else kv s (ExternalID_to_bytes demo_uuid (ExternalID_new p u)))"
  by (simp add: put_obj_def id_bytes_eq [OF demo_uuid_ok])

lemma demo_task_sel [simp]:
  "task_id (demo_task a st) = 2" "creator (demo_task a st) = ''bob''" "executor (demo_task a st) = MesaPy"
  "function_id (demo_task a st) = ExternalID_new ''function'' 1" "participants (demo_task a st) = {|''alice'', ''bob''|}"
  "approved_users (demo_task a st) = a" "status (demo_task a st) = st" "assigned_inputs (demo_task a st) = fmempty"
  "assigned_outputs (demo_task a st) = fmempty" "inputs_ownership (demo_task a st) = fmempty"
  "outputs_ownership (demo_task a st) = fmempty" "function_arguments (demo_task a st) = fmempty"
  by (simp_all add: demo_task_def TaskState_default_def)

lemma demo_task_upd [simp]:
  "(demo_task a st)\<lparr>approved_users := a', status := st'\<rparr> = demo_task a' st'"
  "(demo_task a st)\<lparr>status := st'\<rparr> = demo_task a st'"
  by (simp_all add: demo_task_def)

lemma demo_fn_id [simp]: "fn_id demo_function = 1"
  by (simp add: demo_function_def)

lemma ext_prefix_new [simp]: "ext_prefix (ExternalID_new p u) = p"
  by (simp add: ExternalID_new_def)

lemmas demo_eval =
  bind_op_def return_op_def map_err_op_def lock_op_def void_op_def read_or_deny_def read_ideal
  write_ideal [OF demo_impls(5)] write_ideal [OF demo_impls(2)] permit_def or_deny_def get_request_user_id_def
  user_meta_def demo_kv_put demo_enc match_prefix_def Let_def

lemmas demo_task_eval =
  Approve_try_from_def Assign_try_from_def Stage_try_from_def task_new_defs transit_defs ready_Assign_def
  all_data_assigned_def approve_def OwnerList_contains_def OwnerList_insert_def ready_Approve_def
  everyone_approved_def OwnerList_len_def fcard_finsert_if has_creator_def ready_default_def

lemma demo_register: "snd (system_call_op ideal_client demo_libs demo_iter register_call empty_store) = demo_s1"
  by (simp add: register_call_def register_function_def demo_eval Function_from_request_def demo_function_def demo_s1_def)

lemma demo_create_new:
  "Create_new ''bob'' MesaPy fmempty fmempty fmempty demo_function 2 =
   Ok \<lparr>state = demo_task {||} Created, extra = Create\<rparr>"
  by (simp add: Create_new_def demo_function_def demo_task_def Let_def OwnerList_unions_def OwnerList_union_def
      all_owners_def OwnerList_insert_def TaskState_default_def)

lemma demo_create: "snd (system_call_op ideal_client demo_libs demo_iter create_call demo_s1) = demo_s2"
  by (simp add: create_call_def create_task_def demo_eval demo_s1_def demo_create_new Create_into_def demo_s2_def)

lemma demo_approve_alice:
  "snd (system_call_op ideal_client demo_libs demo_iter (approve_call ''alice'') demo_s2) = demo_s3"
  by (simp add: approve_call_def approve_task_def demo_eval demo_s2_def demo_s3_def demo_task_eval)

lemma demo_approve_bob:
  "snd (system_call_op ideal_client demo_libs demo_iter (approve_call ''bob'') demo_s3) = demo_s4"
proof -
  have "{|''bob'', ''alice''|} = {|''alice'', ''bob''|}" by auto
  then show ?thesis
    by (simp add: approve_call_def approve_task_def demo_eval demo_s3_def demo_s4_def demo_task_eval)
qed

lemma demo_stage:
  "stage_for_running \<lparr>state = demo_task a st, extra = Stage\<rparr> ''bob'' demo_function = Ok demo_staged"
  by (simp add: stage_for_running_def has_creator_def demo_staged_def demo_function_def
      FunctionInputFiles_from_def FunctionOutputFiles_from_def)

lemma demo_enqueue:
  "enqueue_to_db ideal_client k (S_staged demo_libs) st s =
   (Ok (), s\<lparr>queues := (queues s)(k := queues s k @ [DStaged st])\<rparr>)"
  using wp_enqueue [OF demo_impls(6), of k st "\<lambda>r s'. r = Ok () \<and> s' = s\<lparr>queues := (queues s)(k := queues s k @ [DStaged st])\<rparr>" s]
  by (simp add: wp_def demo_enc prod_eq_iff)

lemma demo_queues_s4: "queues demo_s4 = (\<lambda>_. [])"
  by (simp add: demo_s4_def demo_s3_def demo_s2_def demo_s1_def empty_store_def)

lemma demo_kv_s4:
  "kv demo_s4 (ExternalID_to_bytes demo_uuid (ExternalID_new ''task'' 2)) =
     Some (DTask (demo_task {|''alice'', ''bob''|} Approved))"
  "kv demo_s4 (ExternalID_to_bytes demo_uuid (ExternalID_new ''function'' 1)) = Some (DFunction demo_function)"
  by (simp_all add: demo_s4_def demo_s3_def demo_s2_def demo_s1_def demo_kv_put demo_enc)

lemma demo_invoke: "snd (system_call_op ideal_client demo_libs demo_iter invoke_call demo_s4) = demo_s5"
  by (simp add: invoke_call_def invoke_task_def demo_eval demo_kv_s4 demo_task_eval demo_stage demo_enqueue
      demo_queues_s4 demo_s5_def)

text \<open>The store after the run is reachable.\<close>

lemma demo_reach_call:
  assumes "reachable demo_libs demo_iter s" "call_fresh demo_libs s c"
    "snd (system_call_op ideal_client demo_libs demo_iter c s) = s'"
  shows "reachable demo_libs demo_iter s'"
  using assms by (auto simp: system_step_def intro: reach_step)

lemma demo_reachable_s2: "reachable demo_libs demo_iter demo_s2"
proof -
  have "fresh_uuid demo_libs empty_store 1" by (simp add: fresh_uuid_def empty_store_def)
  then have "reachable demo_libs demo_iter demo_s1"
    by (intro demo_reach_call [OF reach_init _ demo_register]) (simp add: register_call_def)
  moreover have "fresh_uuid demo_libs demo_s1 2"
    by (simp add: fresh_uuid_def demo_s1_def demo_kv_put empty_store_def)
  ultimately show ?thesis
    by (intro demo_reach_call [OF _ _ demo_create]) (simp_all add: create_call_def)
qed

lemma demo_reachable_s4: "reachable demo_libs demo_iter demo_s4"
  by (intro demo_reach_call [OF demo_reach_call [OF demo_reachable_s2 _ demo_approve_alice] _ demo_approve_bob])
    (simp_all add: approve_call_def)

lemma demo_reachable_s5: "reachable demo_libs demo_iter demo_s5"
  by (intro demo_reach_call [OF demo_reachable_s4 _ demo_invoke]) (simp add: invoke_call_def)

section \<open>A registered input file\<close>

definition demo_input :: input_file where
  "demo_input = \<lparr>in_url = ''a'', in_cmac = \<lparr>tag = replicate 16 0\<rparr>,
     in_crypto = TeaclaveFile128 \<lparr>file_key = replicate 16 1\<rparr>, in_owner = {|''bob''|}, in_uuid = 7\<rparr>"

definition demo_i1 :: "demo_value store" where
  "demo_i1 = put_obj demo_libs (S_input demo_libs) demo_input empty_store"

lemma demo_reachable_i1: "reachable demo_libs demo_iter demo_i1"
proof (rule demo_reach_call [OF reach_init])
  let ?c = "RegisterInputFile 7 \<lparr>metadata = user_meta ''bob'', message =
    \<lparr>rif_url = ''a'', rif_cmac = in_cmac demo_input, rif_crypto_info = in_crypto demo_input\<rparr>\<rparr>"
  show "call_fresh demo_libs empty_store ?c" by (simp add: fresh_uuid_def empty_store_def)
  show "snd (system_call_op ideal_client demo_libs demo_iter ?c empty_store) = demo_i1"
    by (simp add: register_input_file_def demo_eval write_ideal [OF demo_impls(3)] InputFile_new_def OwnerList_new_def
        demo_i1_def demo_input_def)
qed

lemma demo_holds_input: "holds demo_libs (S_input demo_libs) demo_i1 demo_input"
  unfolding demo_i1_def by (rule holds_put_same [OF demo_impls(3)])

end
