(* ===== verification/Interleaving.thy ===== *)
theory Interleaving
  imports Demo_Libs
begin

text \<open>
  What the services guarantee and what they do not guarantee about the order of
  calls.  The first part follows the tasks handed to executors along a run.  The
  second part cuts \<^verbatim>\<open>approve_task\<close> and \<^verbatim>\<open>invoke_task\<close> at their storage calls,
  which is where calls served by other threads can come between: the storage
  client is locked for one storage call at a time only.
\<close>

section \<open>Deliveries\<close>

text \<open>The task that a call hands to an executor.\<close>

fun delivered :: "'v libs \<Rightarrow> 'v store \<Rightarrow> system_call \<Rightarrow> uuid list" where
  "delivered L s PullTask = (case fst (pull_task ideal_client L s) of Ok st \<Rightarrow> [st_task_id st] | _ \<Rightarrow> [])"
| "delivered L s _ = []"

inductive system_trace :: "'v libs \<Rightarrow> tag_iter \<Rightarrow> uuid list \<Rightarrow> 'v store \<Rightarrow> bool"
  for L :: "'v libs" and iter :: tag_iter where
  trace_init: "system_trace L iter [] empty_store"
| trace_step: "system_trace L iter ids s \<Longrightarrow> system_step L iter s c s' \<Longrightarrow>
    system_trace L iter (ids @ delivered L s c) s'"

definition delivery_inv :: "'v libs \<Rightarrow> uuid list \<Rightarrow> 'v store \<Rightarrow> bool" where
  "delivery_inv L ids s \<longleftrightarrow> store_inv L s \<and> distinct (map Ok ids @ queue_task_ids L s) \<and>
     (\<forall>i \<in> set ids. \<exists>ts. holds L (S_task L) s ts \<and> task_id ts = i \<and> Staged \<le> status ts)"

lemma effect_staged_task:
  assumes "libs_ok L" "effect L A s s'" "holds L (S_task L) s ts" "Staged \<le> status ts"
  shows "\<exists>ts'. holds L (S_task L) s' ts' \<and> task_id ts' = task_id ts \<and> Staged \<le> status ts'"
  using effect_task [OF assms(1-3)] assms(4)
  by (metis order_trans task_step_id task_step_status)

lemma effect_queue_ids:
  assumes "libs_ok L" "effect L A s s'"
  shows "(\<exists>pre. queue_task_ids L s = pre @ queue_task_ids L s') \<or>
    (\<exists>ts. holds L (S_task L) s ts \<and> \<not> Staged \<le> status ts \<and>
       queue_task_ids L s' = queue_task_ids L s @ [Ok (task_id ts)])"
  using assms(2)
proof cases
  case (eff_invoke ts u st ts')
  from eff_invoke(3) have "st_task_id st = task_id ts \<and> \<not> Staged \<le> status ts"
    by (cases rule: task_step_cases) (auto simp: res_simps less_eq_task_status_def)
  with eff_invoke assms(1) show ?thesis
    by (intro disjI2 exI [of _ ts]) (simp add: queue_task_ids_def from_slice_enc libs_ok_impls)
next
  case (eff_pull v vs)
  then show ?thesis by (intro disjI1 exI) (simp add: queue_task_ids_def)
qed (auto simp: queue_task_ids_def)

lemma effect_delivery_inv:
  assumes "libs_ok L" "effect L A s s'" "delivery_inv L ids s"
  shows "delivery_inv L ids s'"
proof -
  from assms(3) have old: "store_inv L s" "distinct (map Ok ids @ queue_task_ids L s)"
    "\<And>i. i \<in> set ids \<Longrightarrow> \<exists>ts. holds L (S_task L) s ts \<and> task_id ts = i \<and> Staged \<le> status ts"
    by (auto simp: delivery_inv_def)
  have new: "Ok (task_id ts) \<notin> set (map Ok ids)" if "holds L (S_task L) s ts" "\<not> Staged \<le> status ts" for ts
    using old(3) that holds_unique [OF libs_ok_impls(5) [OF assms(1)] that(1)] by force
  have "distinct (map Ok ids @ queue_task_ids L s')"
    using effect_queue_ids [OF assms(1,2)]
  proof
    assume "\<exists>pre. queue_task_ids L s = pre @ queue_task_ids L s'"
    with old(2) show ?thesis by auto
  next
    assume "\<exists>ts. holds L (S_task L) s ts \<and> \<not> Staged \<le> status ts \<and>
       queue_task_ids L s' = queue_task_ids L s @ [Ok (task_id ts)]"
    then obtain ts where "holds L (S_task L) s ts" "\<not> Staged \<le> status ts"
      "queue_task_ids L s' = queue_task_ids L s @ [Ok (task_id ts)]" by blast
    moreover have "distinct (queue_task_ids L s')"
      using effect_store_inv [OF assms(1,2) old(1)] by (simp add: store_inv_def)
    ultimately show ?thesis using old(2) new by auto
  qed
  with old(3) effect_staged_task [OF assms(1,2)] effect_store_inv [OF assms(1,2) old(1)]
  show ?thesis unfolding delivery_inv_def by metis
qed

lemma effects_delivery_inv: "effects L A s s' \<Longrightarrow> libs_ok L \<Longrightarrow> delivery_inv L ids s \<Longrightarrow> delivery_inv L ids s'"
  by (induction rule: rtranclp_induct) (auto intro: effect_delivery_inv)

lemma pull_delivers:
  assumes "libs_ok L" "delivery_inv L ids s" "pull_task ideal_client L s = (Ok st, s')"
  shows "delivery_inv L (ids @ [st_task_id st]) s'"
proof -
  from assms(3) obtain v vs where q: "queues s (into_bytes QUEUE_KEY) = v # vs" "from_slice (S_staged L) v = Ok st"
    "s' = s\<lparr>queues := (queues s)(into_bytes QUEUE_KEY := vs)\<rparr>"
    by (auto simp: pull_task_def pull_staged_task_def bind_op_def return_op_def lock_op_def ideal_client_def
        res_simps split: list.splits)
  then have "effect L {} s s'" by (auto intro: eff_pull)
  from effect_delivery_inv [OF assms(1) this assms(2)] have inv: "delivery_inv L ids s'" .
  have "staged_entry L s v" using assms(2) q(1) by (simp add: delivery_inv_def store_inv_def)
  then obtain ts where "holds L (S_task L) s ts" "Staged \<le> status ts" "st_task_id st = task_id ts"
    using staged_entry_id [OF assms(1)] q(2) by (metis result.inject(1))
  moreover have "queue_task_ids L s = Ok (st_task_id st) # queue_task_ids L s'"
    using q by (simp add: queue_task_ids_def)
  ultimately show ?thesis using inv assms(2) q(3) by (auto simp: delivery_inv_def)
qed

lemma trace_delivery_inv:
  assumes "system_trace L iter ids s" "libs_ok L"
  shows "delivery_inv L ids s"
  using assms
proof (induction rule: system_trace.induct)
  case trace_init
  then show ?case by (simp add: delivery_inv_def store_inv_def empty_store_def queue_task_ids_def)
next
  case (trace_step ids s c s')
  have "effects L (call_approvals c) s s'"
    using trace_step store_inv_kv_inv by (intro system_step_effects) (auto simp: delivery_inv_def)
  then have inv: "delivery_inv L ids s'" using trace_step effects_delivery_inv by blast
  show ?case
  proof (cases "\<exists>st. c = PullTask \<and> fst (pull_task ideal_client L s) = Ok st")
    case True
    then obtain st where c: "c = PullTask" "fst (pull_task ideal_client L s) = Ok st" by blast
    then have "s' = snd (pull_task ideal_client L s)"
      using trace_step(2) by (simp add: system_step_def void_op_def bind_op_def return_op_def split: prod.splits result.splits)
    with c have "pull_task ideal_client L s = (Ok st, s')" by (simp add: prod_eq_iff)
    with pull_delivers trace_step c show ?thesis by simp
  next
    case False
    then have "delivered L s c = []" by (cases c) (auto split: result.splits)
    with inv show ?thesis by simp
  qed
qed

text \<open>The demo run as a trace that ends with the delivery of its task.\<close>

lemma demo_trace_call:
  assumes "system_trace demo_libs demo_iter ids s" "call_fresh demo_libs s c"
    "snd (system_call_op ideal_client demo_libs demo_iter c s) = s'" "delivered demo_libs s c = ids'"
  shows "system_trace demo_libs demo_iter (ids @ ids') s'"
  using trace_step [of demo_libs demo_iter ids s c s'] assms by (simp add: system_step_def)

lemma demo_fresh:
  "fresh_uuid demo_libs empty_store 1" "fresh_uuid demo_libs demo_s1 2"
  by (simp_all add: fresh_uuid_def empty_store_def demo_s1_def demo_kv_put)

lemma demo_trace_s5: "system_trace demo_libs demo_iter [] demo_s5"
proof -
  have "system_trace demo_libs demo_iter [] demo_s1"
    using demo_trace_call [OF trace_init _ demo_register] by (simp add: register_call_def demo_fresh)
  from demo_trace_call [OF this _ demo_create] have "system_trace demo_libs demo_iter [] demo_s2"
    by (simp add: create_call_def demo_fresh)
  from demo_trace_call [OF this _ demo_approve_alice] have "system_trace demo_libs demo_iter [] demo_s3"
    by (simp add: approve_call_def)
  from demo_trace_call [OF this _ demo_approve_bob] have "system_trace demo_libs demo_iter [] demo_s4"
    by (simp add: approve_call_def)
  from demo_trace_call [OF this _ demo_invoke] show ?thesis
    by (simp add: invoke_call_def)
qed

lemma demo_pull:
  "pull_task ideal_client demo_libs demo_s5 =
   (Ok demo_staged, demo_s5\<lparr>queues := (queues demo_s5)(into_bytes QUEUE_KEY := [])\<rparr>)"
  by (simp add: pull_task_def pull_staged_task_def demo_eval demo_s5_def ideal_client_def)

lemma demo_trace_pulled: "\<exists>s. system_trace demo_libs demo_iter [2] s"
proof -
  have "delivered demo_libs demo_s5 PullTask = [2]" by (simp add: demo_pull demo_staged_def)
  from demo_trace_call [OF demo_trace_s5 _ refl this] show ?thesis by auto
qed

section \<open>Handlers cut at their storage calls\<close>

lemma bind_op_assoc: "bind_op (bind_op m f) g = bind_op m (\<lambda>x. bind_op (f x) g)"
  by (rule ext) (simp add: bind_op_def split: prod.splits result.splits)

text \<open>\<^verbatim>\<open>approve_task\<close> up to its write, and the write.\<close>

definition approve_load ::
    "('s, 'v) storage_client \<Rightarrow> 'v libs \<Rightarrow> external_id request \<Rightarrow> ('s, task_state) service_op" where
  "approve_load C L req =
     bind_op (return_op (get_request_user_id (metadata req))) (\<lambda>user_id.
     bind_op (read_or_deny C L (S_task L) (message req)) (\<lambda>ts.
     bind_op (or_deny (Approve_try_from ts)) (\<lambda>task.
     bind_op (or_deny (approve task user_id)) (\<lambda>task1.
     return_op (Approve_into task1)))))"

lemma approve_task_cut:
  "approve_task C L req = bind_op (approve_load C L req) (write_or_fail C L (S_task L))"
  by (simp add: approve_task_def approve_load_def bind_op_assoc)

text \<open>\<^verbatim>\<open>invoke_task\<close> up to its enqueue, the enqueue, and the write.\<close>

definition invoke_load ::
    "('s, 'v) storage_client \<Rightarrow> 'v libs \<Rightarrow> external_id request \<Rightarrow> ('s, staged_task \<times> stage_tag task) service_op" where
  "invoke_load C L req =
     bind_op (return_op (get_request_user_id (metadata req))) (\<lambda>user_id.
     bind_op (read_or_deny C L (S_task L) (message req)) (\<lambda>ts.
     bind_op (permit (has_creator ts user_id)) (\<lambda>_.
     bind_op (read_or_deny C L (S_function L) (function_id ts)) (\<lambda>f.
     bind_op (or_deny (Stage_try_from ts)) (\<lambda>task.
     bind_op (return_op (map_err service_error_from_anyhow (stage_for_running task user_id f))) (\<lambda>staged.
     return_op (Ok (staged, task))))))))"

definition invoke_enqueue ::
    "('s, 'v) storage_client \<Rightarrow> 'v libs \<Rightarrow> staged_task \<Rightarrow> ('s, unit) service_op" where
  "invoke_enqueue C L staged = enqueue_to_db C (into_bytes QUEUE_KEY) (S_staged L) staged"

definition invoke_store ::
    "('s, 'v) storage_client \<Rightarrow> 'v libs \<Rightarrow> stage_tag task \<Rightarrow> ('s, unit) service_op" where
  "invoke_store C L task = bind_op (return_op (Stage_into task)) (\<lambda>ts'. write_or_fail C L (S_task L) ts')"

lemma bind_op_return: "bind_op (return_op (Ok x)) f = f x"
  by (rule ext) (simp add: bind_op_def return_op_def)

lemma invoke_task_cut:
  "invoke_task C L req =
   bind_op (invoke_load C L req) (\<lambda>(staged, task).
   bind_op (invoke_enqueue C L staged) (\<lambda>_. invoke_store C L task))"
  by (simp add: invoke_task_def invoke_load_def invoke_enqueue_def invoke_store_def bind_op_assoc bind_op_return)

lemma read_held:
  assumes "libs_ok L" "impl_ok S" "holds L S s x"
  shows "read_from_db ideal_client L S (external_id_of S x) s = (Ok x, s)"
proof -
  have "kv s (ExternalID_to_bytes (lib_uuid L) (external_id_of S x)) = Some (enc S x)"
    using assms(2,3) by (simp add: holds_iff storable_key_eq)
  moreover have "match_prefix S (ext_prefix (external_id_of S x))"
    by (simp add: ext_prefix_of match_prefix_def)
  ultimately show ?thesis using assms(2) by (simp add: read_ideal from_slice_enc)
qed

lemma approve_load_held:
  assumes "libs_ok L" "holds L (S_task L) s ts" "message req = external_id_of (S_task L) ts"
    "get_request_user_id (metadata req) = Ok u" "u |\<in>| participants ts"
    "status ts = Created \<and> all_data_assigned ts \<or> status ts = DataAssigned"
  shows "\<exists>st. approve_load ideal_client L req s =
    (Ok (ts\<lparr>approved_users := finsert u (approved_users ts), status := st\<rparr>), s)"
proof -
  have "Approve_try_from ts = Ok \<lparr>state = ts, extra = Approve\<rparr>"
    using assms(6) by (auto simp: res_simps)
  moreover have "approve \<lparr>state = ts, extra = Approve\<rparr> u =
      Ok \<lparr>state = ts\<lparr>approved_users := finsert u (approved_users ts)\<rparr>, extra = Approve\<rparr>"
    using assms(5) by (simp add: res_simps)
  ultimately show ?thesis
    using assms(3,4) read_held [OF assms(1) libs_ok_impls(5) [OF assms(1)] assms(2)]
    by (auto simp: approve_load_def bind_op_def return_op_def or_deny_def read_or_deny_def map_err_op_def)
qed

text \<open>A turn of the execution service on a queue whose first entry is a task that is not staged.\<close>

lemma pull_head:
  assumes "libs_ok L" "queues s (into_bytes QUEUE_KEY) = enc (S_staged L) st # vs"
  shows "pull_task ideal_client L s = (Ok st, s\<lparr>queues := (queues s)(into_bytes QUEUE_KEY := vs)\<rparr>)"
  using assms
  by (simp add: pull_task_def pull_staged_task_def bind_op_def return_op_def lock_op_def ideal_client_def
      from_slice_enc libs_ok_impls)

lemma get_task_state_held:
  assumes "libs_ok L" "holds L (S_task L) s ts"
  shows "get_task_state ideal_client L (task_id ts) s = (Ok ts, s)"
  using read_held [OF assms(1) libs_ok_impls(5) [OF assms(1)] assms(2)]
  by (simp add: get_task_state_read external_id_of_def)

lemma Run_try_from_refused: "status ts \<noteq> Staged \<Longrightarrow> \<exists>e. Run_try_from ts = Err e"
  by (auto simp: Run_try_from_def split: task_status.splits)

lemma Finish_try_from_refused: "status ts \<noteq> Running \<Longrightarrow> \<exists>e. Finish_try_from ts = Err e"
  by (auto simp: Finish_try_from_def split: task_status.splits)

lemma update_task_status_refused:
  assumes "libs_ok L" "holds L (S_task L) s ts" "status ts \<noteq> Staged" "uts_task_id (message req) = task_id ts"
  shows "\<exists>e. update_task_status ideal_client L req s = (Err e, s)"
  using Run_try_from_refused [OF assms(3)] get_task_state_held [OF assms(1,2)] assms(4)
  by (auto simp: update_task_status_def bind_op_def map_err_op_def return_op_def)

lemma update_task_result_refused:
  assumes "libs_ok L" "holds L (S_task L) s ts" "status ts \<noteq> Running" "utr_task_id (message req) = task_id ts"
  shows "\<exists>e. update_task_result ideal_client L iter req s = (Err e, s)"
  using Finish_try_from_refused [OF assms(3)] get_task_state_held [OF assms(1,2)] assms(4)
  by (auto simp: update_task_result_def bind_op_def map_err_op_def return_op_def Let_def)

lemma execution_round_refused:
  assumes "libs_ok L" "holds L (S_task L) s ts" "status ts \<noteq> Staged" "status ts \<noteq> Running"
    "queues s (into_bytes QUEUE_KEY) = enc (S_staged L) st # vs" "st_task_id st = task_id ts"
  shows "\<exists>e. execution_round ideal_client L iter execute s =
    (Err e, s\<lparr>queues := (queues s)(into_bytes QUEUE_KEY := vs)\<rparr>)"
proof -
  let ?s = "s\<lparr>queues := (queues s)(into_bytes QUEUE_KEY := vs)\<rparr>"
  have h: "holds L (S_task L) ?s ts" using assms(2) by simp
  obtain e where e: "update_task_status ideal_client L
      (Request_new \<lparr>uts_task_id = st_task_id st, uts_task_status = Running\<rparr>) ?s = (Err e, ?s)"
    using update_task_status_refused [OF assms(1) h assms(3)] assms(6) by (metis request.select_convs(2) Request_new_def update_task_status_request.select_convs(1))
  then have inv: "exec_invoke_task ideal_client L execute st ?s = (Err (anyhow_from_service e), ?s)"
    by (simp add: exec_invoke_task_def bind_op_def map_err_op_def)
  let ?r = "\<lparr>utr_task_id = st_task_id st,
    utr_task_result = TaskErr \<lparr>reason = err_template (anyhow_from_service e)\<rparr>\<rparr> :: update_task_result_request"
  obtain e' where "update_task_result ideal_client L iter (Request_new ?r) ?s = (Err e', ?s)"
    using update_task_result_refused [OF assms(1) h assms(4), of "Request_new ?r"] assms(6)
    by (auto simp: Request_new_def)
  then show ?thesis
    by (simp add: execution_round_def bind_op_def pull_head [OF assms(1,5)] try_op_def inv return_op_def
        UpdateTaskResultRequest_new_def)
qed

lemma invoke_load_held:
  assumes "libs_ok L" "holds L (S_task L) s ts" "status ts = Approved" "holds L (S_function L) s f"
    "function_id ts = external_id_of (S_function L) f" "message req = external_id_of (S_task L) ts"
    "get_request_user_id (metadata req) = Ok (creator ts)"
  shows "\<exists>st. invoke_load ideal_client L req s = (Ok (st, \<lparr>state = ts, extra = Stage\<rparr>), s) \<and> st_task_id st = task_id ts"
proof -
  have "Stage_try_from ts = Ok \<lparr>state = ts, extra = Stage\<rparr>" using assms(3) by (simp add: res_simps)
  moreover obtain st where "stage_for_running \<lparr>state = ts, extra = Stage\<rparr> (creator ts) f = Ok st" "st_task_id st = task_id ts"
    by (simp add: stage_for_running_def has_creator_def)
  ultimately show ?thesis
    using assms(5-7) read_held [OF assms(1) libs_ok_impls(5) [OF assms(1)] assms(2)]
      read_held [OF assms(1) libs_ok_impls(2) [OF assms(1)] assms(4)]
    by (simp add: invoke_load_def bind_op_def return_op_def or_deny_def read_or_deny_def map_err_op_def permit_def
        has_creator_def)
qed

lemma invoke_task_refused:
  assumes "libs_ok L" "holds L (S_task L) s ts" "Staged \<le> status ts" "holds L (S_function L) s f"
    "function_id ts = external_id_of (S_function L) f" "message req = external_id_of (S_task L) ts"
    "get_request_user_id (metadata req) = Ok (creator ts)"
  shows "fst (invoke_task ideal_client L req s) = Err (mgmt_error PermissionDenied)"
proof -
  have "\<exists>e. Stage_try_from ts = Err e"
    using assms(3) by (cases "status ts") (simp_all add: Stage_try_from_def less_eq_task_status_def)
  then show ?thesis
    using assms(5-7) read_held [OF assms(1) libs_ok_impls(5) [OF assms(1)] assms(2)]
      read_held [OF assms(1) libs_ok_impls(2) [OF assms(1)] assms(4)]
    by (auto simp: invoke_task_def bind_op_def return_op_def or_deny_def read_or_deny_def map_err_op_def permit_def
        has_creator_def)
qed

end
