(* ===== verification/System_Access.thy ===== *)
theory System_Access
  imports Interleaving
begin

text \<open>
  The outcomes of the handlers of the management service on a typed store, as
  exact conditions: which objects a request may see or use, and what a request
  that is served writes.  The lemmas are stated on \<open>kv_inv\<close>, which holds of every
  reachable store.
\<close>

section \<open>Reads\<close>

lemma wp_OkD: "wp m Q s \<Longrightarrow> m s = (r, s') \<Longrightarrow> Q r s'"
  by (simp add: wp_def)

lemma read_input_iff:
  assumes "libs_ok L" "kv_inv L s"
  shows "read_from_db ideal_client L (S_input L) k s = (Ok x, s') \<longleftrightarrow>
    s' = s \<and> holds L (S_input L) s x \<and> k = external_id_of (S_input L) x" (is "?l \<longleftrightarrow> ?r")
proof
  have "wp (read_from_db ideal_client L (S_input L) k)
      (\<lambda>r s'. \<forall>x. r = Ok x \<longrightarrow> s' = s \<and> holds L (S_input L) s x \<and> k = external_id_of (S_input L) x) s"
    by (rule wp_read_input [OF assms]) auto
  then show "?l \<Longrightarrow> ?r" by (auto dest: wp_OkD)
qed (use read_held [OF assms(1)] libs_ok_impls [OF assms(1)] in auto)

lemma read_output_iff:
  assumes "libs_ok L" "kv_inv L s"
  shows "read_from_db ideal_client L (S_output L) k s = (Ok x, s') \<longleftrightarrow>
    s' = s \<and> holds L (S_output L) s x \<and> k = external_id_of (S_output L) x" (is "?l \<longleftrightarrow> ?r")
proof
  have "wp (read_from_db ideal_client L (S_output L) k)
      (\<lambda>r s'. \<forall>x. r = Ok x \<longrightarrow> s' = s \<and> holds L (S_output L) s x \<and> k = external_id_of (S_output L) x) s"
    by (rule wp_read_output [OF assms]) auto
  then show "?l \<Longrightarrow> ?r" by (auto dest: wp_OkD)
qed (use read_held [OF assms(1)] libs_ok_impls [OF assms(1)] in auto)

lemma read_function_iff:
  assumes "libs_ok L" "kv_inv L s"
  shows "read_from_db ideal_client L (S_function L) k s = (Ok x, s') \<longleftrightarrow>
    s' = s \<and> holds L (S_function L) s x \<and> k = external_id_of (S_function L) x" (is "?l \<longleftrightarrow> ?r")
proof
  have "wp (read_from_db ideal_client L (S_function L) k)
      (\<lambda>r s'. \<forall>x. r = Ok x \<longrightarrow> s' = s \<and> holds L (S_function L) s x \<and> k = external_id_of (S_function L) x) s"
    by (rule wp_read_function [OF assms]) auto
  then show "?l \<Longrightarrow> ?r" by (auto dest: wp_OkD)
qed (use read_held [OF assms(1)] libs_ok_impls [OF assms(1)] in auto)

lemma read_task_iff:
  assumes "libs_ok L" "kv_inv L s"
  shows "read_from_db ideal_client L (S_task L) k s = (Ok x, s') \<longleftrightarrow>
    s' = s \<and> holds L (S_task L) s x \<and> k = external_id_of (S_task L) x" (is "?l \<longleftrightarrow> ?r")
proof
  have "wp (read_from_db ideal_client L (S_task L) k)
      (\<lambda>r s'. \<forall>x. r = Ok x \<longrightarrow> s' = s \<and> holds L (S_task L) s x \<and> k = external_id_of (S_task L) x) s"
    by (rule wp_read_task [OF assms]) auto
  then show "?l \<Longrightarrow> ?r" by (auto dest: wp_OkD)
qed (use read_held [OF assms(1)] libs_ok_impls [OF assms(1)] in auto)

text \<open>A sequence of operations succeeds when each of them does.\<close>

lemma bind_op_Ok:
  "bind_op m f s = (Ok y, s') \<longleftrightarrow> (\<exists>x s1. m s = (Ok x, s1) \<and> f x s1 = (Ok y, s'))"
  by (auto simp: bind_op_def split: prod.splits result.splits)

lemma return_op_Ok: "return_op r s = (Ok y, s') \<longleftrightarrow> r = Ok y \<and> s' = s"
  by (auto simp: return_op_def)

lemma read_or_deny_Ok:
  "read_or_deny C L S k s = (Ok x, s') \<longleftrightarrow> read_from_db C L S k s = (Ok x, s')"
  by (auto simp: read_or_deny_def map_err_op_def map_err_def split: prod.splits result.splits)

lemma permit_Ok: "permit c s = (Ok y, s') \<longleftrightarrow> c \<and> s' = s"
  by (auto simp: permit_def return_op_def ensure_def)

lemma or_deny_Ok: "or_deny r s = (Ok y, s') \<longleftrightarrow> r = Ok y \<and> s' = s"
  by (auto simp: or_deny_def return_op_def map_err_def split: result.splits)

lemma write_Ok: "impl_ok S \<Longrightarrow> write_or_fail ideal_client L S x s = (Ok y, s') \<longleftrightarrow> s' = put_obj L S x s"
  by (auto simp: write_ideal)

lemmas op_Ok_simps = bind_op_Ok return_op_Ok read_or_deny_Ok permit_Ok or_deny_Ok Let_def

section \<open>Assigning data\<close>

text \<open>The stored files that the entries of a request name.\<close>

definition files_named ::
    "'v libs \<Rightarrow> ('a, 'v) storable_impl \<Rightarrow> 'v store \<Rightarrow> (string \<times> external_id) list \<Rightarrow> (string \<times> 'a) list \<Rightarrow> bool" where
  "files_named L S s = list_all2 (\<lambda>(n, k) (n', f). n = n' \<and> holds L S s f \<and> k = external_id_of S f)"

lemma files_named_Nil [simp]: "files_named L S s [] fs \<longleftrightarrow> fs = []"
  by (simp add: files_named_def)

lemma files_named_Cons [simp]:
  "files_named L S s ((n, k) # ins) fs \<longleftrightarrow>
   (\<exists>f fs'. fs = (n, f) # fs' \<and> holds L S s f \<and> k = external_id_of S f \<and> files_named L S s ins fs')"
  by (auto simp: files_named_def list_all2_Cons1)

lemma ex_files_named_Cons:
  "(\<exists>fs. files_named L S s ((n, k) # ins) fs \<and> P fs) \<longleftrightarrow>
   (\<exists>f fs'. holds L S s f \<and> k = external_id_of S f \<and> files_named L S s ins fs' \<and> P ((n, f) # fs'))"
  by auto

lemma assign_data_inputs_Ok:
  assumes "libs_ok L" "kv_inv L s"
  shows "assign_data_inputs ideal_client L u t ins s = (Ok t', s') \<longleftrightarrow>
    s' = s \<and> (\<exists>fs. files_named L (S_input L) s ins fs \<and> assign_inputs u t fs = Ok t')"
proof (induction ins arbitrary: t)
  case (Cons a ins)
  obtain n k where a: "a = (n, k)" by fastforce
  have "assign_data_inputs ideal_client L u t (a # ins) s = (Ok t', s') \<longleftrightarrow>
      (\<exists>f t1. holds L (S_input L) s f \<and> k = external_id_of (S_input L) f \<and> assign_input t u n f = Ok t1 \<and>
         assign_data_inputs ideal_client L u t1 ins s = (Ok t', s'))"
    by (simp add: a op_Ok_simps read_input_iff [OF assms])
  moreover have "(\<exists>fs. files_named L (S_input L) s (a # ins) fs \<and> assign_inputs u t fs = Ok t') \<longleftrightarrow>
      (\<exists>f t1. holds L (S_input L) s f \<and> k = external_id_of (S_input L) f \<and> assign_input t u n f = Ok t1 \<and>
         (\<exists>fs. files_named L (S_input L) s ins fs \<and> assign_inputs u t1 fs = Ok t'))"
    unfolding a ex_files_named_Cons by (simp only: assign_inputs.simps bind_result_Ok_iff) blast
  ultimately show ?case by (simp only: Cons) metis
qed (auto simp: return_op_Ok)

lemma assign_data_outputs_Ok:
  assumes "libs_ok L" "kv_inv L s"
  shows "assign_data_outputs ideal_client L u t outs s = (Ok t', s') \<longleftrightarrow>
    s' = s \<and> (\<exists>fs. files_named L (S_output L) s outs fs \<and> assign_outputs u t fs = Ok t')"
proof (induction outs arbitrary: t)
  case (Cons a outs)
  obtain n k where a: "a = (n, k)" by fastforce
  have "assign_data_outputs ideal_client L u t (a # outs) s = (Ok t', s') \<longleftrightarrow>
      (\<exists>f t1. holds L (S_output L) s f \<and> k = external_id_of (S_output L) f \<and> assign_output t u n f = Ok t1 \<and>
         assign_data_outputs ideal_client L u t1 outs s = (Ok t', s'))"
    by (simp add: a op_Ok_simps read_output_iff [OF assms])
  moreover have "(\<exists>fs. files_named L (S_output L) s (a # outs) fs \<and> assign_outputs u t fs = Ok t') \<longleftrightarrow>
      (\<exists>f t1. holds L (S_output L) s f \<and> k = external_id_of (S_output L) f \<and> assign_output t u n f = Ok t1 \<and>
         (\<exists>fs. files_named L (S_output L) s outs fs \<and> assign_outputs u t1 fs = Ok t'))"
    unfolding a ex_files_named_Cons by (simp only: assign_outputs.simps bind_result_Ok_iff) blast
  ultimately show ?case by (simp only: Cons) metis
qed (auto simp: return_op_Ok)

text \<open>The loops over the files, as one update of the table they assign to.\<close>

abbreviation fm_add_all :: "('k \<times> 'f) list \<Rightarrow> ('k, 'f) fmap \<Rightarrow> ('k, 'f) fmap" where
  "fm_add_all fs m \<equiv> fold (\<lambda>(n, f). fmupd n f) fs m"

lemma unassigned_fmupd:
  "(\<forall>(n', f') \<in> set fs. P n' f' \<and> Q n' f' \<and> (if n = n' then Some f else fmlookup m n') = None) \<longleftrightarrow>
   n \<notin> fst ` set fs \<and> (\<forall>(n', f') \<in> set fs. P n' f' \<and> Q n' f' \<and> fmlookup m n' = None)"
  by (induction fs) (auto split: if_splits)

lemma assign_inputs_Ok:
  "assign_inputs u t fs = Ok t' \<longleftrightarrow>
   distinct (map fst fs) \<and>
   (\<forall>(n, f) \<in> set fs. u |\<in>| in_owner f \<and> fmlookup (inputs_ownership (state t)) n = Some (in_owner f) \<and>
      fmlookup (assigned_inputs (state t)) n = None) \<and>
   t' = t\<lparr>state := (state t)\<lparr>assigned_inputs := fm_add_all fs (assigned_inputs (state t))\<rparr>\<rparr>"
proof (induction fs arbitrary: t)
  case (Cons a fs)
  obtain n f where a: "a = (n, f)" by fastforce
  show ?case unfolding a by (simp add: bind_result_Ok_iff assign_input_Ok Cons.IH unassigned_fmupd) blast
qed auto

lemma assign_outputs_Ok:
  "assign_outputs u t fs = Ok t' \<longleftrightarrow>
   distinct (map fst fs) \<and>
   (\<forall>(n, f) \<in> set fs. u |\<in>| out_owner f \<and> fmlookup (outputs_ownership (state t)) n = Some (out_owner f) \<and>
      fmlookup (assigned_outputs (state t)) n = None) \<and>
   t' = t\<lparr>state := (state t)\<lparr>assigned_outputs := fm_add_all fs (assigned_outputs (state t))\<rparr>\<rparr>"
proof (induction fs arbitrary: t)
  case (Cons a fs)
  obtain n f where a: "a = (n, f)" by fastforce
  show ?case unfolding a by (simp add: bind_result_Ok_iff assign_output_Ok Cons.IH unassigned_fmupd) blast
qed auto

section \<open>No panics\<close>

text \<open>Reads and writes of a typed store return, and the conversions between them do not panic.\<close>

lemma wp_pull_no_panic:
  assumes "libs_ok L" "store_inv L s"
  shows "wp (pull_task ideal_client L) (\<lambda>r s'. r \<noteq> Panic) s"
proof (cases "queues s (into_bytes QUEUE_KEY)")
  case (Cons v vs)
  with assms(2) have "staged_entry L s v" by (simp add: store_inv_def)
  then obtain st where "from_slice (S_staged L) v = Ok st" using staged_entry_id [OF assms(1)] by metis
  with Cons show ?thesis
    by (simp add: wp_def pull_task_def pull_staged_task_def bind_op_def return_op_def lock_op_def ideal_client_def)
qed (simp add: wp_def pull_task_def pull_staged_task_def bind_op_def return_op_def lock_op_def ideal_client_def)

lemma get_request_user_id_no_panic [simp]: "get_request_user_id m \<noteq> Panic"
  using get_request_user_id_cases [of m] by auto

lemma InputFile_from_output_no_panic [simp]: "InputFile_from_output f \<noteq> Panic"
  by (simp add: InputFile_from_output_def res_simps)

lemma create_fusion_data_no_panic [simp]: "create_fusion_data L owners uu k u \<noteq> Panic"
  by (auto simp: create_fusion_data_def res_simps split: option.splits)

lemmas no_panic_simps = wp_handler_simps map_err_def map_ok_def bind_result_def

lemma data_calls_no_panic:
  assumes "libs_ok L" "kv_inv L s"
  shows "wp (register_input_file ideal_client L u r1) (\<lambda>r s'. r \<noteq> Panic) s"
    "wp (update_input_file ideal_client L u r2) (\<lambda>r s'. r \<noteq> Panic) s"
    "wp (register_output_file ideal_client L u r3) (\<lambda>r s'. r \<noteq> Panic) s"
    "wp (update_output_file ideal_client L u r4) (\<lambda>r s'. r \<noteq> Panic) s"
    "wp (register_fusion_output ideal_client L uu k u r5) (\<lambda>r s'. r \<noteq> Panic) s"
    "wp (register_input_from_output ideal_client L r6) (\<lambda>r s'. r \<noteq> Panic) s"
    "wp (get_output_file ideal_client L r6) (\<lambda>r s'. r \<noteq> Panic) s"
    "wp (get_input_file ideal_client L r6) (\<lambda>r s'. r \<noteq> Panic) s"
  using libs_ok_impls [OF assms(1)] assms
  unfolding register_input_file_def update_input_file_def register_output_file_def update_output_file_def
    register_fusion_output_def register_input_from_output_def get_output_file_def get_input_file_def
  by (auto simp: no_panic_simps intro!: wp_reads split: result.splits)

lemma task_calls_no_panic:
  assumes "libs_ok L" "kv_inv L s"
  shows "wp (register_function ideal_client L u r1) (\<lambda>r s'. r \<noteq> Panic) s"
    "wp (get_function ideal_client L r2) (\<lambda>r s'. r \<noteq> Panic) s"
    "wp (create_task ideal_client L u r3) (\<lambda>r s'. r \<noteq> Panic) s"
    "wp (get_task ideal_client L r2) (\<lambda>r s'. r \<noteq> Panic) s"
    "wp (assign_data ideal_client L r4) (\<lambda>r s'. r \<noteq> Panic) s"
    "wp (approve_task ideal_client L r2) (\<lambda>r s'. r \<noteq> Panic) s"
    "wp (invoke_task ideal_client L r2) (\<lambda>r s'. r \<noteq> Panic) s"
  using libs_ok_impls [OF assms(1)] assms
  unfolding register_function_def get_function_def create_task_def get_task_def assign_data_def approve_task_def
    invoke_task_def
  by (auto simp: no_panic_simps intro!: wp_reads wp_assign_data_inputs wp_assign_data_outputs split: result.splits)

lemma scheduler_calls_no_panic:
  assumes "libs_ok L" "kv_inv L s"
  shows "wp (update_task_status ideal_client L r1) (\<lambda>r s'. r \<noteq> Panic) s"
    "wp (update_task_result ideal_client L iter r2) (\<lambda>r s'. r \<noteq> Panic) s"
  using libs_ok_impls [OF assms(1)] assms
  unfolding update_task_status_def update_task_result_def
  by (auto simp: get_task_state_read no_panic_simps wp_put update_result_def
      intro!: wp_read_task wp_update_output_cmacs split: result.splits task_result.splits)

lemma void_no_panic: "wp m (\<lambda>r s'. r \<noteq> Panic) s \<Longrightarrow> wp (void_op m) (\<lambda>r s'. r \<noteq> Panic) s"
  by (auto simp: wp_def void_op_def bind_op_def return_op_def split: prod.splits result.splits)

lemma system_call_no_panic:
  assumes "libs_ok L" "store_inv L s"
  shows "wp (system_call_op ideal_client L iter c) (\<lambda>r s'. r \<noteq> Panic) s"
proof -
  note kv = store_inv_kv_inv [OF assms(2)]
  show ?thesis
    using data_calls_no_panic [OF assms(1) kv] task_calls_no_panic [OF assms(1) kv]
      scheduler_calls_no_panic [OF assms(1) kv] wp_pull_no_panic [OF assms]
    by (cases c) (simp_all add: void_no_panic)
qed

section \<open>Reporting a result\<close>

lemma update_output_cmacs_blocked:
  assumes "libs_ok L"
  shows "(n, a) \<in> set tags \<Longrightarrow> fmlookup (assigned_outputs (state t)) n = Some f \<Longrightarrow> out_cmac f = Some c \<Longrightarrow>
    \<exists>e outs. update_output_cmacs ideal_client L t tags s = (Err e, put_outputs L outs s)"
proof (induction tags arbitrary: t s)
  case (Cons x tags)
  obtain m b where x: "x = (m, b)" by fastforce
  show ?case
  proof (cases "update_output_cmac t m b")
    case (Ok r)
    obtain t1 g where r: "r = (t1, g)" by fastforce
    with Ok Cons.prems have "(n, a) \<in> set tags" "fmlookup (assigned_outputs (state t1)) n = Some f"
      by (auto simp: x res_simps)
    from Cons.IH [OF this Cons.prems(3), of "put_obj L (S_output L) g s"]
    obtain e outs where "update_output_cmacs ideal_client L t1 tags (put_obj L (S_output L) g s) =
        (Err e, put_outputs L outs (put_obj L (S_output L) g s))" by blast
    then show ?thesis
      using Ok r put_ideal [OF libs_ok_impls(4) [OF assms]]
      by (intro exI [of _ e] exI [of _ "g # outs"]) (simp add: x bind_op_def return_op_def put_outputs_def)
  next
    case (Err e)
    then show ?thesis
      by (intro exI [of _ e] exI [of _ "[]"]) (simp add: x bind_op_def return_op_def put_outputs_def)
  qed simp
qed simp

lemma update_task_result_blocked:
  assumes "libs_ok L" "holds L (S_task L) s ts" "utr_task_id (message req) = task_id ts" "status ts = Running"
    "utr_task_result (message req) = TaskOk outs" "(n, a) \<in> set (iter (tags_map outs))"
    "fmlookup (assigned_outputs ts) n = Some f" "out_cmac f = Some c"
  shows "\<exists>e s'. update_task_result ideal_client L iter req s = (Err e, s') \<and> holds L (S_task L) s' ts"
proof -
  have fin: "Finish_try_from ts = Ok \<lparr>state = ts, extra = Finish\<rparr>" using assms(4) by (simp add: res_simps)
  obtain e fs where "update_output_cmacs ideal_client L \<lparr>state = ts, extra = Finish\<rparr> (iter (tags_map outs)) s =
      (Err e, put_outputs L fs s)"
    using update_output_cmacs_blocked [OF assms(1,6), of "\<lparr>state = ts, extra = Finish\<rparr>" f c s] assms(7,8) by auto
  then show ?thesis
    using get_task_state_held [OF assms(1,2)] assms(2,3,5) fin
    by (simp add: update_task_result_def bind_op_def map_err_op_def return_op_def Let_def put_outputs_holds_task
        libs_ok_impls(1) [OF assms(1)])
qed

section \<open>Requests that are served\<close>

lemma get_input_file_Ok:
  assumes "libs_ok L" "kv_inv L s"
  shows "get_input_file ideal_client L req s = (Ok x, s') \<longleftrightarrow> s' = s \<and>
      (\<exists>u f. get_request_user_id (metadata req) = Ok u \<and> holds L (S_input L) s f \<and>
         message req = external_id_of (S_input L) f \<and> u |\<in>| in_owner f \<and>
         x = \<lparr>gif_owner = in_owner f, gif_cmac = in_cmac f\<rparr>)"
  by (auto simp: get_input_file_def op_Ok_simps read_input_iff [OF assms] OwnerList_contains_def)

lemma get_output_file_Ok:
  assumes "libs_ok L" "kv_inv L s"
  shows "get_output_file ideal_client L req s = (Ok x, s') \<longleftrightarrow> s' = s \<and>
      (\<exists>u f. get_request_user_id (metadata req) = Ok u \<and> holds L (S_output L) s f \<and>
         message req = external_id_of (S_output L) f \<and> u |\<in>| out_owner f \<and>
         x = \<lparr>gof_owner = out_owner f, gof_cmac = out_cmac f\<rparr>)"
  by (auto simp: get_output_file_def op_Ok_simps read_output_iff [OF assms] OwnerList_contains_def)

lemma get_function_Ok:
  assumes "libs_ok L" "kv_inv L s"
  shows "(\<exists>x. get_function ideal_client L req s = (Ok x, s')) \<longleftrightarrow> s' = s \<and>
      (\<exists>u f. get_request_user_id (metadata req) = Ok u \<and> holds L (S_function L) s f \<and>
         message req = external_id_of (S_function L) f \<and> (fn_public f \<or> fn_owner f = u))"
  by (auto simp: get_function_def op_Ok_simps read_function_iff [OF assms])

lemma get_task_Ok:
  assumes "libs_ok L" "kv_inv L s"
  shows "(\<exists>x. get_task ideal_client L req s = (Ok x, s')) \<longleftrightarrow> s' = s \<and>
      (\<exists>u ts. get_request_user_id (metadata req) = Ok u \<and> holds L (S_task L) s ts \<and>
         message req = external_id_of (S_task L) ts \<and> u |\<in>| participants ts)"
  by (auto simp: get_task_def op_Ok_simps read_task_iff [OF assms] has_participant_def OwnerList_contains_def)

lemma update_input_file_Ok:
  assumes "libs_ok L" "kv_inv L s"
  shows "update_input_file ideal_client L fresh req s = (Ok k, s') \<longleftrightarrow>
      (\<exists>u old f. get_request_user_id (metadata req) = Ok u \<and> holds L (S_input L) s old \<and>
         uif_data_id (message req) = external_id_of (S_input L) old \<and> in_owner old = {|u|} \<and>
         f = \<lparr>in_url = uif_url (message req), in_cmac = in_cmac old, in_crypto = in_crypto old,
              in_owner = in_owner old, in_uuid = fresh\<rparr> \<and>
         k = external_id_of (S_input L) f \<and> s' = put_obj L (S_input L) f s)"
  by (auto simp: update_input_file_def op_Ok_simps read_input_iff [OF assms] InputFile_new_def OwnerList_new_def
      write_Ok [OF libs_ok_impls(3) [OF assms(1)]])

lemma register_input_from_output_Ok:
  assumes "libs_ok L" "kv_inv L s"
  shows "register_input_from_output ideal_client L req s = (Ok k, s') \<longleftrightarrow>
      (\<exists>u out c f. get_request_user_id (metadata req) = Ok u \<and> holds L (S_output L) s out \<and>
         message req = external_id_of (S_output L) out \<and> u |\<in>| out_owner out \<and> out_cmac out = Some c \<and>
         f = \<lparr>in_url = out_url out, in_cmac = c, in_crypto = out_crypto out,
              in_owner = out_owner out, in_uuid = out_uuid out\<rparr> \<and>
         k = external_id_of (S_input L) f \<and> s' = put_obj L (S_input L) f s)"
  by (simp add: register_input_from_output_def op_Ok_simps read_output_iff [OF assms] OwnerList_contains_def
      write_Ok [OF libs_ok_impls(3) [OF assms(1)]])
    (simp only: InputFile_from_output_Ok, blast)

section \<open>The queue and the approvals\<close>

lemma pulled_entry:
  assumes "libs_ok L" "store_inv L s" "pull_task ideal_client L s = (Ok st, s')"
  shows "\<exists>ts. holds L (S_task L) s ts \<and> Staged \<le> status ts \<and> staged_from L s ts st"
proof -
  from assms(3) obtain v vs where q: "queues s (into_bytes QUEUE_KEY) = v # vs" "from_slice (S_staged L) v = Ok st"
    by (auto simp: pull_task_def pull_staged_task_def bind_op_def return_op_def lock_op_def ideal_client_def
        res_simps split: list.splits)
  with assms(2) have "staged_entry L s v" by (simp add: store_inv_def)
  then obtain st' ts where "v = enc (S_staged L) st'" "holds L (S_task L) s ts" "Staged \<le> status ts" "staged_from L s ts st'"
    by (auto simp: staged_entry_def)
  with q(2) assms(1) show ?thesis by (auto simp: from_slice_enc libs_ok_impls)
qed

lemma staged_consent:
  assumes "task_inv ts" "Staged \<le> status ts" "fcard (participants ts) \<noteq> 1"
  shows "approved_users ts = participants ts"
  using assms by (cases "status ts") (auto simp: task_inv_def everyone_approved_def OwnerList_len_def less_eq_task_status_def)

lemma owners_participate:
  assumes "task_inv ts"
  shows "fmlookup (assigned_inputs ts) n = Some f \<Longrightarrow> in_owner f |\<subseteq>| participants ts"
    and "fmlookup (assigned_outputs ts) m = Some g \<Longrightarrow> out_owner g |\<subseteq>| participants ts"
  using assms by (fastforce simp: task_inv_def files_owned_def in_all_owners_iff fsubset_iff)+

lemma empty_store_inv: "store_inv L empty_store"
  by (simp add: store_inv_def empty_store_def queue_task_ids_def)

lemma call_approvals_iff:
  "(i, u) \<in> call_approvals c \<longleftrightarrow>
   (\<exists>r. c = ApproveTaskCall r \<and> ext_uuid (message r) = i \<and> get_request_user_id (metadata r) = Ok u)"
  by (cases c) auto

end
