(* ===== verification/Ldb_Keys.thy ===== *)
theory Ldb_Keys
  imports Prelude "HOL-Library.List_Lexorder" "HOL-Library.Product_Lexorder"
begin

unbundle bit_operations_syntax

text \<open>
  The key formats of the database, \<^verbatim>\<open>key_types.rs\<close>, and its comparators,
  \<^verbatim>\<open>cmp.rs\<close>.  The crate \<^verbatim>\<open>integer_encoding\<close> is the record \<open>int_enc\<close>, and
  \<open>int_enc_ok\<close> is what the code relies on: a variable-length number is read back
  in front of any bytes, together with its length, and a fixed-size number is
  read back from its bytes, where the number 0 is all zero bytes.

  Slicing out of range and failed assertions are \<open>Panic\<close>.  The locale
  \<open>key_order\<close> is what the clients of a comparator rely on: on well-formed keys it
  decides a linear order of sort keys.  It is interpreted for the three
  comparators of the source.
\<close>

section \<open>Errors and slices\<close>

datatype status_code =
    StatusOK | AlreadyExists | Corruption | CompressionError | IOError | InvalidArgument | InvalidData
  | LockError | NotFound | NotSupported | PermissionDeniedCode | Unknown | Errno int

record status =
  st_code :: status_code
  st_err :: string

type_synonym 'a ldb = "('a, status) result"

definition slice :: "nat \<Rightarrow> nat \<Rightarrow> 'b list \<Rightarrow> 'b list ldb" where
  "slice i j xs = (if i \<le> j \<and> j \<le> length xs then Ok (take (j - i) (drop i xs)) else Panic)"

lemma slice_mid [simp]:
  "i = length a \<Longrightarrow> j = length a + length b \<Longrightarrow> slice i j (a @ b @ c) = Ok b"
  by (simp add: slice_def)

section \<open>The integer encoding crate\<close>

record int_enc =
  encode_var :: "nat \<Rightarrow> bytes"
  decode_var :: "bytes \<Rightarrow> nat \<times> nat"
  required_space :: "nat \<Rightarrow> nat"
  encode_fixed64 :: "u64 \<Rightarrow> bytes"
  decode_fixed64 :: "bytes \<Rightarrow> u64"
  encode_fixed32 :: "u32 \<Rightarrow> bytes"
  decode_fixed32 :: "bytes \<Rightarrow> u32"
  encode_fixed16 :: "16 word \<Rightarrow> bytes"
  decode_fixed16 :: "bytes \<Rightarrow> 16 word"

definition int_enc_ok :: "int_enc \<Rightarrow> bool" where
  "int_enc_ok I \<longleftrightarrow>
     (\<forall>n rest. decode_var I (encode_var I n @ rest) = (n, length (encode_var I n))) \<and>
     (\<forall>n. required_space I n = length (encode_var I n) \<and> 0 < length (encode_var I n)) \<and>
     (\<forall>n < 2 ^ 64. length (encode_var I n) \<le> 10) \<and>
     (\<forall>w. length (encode_fixed64 I w) = 8 \<and> decode_fixed64 I (encode_fixed64 I w) = w) \<and>
     (\<forall>w. length (encode_fixed32 I w) = 4 \<and> decode_fixed32 I (encode_fixed32 I w) = w) \<and>
     (\<forall>w. length (encode_fixed16 I w) = 2 \<and> decode_fixed16 I (encode_fixed16 I w) = w) \<and>
     encode_fixed32 I 0 = replicate 4 0"

section \<open>Key types\<close>

datatype value_type = TypeDeletion | TypeValue

fun value_type_num :: "value_type \<Rightarrow> u64" where
  "value_type_num TypeDeletion = 0"
| "value_type_num TypeValue = 1"

definition MAX_SEQUENCE_NUMBER :: u64 where
  "MAX_SEQUENCE_NUMBER = push_bit 56 1 - 1"

definition U64_SPACE :: nat where
  "U64_SPACE = 8"

record lookup_key =
  lk_key :: bytes
  lk_offset :: nat

text \<open>Writing past the end of the buffer stops silently; what is not written stays zero.\<close>

definition LookupKey_new_full :: "int_enc \<Rightarrow> bytes \<Rightarrow> u64 \<Rightarrow> value_type \<Rightarrow> lookup_key" where
  "LookupKey_new_full I k s t =
     (let internal_keylen = length k + U64_SPACE;
          size = length k + required_space I internal_keylen + U64_SPACE;
          written = encode_var I internal_keylen @ k @ encode_fixed64 I (push_bit 8 s OR value_type_num t)
      in \<lparr>lk_key = take size (written @ replicate size 0), lk_offset = required_space I internal_keylen\<rparr>)"

definition LookupKey_new :: "int_enc \<Rightarrow> bytes \<Rightarrow> u64 \<Rightarrow> lookup_key" where
  "LookupKey_new I k s = LookupKey_new_full I k s TypeValue"

definition memtable_key :: "lookup_key \<Rightarrow> bytes" where
  "memtable_key lk = lk_key lk"

definition user_key :: "lookup_key \<Rightarrow> bytes ldb" where
  "user_key lk = (if length (lk_key lk) < 8 then Panic else slice (lk_offset lk) (length (lk_key lk) - 8) (lk_key lk))"

definition internal_key :: "lookup_key \<Rightarrow> bytes ldb" where
  "internal_key lk = slice (lk_offset lk) (length (lk_key lk)) (lk_key lk)"

definition parse_tag :: "u64 \<Rightarrow> value_type \<times> u64" where
  "parse_tag tag =
     (let sq = drop_bit 8 tag; typ = tag AND 0xFF in
      if typ = 0 then (TypeDeletion, sq) else if typ = 1 then (TypeValue, sq) else (TypeValue, sq))"

definition build_memtable_key :: "int_enc \<Rightarrow> bytes \<Rightarrow> bytes \<Rightarrow> value_type \<Rightarrow> u64 \<Rightarrow> bytes ldb" where
  "build_memtable_key I key v t sq =
     (let keysize = length key + U64_SPACE;
          valsize = length v;
          size = keysize + valsize + required_space I keysize + required_space I valsize;
          written = encode_var I keysize @ key @ encode_fixed64 I (value_type_num t OR push_bit 8 sq) @
            encode_var I valsize @ v
      in if length written < size then Panic else Ok (take size written))"

text \<open>
  \<^verbatim>\<open>keylen - 8\<close> panics on a length below 8 (the check of arithmetic overflow).
\<close>

definition parse_memtable_key :: "int_enc \<Rightarrow> bytes \<Rightarrow> (nat \<times> nat \<times> u64 \<times> nat \<times> nat) ldb" where
  "parse_memtable_key I mkey =
     (case decode_var I mkey of (keylen, keyoff) \<Rightarrow>
      if keylen < 8 then Panic else
      let i = keyoff + (keylen - 8) in
      if length mkey > i then
        bind_result (slice i (i + 8) mkey) (\<lambda>t.
        bind_result (slice (i + 8) (length mkey) mkey) (\<lambda>rest.
        case decode_var I rest of (vallen, j) \<Rightarrow>
          Ok (keylen - 8, keyoff, decode_fixed64 I t, vallen, i + 8 + j)))
      else Ok (keylen - 8, keyoff, 0, 0, 0))"

section \<open>Comparators\<close>

datatype ordering = Less | Equal | Greater

type_synonym cmp = "bytes \<Rightarrow> bytes \<Rightarrow> ordering ldb"

fun u64_cmp :: "u64 \<Rightarrow> u64 \<Rightarrow> ordering" where
  "u64_cmp a b = (if a < b then Less else if a = b then Equal else Greater)"

text \<open>The order of byte slices.\<close>

fun cmp_bytes :: "bytes \<Rightarrow> bytes \<Rightarrow> ordering" where
  "cmp_bytes [] [] = Equal"
| "cmp_bytes [] (y # ys) = Less"
| "cmp_bytes (x # xs) [] = Greater"
| "cmp_bytes (x # xs) (y # ys) = (if x < y then Less else if y < x then Greater else cmp_bytes xs ys)"

definition DefaultCmp_cmp :: cmp where
  "DefaultCmp_cmp a b = Ok (cmp_bytes a b)"

definition cmp_memtable_key :: "int_enc \<Rightarrow> cmp \<Rightarrow> cmp" where
  "cmp_memtable_key I ucmp a b =
     (case decode_var I a of (alen, aoff) \<Rightarrow> case decode_var I b of (blen, boff) \<Rightarrow>
      if aoff + alen < 8 \<or> boff + blen < 8 then Panic else
      bind_result (slice aoff (aoff + alen - 8) a) (\<lambda>userkey_a.
      bind_result (slice boff (boff + blen - 8) b) (\<lambda>userkey_b.
      bind_result (ucmp userkey_a userkey_b) (\<lambda>ord.
      case ord of
        Less \<Rightarrow> Ok Less
      | Greater \<Rightarrow> Ok Greater
      | Equal \<Rightarrow>
          bind_result (slice (aoff + alen - 8) (aoff + alen) a) (\<lambda>at.
          bind_result (slice (boff + blen - 8) (boff + blen) b) (\<lambda>bt.
          Ok (u64_cmp (snd (parse_tag (decode_fixed64 I bt))) (snd (parse_tag (decode_fixed64 I at))))))))))"

definition parse_internal_key :: "int_enc \<Rightarrow> bytes \<Rightarrow> (value_type \<times> u64 \<times> bytes) ldb" where
  "parse_internal_key I ikey =
     (if ikey = [] then Ok (TypeDeletion, 0, [])
      else if length ikey < 8 then Panic
      else bind_result (slice (length ikey - 8) (length ikey) ikey) (\<lambda>t.
        case parse_tag (decode_fixed64 I t) of (typ, sq) \<Rightarrow>
          Ok (typ, sq, take (length ikey - 8) ikey)))"

definition cmp_internal_key :: "int_enc \<Rightarrow> cmp \<Rightarrow> cmp" where
  "cmp_internal_key I ucmp a b =
     (if length a < 8 \<or> length b < 8 then Panic else
      bind_result (ucmp (take (length a - 8) a) (take (length b - 8) b)) (\<lambda>ord.
      case ord of
        Less \<Rightarrow> Ok Less
      | Greater \<Rightarrow> Ok Greater
      | Equal \<Rightarrow>
          (let seqa = snd (parse_tag (decode_fixed64 I (drop (length a - 8) a)));
               seqb = snd (parse_tag (decode_fixed64 I (drop (length b - 8) b)))
           in Ok (u64_cmp seqb seqa))))"

definition truncate_to_userkey :: "bytes \<Rightarrow> bytes ldb" where
  "truncate_to_userkey ikey = (if length ikey > 8 then Ok (take (length ikey - 8) ikey) else Panic)"

text \<open>\<^verbatim>\<open>InternalKeyCmp\<close> and \<^verbatim>\<open>MemtableKeyCmp\<close> wrap a comparator of user keys.\<close>

definition InternalKeyCmp_cmp :: "int_enc \<Rightarrow> cmp \<Rightarrow> cmp" where
  "InternalKeyCmp_cmp I ucmp = cmp_internal_key I ucmp"

definition cmp_inner :: "cmp \<Rightarrow> cmp" where
  "cmp_inner ucmp a b = ucmp a b"

definition MemtableKeyCmp_cmp :: "int_enc \<Rightarrow> cmp \<Rightarrow> cmp" where
  "MemtableKeyCmp_cmp I ucmp = cmp_memtable_key I ucmp"

section \<open>Separators\<close>

fun first_diff :: "bytes \<Rightarrow> bytes \<Rightarrow> nat" where
  "first_diff (x # xs) (y # ys) = (if x = y then Suc (first_diff xs ys) else 0)"
| "first_diff _ _ = 0"

text \<open>The second loop of \<^verbatim>\<open>find_shortest_sep\<close>: from \<open>d\<close> on, a place where there is room between the bytes.\<close>

function sep_loop :: "bytes \<Rightarrow> bytes \<Rightarrow> nat \<Rightarrow> bytes option ldb" where
  "sep_loop a b d =
     (if d < min (length a) (length b) then
        if a ! d < 0xFF \<and> a ! d + 1 < b ! d then
          let sep = (take (d + 1) a)[d := a ! d + 1] in
          if cmp_bytes sep b = Less then Ok (Some sep) else Panic
        else sep_loop a b (d + 1)
      else Ok None)"
  by auto
termination by (relation "measure (\<lambda>(a, b, d). min (length a) (length b) - d)") auto

text \<open>The last byte below 0xff, or the first byte.\<close>

fun last_low :: "bytes \<Rightarrow> nat \<Rightarrow> nat" where
  "last_low sep 0 = 0"
| "last_low sep (Suc i) = (if sep ! Suc i = 0xFF then last_low sep i else Suc i)"

definition find_shortest_sep :: "bytes \<Rightarrow> bytes \<Rightarrow> bytes ldb" where
  "find_shortest_sep a b =
     (if a = b then Ok a
      else bind_result (sep_loop a b (first_diff a b)) (\<lambda>r.
        case r of
          Some sep \<Rightarrow> Ok sep
        | None \<Rightarrow>
            if a = [] then Panic
            else
              (let i = last_low a (length a - 1) in
               if a ! i < 0xFF \<and> cmp_bytes (a[i := a ! i + 1]) b = Less then Ok (a[i := a ! i + 1])
               else Ok (a @ [0]))))"

fun find_short_succ :: "bytes \<Rightarrow> bytes" where
  "find_short_succ [] = [255]"
| "find_short_succ (x # xs) = (if x \<noteq> 0xFF then [x + 1] else x # find_short_succ xs)"

definition InternalKeyCmp_find_shortest_sep :: "int_enc \<Rightarrow> bytes \<Rightarrow> bytes \<Rightarrow> bytes ldb" where
  "InternalKeyCmp_find_shortest_sep I a b =
     (if a = b then Ok a
      else
        bind_result (parse_internal_key I a) (\<lambda>(_, seqa, keya).
        bind_result (parse_internal_key I b) (\<lambda>(_, _, keyb).
        bind_result (find_shortest_sep keya keyb) (\<lambda>sep.
        if length sep < length keya \<and> cmp_bytes keya sep = Less
        then internal_key (LookupKey_new I sep MAX_SEQUENCE_NUMBER)
        else internal_key (LookupKey_new I sep seqa)))))"

definition InternalKeyCmp_find_short_succ :: "int_enc \<Rightarrow> bytes \<Rightarrow> bytes ldb" where
  "InternalKeyCmp_find_short_succ I a =
     bind_result (parse_internal_key I a) (\<lambda>(_, sq, key). internal_key (LookupKey_new I (find_short_succ key) sq))"

section \<open>Tags\<close>

definition seq_ok :: "u64 \<Rightarrow> bool" where
  "seq_ok sq \<longleftrightarrow> unat sq < 2 ^ 56"

lemma seq_bit:
  assumes "seq_ok sq" "bit sq n" shows "n < 56"
proof (rule ccontr)
  assume "\<not> n < 56"
  then have "unat sq < 2 ^ n" using assms(1) unfolding seq_ok_def by (meson less_le_trans not_less one_le_numeral power_increasing)
  then have "\<not> bit (unat sq) n" by (simp add: bit_iff_odd)
  with assms(2) show False by (simp add: bit_unsigned_iff)
qed

definition tag_of :: "value_type \<Rightarrow> u64 \<Rightarrow> u64" where
  "tag_of t sq = value_type_num t OR push_bit 8 sq"

lemma tag_of_commute: "push_bit 8 sq OR value_type_num t = tag_of t sq"
  by (simp add: tag_of_def or.commute)

lemma tag_seq [simp]: "seq_ok sq \<Longrightarrow> drop_bit 8 (tag_of t sq) = sq"
  unfolding tag_of_def by (cases t; rule bit_word_eqI) (auto simp: bit_simps dest: seq_bit)

lemma tag_type [simp]: "tag_of t sq AND 0xFF = value_type_num t"
proof -
  have m: "(0xFF :: u64) = mask 8" by (simp add: mask_eq_exp_minus_1)
  show ?thesis unfolding tag_of_def m by (cases t; rule bit_word_eqI) (auto simp: bit_simps)
qed

lemma parse_tag_of [simp]: "seq_ok sq \<Longrightarrow> parse_tag (tag_of t sq) = (t, sq)"
  by (cases t) (simp_all add: parse_tag_def Let_def)

lemma snd_parse_tag [simp]: "snd (parse_tag w) = drop_bit 8 w"
  by (simp add: parse_tag_def Let_def)

section \<open>The integer encoding, as the code uses it\<close>

lemma decode_encode_var:
  "int_enc_ok I \<Longrightarrow> decode_var I (encode_var I n @ rest) = (n, length (encode_var I n))"
  unfolding int_enc_ok_def by blast

lemma required_space_eq: "int_enc_ok I \<Longrightarrow> required_space I n = length (encode_var I n)"
  unfolding int_enc_ok_def by blast

lemma encode_var_length:
  "int_enc_ok I \<Longrightarrow> n < 2 ^ 64 \<Longrightarrow> 0 < length (encode_var I n) \<and> length (encode_var I n) \<le> 10"
  unfolding int_enc_ok_def by blast

lemma encode_fixed64_length: "int_enc_ok I \<Longrightarrow> length (encode_fixed64 I w) = 8"
  unfolding int_enc_ok_def by blast

lemma decode_encode_fixed64: "int_enc_ok I \<Longrightarrow> decode_fixed64 I (encode_fixed64 I w) = w"
  unfolding int_enc_ok_def by blast

lemma encode_fixed32_length: "int_enc_ok I \<Longrightarrow> length (encode_fixed32 I v) = 4"
  unfolding int_enc_ok_def by blast

lemma decode_encode_fixed32: "int_enc_ok I \<Longrightarrow> decode_fixed32 I (encode_fixed32 I v) = v"
  unfolding int_enc_ok_def by blast

lemma encode_fixed16_length: "int_enc_ok I \<Longrightarrow> length (encode_fixed16 I h) = 2"
  unfolding int_enc_ok_def by blast

lemma decode_encode_fixed16: "int_enc_ok I \<Longrightarrow> decode_fixed16 I (encode_fixed16 I h) = h"
  unfolding int_enc_ok_def by blast

lemma encode_fixed32_zero: "int_enc_ok I \<Longrightarrow> encode_fixed32 I 0 = replicate 4 0"
  unfolding int_enc_ok_def by blast

lemmas int_enc_simps = decode_encode_var required_space_eq encode_fixed64_length decode_encode_fixed64
  encode_fixed32_length decode_encode_fixed32 encode_fixed16_length decode_encode_fixed16

text \<open>The two images of a key in the memtable: with its value, and for a lookup.\<close>

definition mkey_head :: "int_enc \<Rightarrow> bytes \<Rightarrow> u64 \<Rightarrow> bytes" where
  "mkey_head I k w = encode_var I (length k + 8) @ k @ encode_fixed64 I w"

definition mkey_entry :: "int_enc \<Rightarrow> bytes \<Rightarrow> bytes \<Rightarrow> value_type \<Rightarrow> u64 \<Rightarrow> bytes" where
  "mkey_entry I k v t sq = mkey_head I k (tag_of t sq) @ encode_var I (length v) @ v"

lemma build_memtable_key_Ok:
  assumes "int_enc_ok I"
  shows "build_memtable_key I k v t sq = Ok (mkey_entry I k v t sq)"
  using assms
  by (simp add: build_memtable_key_def Let_def U64_SPACE_def mkey_entry_def mkey_head_def int_enc_simps tag_of_def)

lemma LookupKey_new_full_eq:
  assumes "int_enc_ok I"
  shows "LookupKey_new_full I k s t =
    \<lparr>lk_key = mkey_head I k (tag_of t s), lk_offset = length (encode_var I (length k + 8))\<rparr>"
  using assms
  by (simp add: LookupKey_new_full_def Let_def U64_SPACE_def mkey_head_def int_enc_simps tag_of_commute)

lemma LookupKey_new_keys:
  assumes "int_enc_ok I"
  shows "memtable_key (LookupKey_new I k s) = mkey_head I k (tag_of TypeValue s)"
    and "user_key (LookupKey_new I k s) = Ok k"
    and "internal_key (LookupKey_new I k s) = Ok (k @ encode_fixed64 I (tag_of TypeValue s))"
  using assms
  by (simp_all add: LookupKey_new_def LookupKey_new_full_eq memtable_key_def user_key_def internal_key_def
      mkey_head_def int_enc_simps slice_def)

lemma parse_memtable_entry:
  assumes "int_enc_ok I"
  shows "parse_memtable_key I (mkey_entry I k v t sq) =
    Ok (length k, length (encode_var I (length k + 8)), tag_of t sq, length v,
        length (mkey_head I k (tag_of t sq)) + length (encode_var I (length v)))"
  using assms
  by (simp add: parse_memtable_key_def mkey_entry_def mkey_head_def int_enc_simps slice_def Let_def)

lemma entry_slices:
  assumes "int_enc_ok I"
  shows "slice (length (encode_var I (length k + 8))) (length (encode_var I (length k + 8)) + length k)
      (mkey_entry I k v t sq) = Ok k"
    and "slice (length (mkey_head I k (tag_of t sq)) + length (encode_var I (length v)))
      (length (mkey_head I k (tag_of t sq)) + length (encode_var I (length v)) + length v) (mkey_entry I k v t sq) = Ok v"
  by (simp_all add: mkey_entry_def mkey_head_def slice_def)

section \<open>The order contract\<close>

definition ord_of :: "'k::linorder \<Rightarrow> 'k \<Rightarrow> ordering" where
  "ord_of a b = (if a < b then Less else if a = b then Equal else Greater)"

lemma ord_of_simps [simp]:
  "ord_of a b = Less \<longleftrightarrow> a < b" "ord_of a b = Equal \<longleftrightarrow> a = b" "ord_of a b = Greater \<longleftrightarrow> b < a"
  by (auto simp: ord_of_def)

lemma cmp_bytes_ord: "cmp_bytes a b = ord_of a b"
  by (induction a b rule: cmp_bytes.induct) (auto simp: ord_of_def)

locale key_order =
  fixes cmp :: cmp and wf :: "bytes \<Rightarrow> bool" and sort_key :: "bytes \<Rightarrow> 'k::linorder"
  assumes cmp_spec: "wf a \<Longrightarrow> wf b \<Longrightarrow> cmp a b = Ok (ord_of (sort_key a) (sort_key b))"
begin

lemma cmp_no_panic: "wf a \<Longrightarrow> wf b \<Longrightarrow> cmp a b \<noteq> Panic"
  by (simp add: cmp_spec)

lemma cmp_refl: "wf a \<Longrightarrow> cmp a a = Ok Equal"
  by (simp add: cmp_spec ord_of_def)

lemma cmp_Less_trans: "wf a \<Longrightarrow> wf b \<Longrightarrow> wf c \<Longrightarrow> cmp a b = Ok Less \<Longrightarrow> cmp b c = Ok Less \<Longrightarrow> cmp a c = Ok Less"
  by (auto simp: cmp_spec)

end

interpretation dcmp: key_order DefaultCmp_cmp "\<lambda>_. True" "\<lambda>k. k"
  by unfold_locales (simp add: DefaultCmp_cmp_def cmp_bytes_ord)

text \<open>Ties of the user key are broken by the larger sequence number first.\<close>

definition seq_desc :: "u64 \<Rightarrow> int" where
  "seq_desc w = - uint w"

lemma seq_desc_eq [simp]: "seq_desc a = seq_desc b \<longleftrightarrow> a = b"
  by (simp add: seq_desc_def word_uint_eq_iff)

lemma seq_desc_less [simp]: "seq_desc a < seq_desc b \<longleftrightarrow> b < a"
  by (simp add: seq_desc_def word_less_def)

lemma u64_cmp_ord: "u64_cmp b a = ord_of (seq_desc a) (seq_desc b)"
  by (auto simp: ord_of_def)

definition ikey_sort :: "int_enc \<Rightarrow> bytes \<Rightarrow> bytes \<times> int" where
  "ikey_sort I a = (take (length a - 8) a, seq_desc (drop_bit 8 (decode_fixed64 I (drop (length a - 8) a))))"

lemma ord_of_pair: "ord_of (a, b) (c, d) = (if a < c then Less else if c < a then Greater else ord_of b d)"
  by (auto simp: ord_of_def)

interpretation icmp: key_order "InternalKeyCmp_cmp I DefaultCmp_cmp" "\<lambda>a. 8 \<le> length a" "ikey_sort I" for I
proof
  fix a b :: bytes
  assume "8 \<le> length a" "8 \<le> length b"
  then show "InternalKeyCmp_cmp I DefaultCmp_cmp a b = Ok (ord_of (ikey_sort I a) (ikey_sort I b))"
    unfolding InternalKeyCmp_cmp_def cmp_internal_key_def DefaultCmp_cmp_def cmp_bytes_ord
      ikey_sort_def ord_of_pair Let_def snd_parse_tag u64_cmp_ord
    by (auto split: ordering.splits)
qed

definition mkey_wf :: "int_enc \<Rightarrow> bytes \<Rightarrow> bool" where
  "mkey_wf I m \<longleftrightarrow> int_enc_ok I \<and> (\<exists>k w rest. m = mkey_head I k w @ rest)"

definition mkey_sort :: "int_enc \<Rightarrow> bytes \<Rightarrow> bytes \<times> int" where
  "mkey_sort I m = (case decode_var I m of (len, off) \<Rightarrow>
     (take (len - 8) (drop off m), seq_desc (drop_bit 8 (decode_fixed64 I (take 8 (drop (off + len - 8) m))))))"

lemma mkey_sort_head:
  "int_enc_ok I \<Longrightarrow> mkey_sort I (mkey_head I k w @ rest) = (k, seq_desc (drop_bit 8 w))"
  by (simp add: mkey_sort_def mkey_head_def int_enc_simps)

lemma cmp_memtable_key_heads:
  assumes "int_enc_ok I"
  shows "cmp_memtable_key I DefaultCmp_cmp (mkey_head I k w @ rest) (mkey_head I k' w' @ rest') =
    Ok (ord_of (k, seq_desc (drop_bit 8 w)) (k', seq_desc (drop_bit 8 w')))"
  using assms
  by (auto simp: cmp_memtable_key_def mkey_head_def int_enc_simps slice_def DefaultCmp_cmp_def cmp_bytes_ord
      ord_of_pair u64_cmp_ord simp del: u64_cmp.simps split: ordering.splits)

interpretation mcmp: key_order "MemtableKeyCmp_cmp I DefaultCmp_cmp" "mkey_wf I" "mkey_sort I" for I
  by unfold_locales
    (auto simp: mkey_wf_def MemtableKeyCmp_cmp_def cmp_memtable_key_heads mkey_sort_head)

section \<open>Separators\<close>

lemma lex_diffI: "x < y \<Longrightarrow> p @ x # u < p @ y # (v :: bytes)"
  by (induction p) auto

lemma lex_prefixI: "p < p @ y # (v :: bytes)"
  by (induction p) auto

lemma lex_less_cases:
  "a < (b :: bytes) \<Longrightarrow>
    (\<exists>c cs. b = a @ c # cs) \<or> (\<exists>p x u y v. a = p @ x # u \<and> b = p @ y # v \<and> x < y)"
proof (induction a arbitrary: b)
  case Nil
  then show ?case by (cases b) auto
next
  case (Cons z a)
  then obtain z' b' where b: "b = z' # b'" by (cases b) auto
  with Cons.prems consider "z < z'" | "z' = z" "a < b'" by auto
  then show ?case
  proof cases
    case 1
    then have "z # a = [] @ z # a \<and> b = [] @ z' # b' \<and> z < z'" using b by simp
    then show ?thesis by blast
  next
    case 2
    from Cons.IH [OF 2(2)] show ?thesis
    proof
      assume "\<exists>c cs. b' = a @ c # cs"
      with b 2 show ?thesis by auto
    next
      assume "\<exists>p x u y v. a = p @ x # u \<and> b' = p @ y # v \<and> x < y"
      then obtain p x u y v where "a = p @ x # u" "b' = p @ y # v" "x < y" by blast
      with b 2 have "z # a = (z # p) @ x # u \<and> b = (z # p) @ y # v \<and> x < y" by simp
      then show ?thesis by blast
    qed
  qed
qed

lemma lex_lessE:
  assumes "a < (b :: bytes)"
  obtains (pre) c cs where "b = a @ c # cs"
  | (diff) p x y u v where "a = p @ x # u" "b = p @ y # v" "x < y"
  using lex_less_cases [OF assms] by blast

lemma first_diff_prefix [simp]: "first_diff a (a @ c) = length a"
proof (induction a)
  case Nil
  then show ?case by (cases c) auto
qed auto

lemma first_diff_at [simp]: "x \<noteq> y \<Longrightarrow> first_diff (p @ x # u) (p @ y # v) = length p"
  by (induction p) auto

lemma byte_succ: "(x :: byte) < 0xFF \<Longrightarrow> x < x + 1"
proof -
  assume "x < 0xFF"
  then have "unat x + 1 < 256" by (simp add: word_less_nat_alt)
  then show ?thesis by (simp add: word_less_nat_alt unat_word_ariths)
qed

lemma byte_succ_ne: "(x :: byte) \<noteq> 0xFF \<Longrightarrow> x < x + 1"
proof -
  assume "x \<noteq> 0xFF"
  moreover have "unat x \<noteq> 255" using calculation by (simp add: word_unat_eq_iff)
  moreover have "unat x < 256" using unsigned_less [of x, where ?'a = nat] by simp
  ultimately have "x < 0xFF" by (simp add: word_less_nat_alt)
  then show ?thesis by (rule byte_succ)
qed

lemma bump_greater:
  assumes "i < length a" "a ! i < (0xFF :: byte)"
  shows "a < take i a @ (a ! i + 1) # u"
proof -
  have "a = take i a @ a ! i # drop (Suc i) a" using assms(1) by (rule id_take_nth_drop)
  then show ?thesis by (metis byte_succ [OF assms(2)] lex_diffI)
qed

declare sep_loop.simps [simp del]

lemma sep_loop_between:
  assumes ab: "a = p @ x # u" "b = p @ y # v" "x < y"
  shows "length p \<le> d \<Longrightarrow> \<exists>r. sep_loop a b d = Ok r \<and> (\<forall>sep. r = Some sep \<longrightarrow> a < sep \<and> sep < b)"
proof (induction "length a - d" arbitrary: d)
  case (0 d)
  then show ?case by (subst sep_loop.simps) simp
next
  case (Suc n d)
  let ?sep = "(take (d + 1) a)[d := a ! d + 1]"
  show ?case
  proof (cases "d < min (length a) (length b) \<and> a ! d < 0xFF \<and> a ! d + 1 < b ! d")
    case True
    then have d: "d < length a" "a ! d < 0xFF" "a ! d + 1 < b ! d" by auto
    then have sep: "?sep = take d a @ [a ! d + 1]"
      by (simp add: take_Suc_conv_app_nth list_update_append)
    have "a < ?sep" unfolding sep using bump_greater [OF d(1,2)] .
    moreover have "?sep < b"
    proof (cases "d = length p")
      case True
      with d(3) show ?thesis unfolding sep by (simp add: ab lex_diffI)
    next
      case False
      with Suc.prems obtain e where e: "d = Suc (length p) + e" by (metis add.commute add_Suc_right le_Suc_ex le_neq_implies_less less_eq_Suc_le)
      have "?sep = p @ x # (take e u @ [a ! d + 1])" unfolding sep by (simp add: ab e)
      then show ?thesis using lex_diffI [OF ab(3), of p] ab(2) by metis
    qed
    ultimately show ?thesis using True by (subst sep_loop.simps) (auto simp: cmp_bytes_ord Let_def)
  next
    case False
    moreover have "\<exists>r. sep_loop a b (d + 1) = Ok r \<and> (\<forall>sep. r = Some sep \<longrightarrow> a < sep \<and> sep < b)"
      using Suc by (intro Suc.hyps(1)) auto
    ultimately show ?thesis by (subst sep_loop.simps) auto
  qed
qed

lemma zero_append_between:
  assumes "a < b" "b \<noteq> a @ [0 :: byte]"
  shows "a < a @ [0] \<and> a @ [0] < b"
  using assms(1)
proof (cases rule: lex_lessE)
  case (pre c cs)
  have "a @ [0] < b"
  proof (cases "c = 0")
    case True
    with pre assms(2) obtain e es where "cs = e # es" by (cases cs) auto
    with pre True show ?thesis using lex_prefixI [of "a @ [0]" e es] by simp
  next
    case False
    then have "0 < c" by (simp add: word_gt_0)
    with pre show ?thesis by (simp add: lex_diffI)
  qed
  then show ?thesis using lex_prefixI by simp
next
  case (diff p x y u v)
  then show ?thesis using lex_prefixI [of a 0 "[]"] lex_diffI [of x y p "u @ [0]" v] by simp
qed

lemma last_low_le: "last_low a i \<le> i"
  by (induction i) auto

lemma find_shortest_sep_between:
  assumes "a < b" "a \<noteq> []" "b \<noteq> a @ [0]"
  shows "\<exists>sep. find_shortest_sep a b = Ok sep \<and> a < sep \<and> sep < b"
proof -
  have loop: "\<exists>r. sep_loop a b (first_diff a b) = Ok r \<and> (\<forall>sep. r = Some sep \<longrightarrow> a < sep \<and> sep < b)"
    using assms(1)
  proof (cases rule: lex_lessE)
    case (pre c cs)
    then show ?thesis by (simp add: sep_loop.simps)
  next
    case (diff p x y u v)
    then show ?thesis using sep_loop_between [OF diff, of "length p"] by simp
  qed
  let ?i = "last_low a (length a - 1)"
  have i: "?i < length a" using last_low_le [of a "length a - 1"] assms(2) by (cases a) auto
  have "a < a[?i := a ! ?i + 1]" if "a ! ?i < 0xFF"
    using bump_greater [OF i that, of "drop (Suc ?i) a"] by (metis upd_conv_take_nth_drop [OF i])
  then show ?thesis
    using loop zero_append_between [OF assms(1,3)] assms(1,2)
    by (auto simp: find_shortest_sep_def Let_def cmp_bytes_ord split: option.splits)
qed

lemma find_short_succ_greater: "a < find_short_succ a"
  by (induction a) (auto simp: byte_succ_ne)

end
