(* ===== verification/Ldb_Skipmap.thy ===== *)
theory Ldb_Skipmap
  imports Ldb_Keys
begin

text \<open>
  The skip list behind the memtable, \<^verbatim>\<open>skipmap.rs\<close>.  Its nodes are linked by
  raw pointers, so they live in a store: a list of nodes in the order of their
  allocation, with the head node at address 0 and pointers as addresses.  A node
  has a forward pointer per level and the owning \<^verbatim>\<open>next\<close> link.

  The search loops follow pointers and are partial functions: \<^const>\<open>None\<close> is a
  walk that does not end, which \<open>run_loop\<close> counts as a panic.  The theorems show
  that every walk over a well-formed list ends with the right node.

  \<open>sm_inv\<close> is the invariant: a list of addresses, ascending in the order of the
  keys, along which every pointer leads to the next node that is high enough.
  The random numbers are the record \<open>rng\<close>; nothing is assumed about them.
\<close>

section \<open>The data\<close>

definition MAX_HEIGHT :: nat where
  "MAX_HEIGHT = 12"

definition BRANCHING_FACTOR :: u32 where
  "BRANCHING_FACTOR = 4"

record node =
  nd_skips :: "nat option list"
  nd_next :: "nat option"
  nd_key :: bytes
  nd_value :: bytes

record 'r skipmap =
  sm_nodes :: "node list"
  sm_rand :: 'r
  sm_len :: nat
  sm_approx_mem :: nat

record 'r rng =
  seed_from_u64 :: "u64 \<Rightarrow> 'r"
  next_u32 :: "'r \<Rightarrow> u32 \<times> 'r"

text \<open>The sizes of a \<^verbatim>\<open>SkipMap\<close>, of a \<^verbatim>\<open>Node\<close> and of an optional raw pointer on a 64-bit machine.\<close>

definition size_of_SkipMap :: nat where
  "size_of_SkipMap = 8"

definition size_of_Node :: nat where
  "size_of_Node = 80"

definition size_of_ptr :: nat where
  "size_of_ptr = 16"

definition SkipMap_new :: "'r rng \<Rightarrow> 'r skipmap" where
  "SkipMap_new G = \<lparr>
     sm_nodes = [\<lparr>nd_skips = replicate MAX_HEIGHT None, nd_next = None, nd_key = [], nd_value = []\<rparr>],
     sm_rand = seed_from_u64 G 0xDEADBEEF,
     sm_len = 0,
     sm_approx_mem = size_of_SkipMap + MAX_HEIGHT * size_of_ptr\<rparr>"

section \<open>Searching\<close>

function random_height_loop :: "'r rng \<Rightarrow> nat \<Rightarrow> 'r \<Rightarrow> nat \<times> 'r" where
  "random_height_loop G height r =
     (if height < MAX_HEIGHT then
        (case next_u32 G r of (w, r') \<Rightarrow>
           if w mod BRANCHING_FACTOR = 0 then random_height_loop G (height + 1) r' else (height, r'))
      else (height, r))"
  by auto
termination by (relation "measure (\<lambda>(G, height, r). MAX_HEIGHT - height)") auto

definition random_height :: "'r rng \<Rightarrow> 'r \<Rightarrow> nat \<times> 'r" where
  "random_height G r = random_height_loop G 1 r"

definition run_loop :: "'a ldb option \<Rightarrow> 'a ldb" where
  "run_loop x = (case x of Some r \<Rightarrow> r | None \<Rightarrow> Panic)"

text \<open>\<^verbatim>\<open>(*current).skips[level]\<close>\<close>

definition skip_at :: "node list \<Rightarrow> nat \<Rightarrow> nat \<Rightarrow> nat option ldb" where
  "skip_at ns a level =
     (if a < length ns \<and> level < length (nd_skips (ns ! a)) then Ok (nd_skips (ns ! a) ! level) else Panic)"

text \<open>The loop of \<^verbatim>\<open>get_greater_or_equal\<close> returns a node or leaves with \<^verbatim>\<open>current\<close>.\<close>

datatype walk = Return nat | Break nat

partial_function (option) gge_loop :: "cmp \<Rightarrow> node list \<Rightarrow> bytes \<Rightarrow> nat \<Rightarrow> nat \<Rightarrow> walk ldb option" where
  "gge_loop C ns key current level =
     (case skip_at ns current level of
        Ok (Some nx) \<Rightarrow>
          (case C (nd_key (ns ! nx)) key of
             Ok Less \<Rightarrow> gge_loop C ns key nx level
           | Ok Equal \<Rightarrow> Some (Ok (Return nx))
           | Ok Greater \<Rightarrow> if level = 0 then Some (Ok (Return nx)) else gge_loop C ns key current (level - 1)
           | Err e \<Rightarrow> Some (Err e)
           | Panic \<Rightarrow> Some Panic)
      | Ok None \<Rightarrow> if level = 0 then Some (Ok (Break current)) else gge_loop C ns key current (level - 1)
      | Err e \<Rightarrow> Some (Err e)
      | Panic \<Rightarrow> Some Panic)"

definition get_greater_or_equal :: "cmp \<Rightarrow> 'r skipmap \<Rightarrow> bytes \<Rightarrow> nat option ldb" where
  "get_greater_or_equal C m key =
     bind_result (run_loop (gge_loop C (sm_nodes m) key 0 (length (nd_skips (sm_nodes m ! 0)) - 1))) (\<lambda>w.
     case w of
       Return a \<Rightarrow> Ok (Some a)
     | Break current \<Rightarrow>
         if current = 0 then Ok None
         else bind_result (C (nd_key (sm_nodes m ! current)) key) (\<lambda>ord.
           Ok (if ord = Less then None else Some current)))"

definition starts_with :: "bytes \<Rightarrow> bytes \<Rightarrow> bool" where
  "starts_with s p \<longleftrightarrow> take (length p) s = p"

definition SkipMap_contains :: "cmp \<Rightarrow> 'r skipmap \<Rightarrow> bytes \<Rightarrow> bool ldb" where
  "SkipMap_contains C m key =
     bind_result (get_greater_or_equal C m key) (\<lambda>r.
     Ok (case r of Some a \<Rightarrow> starts_with (nd_key (sm_nodes m ! a)) key | None \<Rightarrow> False))"

partial_function (option) gns_loop :: "cmp \<Rightarrow> node list \<Rightarrow> bytes \<Rightarrow> nat \<Rightarrow> nat \<Rightarrow> nat ldb option" where
  "gns_loop C ns key current level =
     (case skip_at ns current level of
        Ok (Some nx) \<Rightarrow>
          (case C (nd_key (ns ! nx)) key of
             Ok ord \<Rightarrow>
               if ord = Less then gns_loop C ns key nx level
               else if level = 0 then Some (Ok current) else gns_loop C ns key current (level - 1)
           | Err e \<Rightarrow> Some (Err e)
           | Panic \<Rightarrow> Some Panic)
      | Ok None \<Rightarrow> if level = 0 then Some (Ok current) else gns_loop C ns key current (level - 1)
      | Err e \<Rightarrow> Some (Err e)
      | Panic \<Rightarrow> Some Panic)"

definition get_next_smaller :: "cmp \<Rightarrow> 'r skipmap \<Rightarrow> bytes \<Rightarrow> nat option ldb" where
  "get_next_smaller C m key =
     bind_result (run_loop (gns_loop C (sm_nodes m) key 0 (length (nd_skips (sm_nodes m ! 0)) - 1))) (\<lambda>current.
     if current = 0 then Ok None
     else bind_result (C (nd_key (sm_nodes m ! current)) key) (\<lambda>ord.
       Ok (if ord \<noteq> Less then None else Some current)))"

section \<open>Insertion\<close>

text \<open>The search of \<^verbatim>\<open>insert\<close> collects the last node passed on each level of the new node;
  \<open>ins_next\<close> is the node to go on to, if the walk stays on its level.\<close>

definition ins_next :: "cmp \<Rightarrow> node list \<Rightarrow> bytes \<Rightarrow> nat \<Rightarrow> nat \<Rightarrow> nat option ldb" where
  "ins_next C ns key current level =
     bind_result (skip_at ns current level) (\<lambda>r.
     case r of
       Some nx \<Rightarrow>
         bind_result (C (nd_key (ns ! nx)) key) (\<lambda>ord.
         if ord = Equal then Panic else Ok (if ord = Less then Some nx else None))
     | None \<Rightarrow> Ok None)"

partial_function (option) ins_loop ::
  "cmp \<Rightarrow> node list \<Rightarrow> bytes \<Rightarrow> nat \<Rightarrow> nat \<Rightarrow> nat \<Rightarrow> nat option list \<Rightarrow> (nat option list \<times> nat) ldb option" where
  "ins_loop C ns key new_height current level prevs =
     (case ins_next C ns key current level of
        Ok (Some nx) \<Rightarrow> ins_loop C ns key new_height nx level prevs
      | Ok None \<Rightarrow>
          (let prevs' = (if level < new_height then prevs[level := Some current] else prevs) in
           if level = 0 then Some (Ok (prevs', current))
           else ins_loop C ns key new_height current (level - 1) prevs')
      | Err e \<Rightarrow> Some (Err e)
      | Panic \<Rightarrow> Some Panic)"

text \<open>\<^verbatim>\<open>new.skips[i] = (*prev).skips[i]; (*prev).skips[i] = Some(newp)\<close>\<close>

fun link_levels :: "nat \<Rightarrow> nat option list \<Rightarrow> nat list \<Rightarrow> node list \<times> nat option list \<Rightarrow> (node list \<times> nat option list) ldb" where
  "link_levels newp prevs [] st = Ok st"
| "link_levels newp prevs (i # is) (ns, new_skips) =
     (case prevs ! i of
        None \<Rightarrow> link_levels newp prevs is (ns, new_skips)
      | Some prev \<Rightarrow>
          bind_result (skip_at ns prev i) (\<lambda>nx.
          link_levels newp prevs is
            (ns[prev := (ns ! prev)\<lparr>nd_skips := (nd_skips (ns ! prev))[i := Some newp]\<rparr>], new_skips[i := nx])))"

definition SkipMap_insert :: "'r rng \<Rightarrow> cmp \<Rightarrow> 'r skipmap \<Rightarrow> bytes \<Rightarrow> bytes \<Rightarrow> 'r skipmap ldb" where
  "SkipMap_insert G C m key val =
     (if key = [] then Panic
      else (case random_height G (sm_rand m) of (new_height, rand') \<Rightarrow>
        bind_result (run_loop (ins_loop C (sm_nodes m) key new_height 0 (MAX_HEIGHT - 1) (replicate new_height (Some 0)))) (\<lambda>(prevs, current).
        let newp = length (sm_nodes m) in
        bind_result (link_levels newp prevs [0 ..< new_height] (sm_nodes m, replicate new_height None)) (\<lambda>(ns, new_skips).
        let added_mem = size_of_Node + size_of_ptr * length new_skips + length key + length val;
            new = \<lparr>nd_skips = new_skips, nd_next = nd_next (ns ! current), nd_key = key, nd_value = val\<rparr>
        in Ok (m\<lparr>sm_nodes := ns[current := (ns ! current)\<lparr>nd_next := Some newp\<rparr>] @ [new],
                 sm_rand := rand',
                 sm_len := sm_len m + 1,
                 sm_approx_mem := sm_approx_mem m + added_mem\<rparr>)))))"

section \<open>The iterator\<close>

text \<open>An iterator is the address of its current node; it reads the map it shares.\<close>

definition SkipMapIter_new :: nat where
  "SkipMapIter_new = 0"

definition SkipMapIter_advance :: "'r skipmap \<Rightarrow> nat \<Rightarrow> bool \<times> nat" where
  "SkipMapIter_advance m current =
     (case nd_next (sm_nodes m ! current) of Some nx \<Rightarrow> (True, nx) | None \<Rightarrow> (False, 0))"

definition SkipMapIter_seek :: "cmp \<Rightarrow> 'r skipmap \<Rightarrow> bytes \<Rightarrow> nat ldb" where
  "SkipMapIter_seek C m key =
     bind_result (get_greater_or_equal C m key) (\<lambda>r. Ok (case r of Some a \<Rightarrow> a | None \<Rightarrow> 0))"

definition SkipMapIter_valid :: "nat \<Rightarrow> bool" where
  "SkipMapIter_valid current \<longleftrightarrow> current \<noteq> 0"

definition SkipMapIter_current :: "'r skipmap \<Rightarrow> nat \<Rightarrow> (bytes \<times> bytes) option" where
  "SkipMapIter_current m current =
     (if SkipMapIter_valid current
      then Some (nd_key (sm_nodes m ! current), nd_value (sm_nodes m ! current)) else None)"

definition SkipMapIter_prev :: "cmp \<Rightarrow> 'r skipmap \<Rightarrow> nat \<Rightarrow> (bool \<times> nat) ldb" where
  "SkipMapIter_prev C m current =
     (if SkipMapIter_valid current then
        bind_result (get_next_smaller C m (nd_key (sm_nodes m ! current))) (\<lambda>r.
        Ok (case r of
              Some prev \<Rightarrow> if nd_key (sm_nodes m ! prev) \<noteq> [] then (True, prev) else (False, 0)
            | None \<Rightarrow> (False, 0)))
      else Ok (False, 0))"

section \<open>The invariant\<close>

definition height_of :: "node list \<Rightarrow> nat \<Rightarrow> nat" where
  "height_of ns a = length (nd_skips (ns ! a))"

text \<open>The last address of a walk from the head.\<close>

definition tip :: "nat list \<Rightarrow> nat" where
  "tip p = last (0 # p)"

lemma tip_simps [simp]: "tip [] = 0" "tip (p @ a # q) = tip (a # q)" "tip [a] = a" "p \<noteq> [] \<Longrightarrow> tip p = last p"
  by (simp_all add: tip_def)

text \<open>Every pointer of the last node of a prefix leads to the first high enough node of the rest.\<close>

definition links :: "node list \<Rightarrow> nat list \<Rightarrow> bool" where
  "links ns xs \<longleftrightarrow>
     distinct (0 # xs) \<and> set (0 # xs) = {..<length ns} \<and> height_of ns 0 = MAX_HEIGHT \<and>
     (\<forall>a \<in> set xs. 1 \<le> height_of ns a \<and> height_of ns a \<le> MAX_HEIGHT) \<and>
     (\<forall>p s. xs = p @ s \<longrightarrow>
        nd_next (ns ! tip p) = List.find (\<lambda>_. True) s \<and>
        (\<forall>l < height_of ns (tip p).
           nd_skips (ns ! tip p) ! l = List.find (\<lambda>a. l < height_of ns a) s))"

definition node_mem :: "node \<Rightarrow> nat" where
  "node_mem n = size_of_Node + size_of_ptr * length (nd_skips n) + length (nd_key n) + length (nd_value n)"

definition sm_inv :: "(bytes \<Rightarrow> bool) \<Rightarrow> (bytes \<Rightarrow> 'k::linorder) \<Rightarrow> 'r skipmap \<Rightarrow> nat list \<Rightarrow> bool" where
  "sm_inv K sk m xs \<longleftrightarrow>
     links (sm_nodes m) xs \<and>
     sorted_wrt (\<lambda>a b. sk (nd_key (sm_nodes m ! a)) < sk (nd_key (sm_nodes m ! b))) xs \<and>
     (\<forall>a \<in> set xs. K (nd_key (sm_nodes m ! a)) \<and> nd_key (sm_nodes m ! a) \<noteq> []) \<and>
     sm_len m = length xs \<and>
     sm_approx_mem m = size_of_SkipMap + MAX_HEIGHT * size_of_ptr + (\<Sum>a \<leftarrow> xs. node_mem (sm_nodes m ! a))"

lemma find_append:
  "List.find P (xs @ ys) = (case List.find P xs of Some x \<Rightarrow> Some x | None \<Rightarrow> List.find P ys)"
  by (induction xs) auto

lemma find_SomeE:
  assumes "List.find P xs = Some x"
  obtains us vs where "xs = us @ x # vs" "P x" "\<forall>u \<in> set us. \<not> P u"
proof -
  have "\<exists>us vs. xs = us @ x # vs \<and> P x \<and> (\<forall>u \<in> set us. \<not> P u)"
    using assms
  proof (induction xs)
    case (Cons y ys)
    show ?case
    proof (cases "P y")
      case True
      with Cons.prems show ?thesis by (intro exI [of _ "[]"] exI [of _ ys]) auto
    next
      case False
      with Cons obtain us vs where "ys = us @ x # vs" "P x" "\<forall>u \<in> set us. \<not> P u" by auto
      with False show ?thesis by (intro exI [of _ "y # us"] exI [of _ vs]) auto
    qed
  qed simp
  with that show thesis by blast
qed

lemma dropWhile_above:
  "sorted_wrt (\<lambda>a b. f a < f b) xs \<Longrightarrow> \<forall>a \<in> set xs. f a \<noteq> (k :: 'k::linorder) \<Longrightarrow>
    \<forall>a \<in> set (dropWhile (\<lambda>a. f a < k) xs). k < f a"
proof (induction xs)
  case (Cons x xs)
  show ?case
  proof (cases "f x < k")
    case False
    with Cons.prems(2) have "k < f x" by force
    with Cons.prems(1) False show ?thesis by (auto intro: less_trans)
  qed (use Cons in auto)
qed simp

lemma links_dest:
  assumes "links ns xs"
  shows "0 \<notin> set xs" "distinct xs" "height_of ns 0 = MAX_HEIGHT" "insert 0 (set xs) = {..<length ns}"
  using assms unfolding links_def by auto

lemma links_height: "links ns xs \<Longrightarrow> a \<in> set xs \<Longrightarrow> 1 \<le> height_of ns a \<and> height_of ns a \<le> MAX_HEIGHT"
  unfolding links_def by blast

lemma links_next: "links ns (p @ s) \<Longrightarrow> nd_next (ns ! tip p) = List.find (\<lambda>_. True) s"
  unfolding links_def by blast

lemma links_skip:
  "links ns (p @ s) \<Longrightarrow> l < height_of ns (tip p) \<Longrightarrow> nd_skips (ns ! tip p) ! l = List.find (\<lambda>a. l < height_of ns a) s"
  unfolding links_def by blast

lemma tip_in: "tip p \<in> insert 0 (set p)"
  by (cases p rule: rev_cases) auto

lemma links_less: "links ns xs \<Longrightarrow> a \<in> insert 0 (set xs) \<Longrightarrow> a < length ns"
  using links_dest(4) by blast

lemma tip_zero: "links ns (p @ s) \<Longrightarrow> tip p = 0 \<longleftrightarrow> p = []"
  using links_dest(1) [of ns "p @ s"] by (cases p rule: rev_cases) auto

lemma links_skip_at:
  assumes "links ns xs" "xs = p @ s" "l < height_of ns (tip p)"
  shows "skip_at ns (tip p) l = Ok (List.find (\<lambda>a. l < height_of ns a) s)"
proof -
  have "tip p < length ns" using links_less [OF assms(1), of "tip p"] tip_in [of p] assms(2) by auto
  with assms links_skip [of ns p s l] show ?thesis unfolding skip_at_def height_of_def by simp
qed

lemma sm_inv_nonzero: "sm_inv K sk m xs \<Longrightarrow> a \<in> set xs \<Longrightarrow> a \<noteq> 0"
  unfolding sm_inv_def using links_dest(1) by metis

lemma links_level0:
  "links ns xs \<Longrightarrow> xs = p @ s \<Longrightarrow> List.find (\<lambda>a. 0 < height_of ns a) s = List.find (\<lambda>_. True) s"
  by (intro find_cong) (auto dest!: links_height)

lemma links_low0:
  assumes "links ns xs" "xs = p @ s1 @ t" "\<forall>a \<in> set s1. \<not> 0 < height_of ns a"
  shows "s1 = []"
proof (rule ccontr)
  assume "s1 \<noteq> []"
  then have "hd s1 \<in> set s1" by simp
  with assms links_height [OF assms(1), of "hd s1"] show False by auto
qed

lemma SkipMap_new_inv: "sm_inv K sk (SkipMap_new G) []"
  by (auto simp: sm_inv_def links_def SkipMap_new_def height_of_def tip_def)

context key_order
begin

lemma gge_loop_spec:
  assumes links: "links ns xs" and sorted: "sorted_wrt (\<lambda>a b. sort_key (nd_key (ns ! a)) < sort_key (nd_key (ns ! b))) xs"
    and wfs: "\<forall>a \<in> set xs. wf (nd_key (ns ! a))" "wf key"
  shows "xs = p @ s \<Longrightarrow> level < height_of ns (tip p) \<Longrightarrow>
    gge_loop cmp ns key (tip p) level =
      Some (Ok (case List.find (\<lambda>a. sort_key key \<le> sort_key (nd_key (ns ! a))) s of
        Some a \<Rightarrow> Return a | None \<Rightarrow> Break (tip xs)))"
proof (induction "level + length s" arbitrary: level p s rule: less_induct)
  case less
  note at = links_skip_at [OF links less.prems]
  show ?case
  proof (cases "List.find (\<lambda>a. level < height_of ns a) s")
    case None
    show ?thesis
    proof (cases "level = 0")
      case True
      with None have "s = []" using links_level0 [OF links less.prems(1)] by (cases s) auto
      with True less.prems show ?thesis by (subst gge_loop.simps, subst at) simp
    next
      case False
      then show ?thesis using less.hyps [OF _ less.prems(1), of "level - 1"] less.prems(2)
        by (subst gge_loop.simps) (simp add: at None)
    qed
  next
    case (Some nx)
    then obtain s1 s2 where s: "s = s1 @ nx # s2" and h: "level < height_of ns nx"
      and low: "\<forall>a \<in> set s1. \<not> level < height_of ns a" by (rule find_SomeE)
    have c: "cmp (nd_key (ns ! nx)) key = Ok (ord_of (sort_key (nd_key (ns ! nx))) (sort_key key))"
      using wfs s less.prems(1) by (simp add: cmp_spec)
    have s1: "\<forall>a \<in> set s1. sort_key (nd_key (ns ! a)) < sort_key (nd_key (ns ! nx))"
      using sorted by (simp add: less.prems(1) s sorted_wrt_append)
    have f: "sort_key (nd_key (ns ! nx)) \<le> sort_key key \<Longrightarrow>
        List.find (\<lambda>a. sort_key key \<le> sort_key (nd_key (ns ! a))) s =
        List.find (\<lambda>a. sort_key key \<le> sort_key (nd_key (ns ! a))) (nx # s2)"
    proof -
      assume "sort_key (nd_key (ns ! nx)) \<le> sort_key key"
      then have "List.find (\<lambda>a. sort_key key \<le> sort_key (nd_key (ns ! a))) s1 = None"
        using s1 by (simp add: find_None_iff not_le) (meson order.strict_trans2)
      then show ?thesis by (simp only: s find_append option.case)
    qed
    consider (lt) "sort_key (nd_key (ns ! nx)) < sort_key key" | (eq) "sort_key (nd_key (ns ! nx)) = sort_key key"
      | (gt) "sort_key key < sort_key (nd_key (ns ! nx))" by fastforce
    then show ?thesis
    proof cases
      case lt
      have "gge_loop cmp ns key (tip ((p @ s1) @ [nx])) level =
        Some (Ok (case List.find (\<lambda>a. sort_key key \<le> sort_key (nd_key (ns ! a))) s2 of
          Some a \<Rightarrow> Return a | None \<Rightarrow> Break (tip xs)))"
        by (rule less.hyps) (use s h less.prems in auto)
      with lt show ?thesis by (subst gge_loop.simps, subst at) (auto simp: Some c f ord_of_def dest: leD)
    next
      case eq
      then show ?thesis by (subst gge_loop.simps, subst at) (simp add: Some c f ord_of_def)
    next
      case gt
      then have c': "cmp (nd_key (ns ! nx)) key = Ok Greater" using c by simp
      have "s1 = []" if "level = 0" using that low s less.prems(1) links_low0 [OF links, of p s1 "nx # s2"] by simp
      with gt have "level = 0 \<Longrightarrow> List.find (\<lambda>a. sort_key key \<le> sort_key (nd_key (ns ! a))) s = Some nx"
        using s by (simp add: less_imp_le)
      then show ?thesis using gt less.hyps [OF _ less.prems(1), of "level - 1"] less.prems(2)
        by (subst gge_loop.simps, subst at) (simp add: Some c')
    qed
  qed
qed

lemma get_greater_or_equal_spec:
  assumes inv: "sm_inv wf sort_key m xs" and key: "wf key"
  shows "get_greater_or_equal cmp m key =
    Ok (List.find (\<lambda>a. sort_key key \<le> sort_key (nd_key (sm_nodes m ! a))) xs)"
proof -
  let ?f = "List.find (\<lambda>a. sort_key key \<le> sort_key (nd_key (sm_nodes m ! a))) xs"
  have "gge_loop cmp (sm_nodes m) key (tip []) (length (nd_skips (sm_nodes m ! 0)) - 1) =
      Some (Ok (case ?f of Some a \<Rightarrow> Return a | None \<Rightarrow> Break (tip xs)))"
    by (rule gge_loop_spec [where p = "[]"])
      (use inv key in \<open>auto simp: sm_inv_def links_dest(3) height_of_def [symmetric] MAX_HEIGHT_def\<close>)
  moreover have "cmp (nd_key (sm_nodes m ! last xs)) key = Ok Less" if "xs \<noteq> []" "?f = None"
  proof -
    from that(1) have "last xs \<in> set xs" by simp
    then show ?thesis using that(2) inv key by (auto simp: cmp_spec sm_inv_def find_None_iff not_le)
  qed
  moreover have "tip xs = 0 \<longleftrightarrow> xs = []"
    using tip_zero [of _ xs "[]"] inv by (auto simp: sm_inv_def)
  ultimately show ?thesis
    by (auto simp: get_greater_or_equal_def run_loop_def split: option.splits)
qed


lemma gns_loop_spec:
  assumes links: "links ns xs" and sorted: "sorted_wrt (\<lambda>a b. sort_key (nd_key (ns ! a)) < sort_key (nd_key (ns ! b))) xs"
    and wfs: "\<forall>a \<in> set xs. wf (nd_key (ns ! a))" "wf key"
  shows "xs = p @ s \<Longrightarrow> level < height_of ns (tip p) \<Longrightarrow>
    gns_loop cmp ns key (tip p) level =
      Some (Ok (tip (p @ takeWhile (\<lambda>a. sort_key (nd_key (ns ! a)) < sort_key key) s)))"
proof (induction "level + length s" arbitrary: level p s rule: less_induct)
  case less
  note at = links_skip_at [OF links less.prems]
  have down: "gns_loop cmp ns key (tip p) (level - 1) =
      Some (Ok (tip (p @ takeWhile (\<lambda>a. sort_key (nd_key (ns ! a)) < sort_key key) s)))" if "level \<noteq> 0"
    by (rule less.hyps) (use that less.prems in auto)
  show ?case
  proof (cases "List.find (\<lambda>a. level < height_of ns a) s")
    case None
    then have "s = []" if "level = 0" using that links_level0 [OF links less.prems(1)] by (cases s) auto
    with None down show ?thesis by (subst gns_loop.simps, subst at) auto
  next
    case (Some nx)
    then obtain s1 s2 where s: "s = s1 @ nx # s2" and h: "level < height_of ns nx"
      and low: "\<forall>a \<in> set s1. \<not> level < height_of ns a" by (rule find_SomeE)
    have c: "cmp (nd_key (ns ! nx)) key = Ok (ord_of (sort_key (nd_key (ns ! nx))) (sort_key key))"
      using wfs s less.prems(1) by (simp add: cmp_spec)
    show ?thesis
    proof (cases "sort_key (nd_key (ns ! nx)) < sort_key key")
      case True
      have "\<forall>a \<in> set s1. sort_key (nd_key (ns ! a)) < sort_key (nd_key (ns ! nx))"
        using sorted by (simp add: less.prems(1) s sorted_wrt_append)
      with True have "takeWhile (\<lambda>a. sort_key (nd_key (ns ! a)) < sort_key key) s =
          s1 @ nx # takeWhile (\<lambda>a. sort_key (nd_key (ns ! a)) < sort_key key) s2"
        unfolding s by (subst takeWhile_append2) auto
      moreover have "gns_loop cmp ns key (tip ((p @ s1) @ [nx])) level =
          Some (Ok (tip (((p @ s1) @ [nx]) @ takeWhile (\<lambda>a. sort_key (nd_key (ns ! a)) < sort_key key) s2)))"
        by (rule less.hyps) (use s h less.prems in auto)
      ultimately show ?thesis using True by (subst gns_loop.simps, subst at) (simp add: Some c)
    next
      case False
      have "s1 = []" if "level = 0" using that low s less.prems(1) links_low0 [OF links, of p s1 "nx # s2"] by simp
      with False have "level = 0 \<Longrightarrow> takeWhile (\<lambda>a. sort_key (nd_key (ns ! a)) < sort_key key) s = []" using s by simp
      with False down show ?thesis by (subst gns_loop.simps, subst at) (simp add: Some c)
    qed
  qed
qed

lemma get_next_smaller_spec:
  assumes inv: "sm_inv wf sort_key m xs" and key: "wf key"
  defines "p \<equiv> takeWhile (\<lambda>a. sort_key (nd_key (sm_nodes m ! a)) < sort_key key) xs"
  shows "get_next_smaller cmp m key = Ok (if p = [] then None else Some (last p))"
proof -
  have links: "links (sm_nodes m) xs" using inv by (simp add: sm_inv_def)
  have "gns_loop cmp (sm_nodes m) key (tip []) (length (nd_skips (sm_nodes m ! 0)) - 1) = Some (Ok (tip ([] @ p)))"
    unfolding p_def by (rule gns_loop_spec)
      (use inv key in \<open>auto simp: sm_inv_def links_dest(3) height_of_def [symmetric] MAX_HEIGHT_def\<close>)
  moreover have "tip p = 0 \<longleftrightarrow> p = []"
    using tip_zero [of "sm_nodes m" p "dropWhile (\<lambda>a. sort_key (nd_key (sm_nodes m ! a)) < sort_key key) xs"] links
    by (simp add: p_def)
  moreover have "cmp (nd_key (sm_nodes m ! last p)) key = Ok Less" if "p \<noteq> []"
    using last_in_set [OF that] inv key
    by (auto simp: p_def cmp_spec sm_inv_def dest!: set_takeWhileD)
  ultimately show ?thesis by (auto simp: get_next_smaller_def run_loop_def)
qed


lemma ins_next_spec:
  assumes "links ns xs" "xs = p @ s" "level < height_of ns (tip p)" "\<forall>a \<in> set xs. wf (nd_key (ns ! a))" "wf key"
  shows "ins_next cmp ns key (tip p) level =
    (case List.find (\<lambda>a. level < height_of ns a) s of
       None \<Rightarrow> Ok None
     | Some nx \<Rightarrow>
         if sort_key (nd_key (ns ! nx)) = sort_key key then Panic
         else Ok (if sort_key (nd_key (ns ! nx)) < sort_key key then Some nx else None))"
proof -
  have "wf (nd_key (ns ! nx))" if "List.find (\<lambda>a. level < height_of ns a) s = Some nx" for nx
    using that assms(2,4) by (auto elim!: find_SomeE)
  then show ?thesis
    unfolding ins_next_def links_skip_at [OF assms(1-3)] using assms(5)
    by (auto simp: cmp_spec split: option.splits)
qed

lemma ins_loop_spec:
  assumes links: "links ns xs" and sorted: "sorted_wrt (\<lambda>a b. sort_key (nd_key (ns ! a)) < sort_key (nd_key (ns ! b))) xs"
    and wfs: "\<forall>a \<in> set xs. wf (nd_key (ns ! a))" "wf key"
    and new: "\<forall>a \<in> set xs. sort_key (nd_key (ns ! a)) \<noteq> sort_key key"
  shows "xs = p @ s \<Longrightarrow> level < height_of ns (tip p) \<Longrightarrow> \<forall>a \<in> set p. sort_key (nd_key (ns ! a)) < sort_key key \<Longrightarrow>
    length prevs = nh \<Longrightarrow>
    \<exists>prevs'. ins_loop cmp ns key nh (tip p) level prevs =
        Some (Ok (prevs', tip (takeWhile (\<lambda>a. sort_key (nd_key (ns ! a)) < sort_key key) xs))) \<and>
      length prevs' = nh \<and>
      (\<forall>i < nh. prevs' ! i =
        (if i \<le> level
         then Some (tip (filter (\<lambda>a. i < height_of ns a) (takeWhile (\<lambda>a. sort_key (nd_key (ns ! a)) < sort_key key) xs)))
         else prevs ! i))"
proof (induction "level + length s" arbitrary: level p s prevs rule: less_induct)
  case less
  let ?lt = "\<lambda>a. sort_key (nd_key (ns ! a)) < sort_key key"
  note nxt = ins_next_spec [OF links less.prems(1,2) wfs]
  have xs: "takeWhile ?lt xs = p @ takeWhile ?lt s" using less.prems(1,3) by simp
  show ?case
  proof (cases "\<exists>nx. List.find (\<lambda>a. level < height_of ns a) s = Some nx \<and> ?lt nx")
    case True
    then obtain nx where nx: "List.find (\<lambda>a. level < height_of ns a) s = Some nx" "?lt nx" by blast
    from nx(1) obtain s1 s2 where s: "s = s1 @ nx # s2" and h: "level < height_of ns nx" by (rule find_SomeE)
    have "\<forall>a \<in> set s1. sort_key (nd_key (ns ! a)) < sort_key (nd_key (ns ! nx))"
      using sorted by (simp add: less.prems(1) s sorted_wrt_append)
    then have "\<forall>a \<in> set ((p @ s1) @ [nx]). ?lt a" using less.prems(3) nx(2) by auto
    moreover have "tip ((p @ s1) @ [nx]) = nx" by simp
    ultimately have "\<exists>prevs'. ins_loop cmp ns key nh nx level prevs = Some (Ok (prevs', tip (takeWhile ?lt xs))) \<and>
        length prevs' = nh \<and> (\<forall>i < nh. prevs' ! i =
          (if i \<le> level then Some (tip (filter (\<lambda>a. i < height_of ns a) (takeWhile ?lt xs))) else prevs ! i))"
      using less.hyps [of level s2 "(p @ s1) @ [nx]" prevs] less.prems(1,4) s h by simp
    moreover have "ins_next cmp ns key (tip p) level = Ok (Some nx)" using nx by (subst nxt) simp
    ultimately show ?thesis by (subst ins_loop.simps) simp
  next
    case False
    have nn: "ins_next cmp ns key (tip p) level = Ok None"
      using False new less.prems(1) by (subst nxt) (auto split: option.splits elim!: find_SomeE)
    have none: "\<not> level < height_of ns a" if "a \<in> set (takeWhile ?lt s)" for a
    proof
      assume a: "level < height_of ns a"
      from that have "a \<in> set s" "?lt a" by (auto dest: set_takeWhileD)
      with a obtain nx where nx: "List.find (\<lambda>a. level < height_of ns a) s = Some nx"
        by (metis find_None_iff not_Some_eq)
      then obtain s1 s2 where s: "s = s1 @ nx # s2" "level < height_of ns nx" "\<forall>u \<in> set s1. \<not> level < height_of ns u"
        by (rule find_SomeE)
      have "set (takeWhile ?lt s) \<subseteq> set s1"
        using False nx unfolding s(1) by (auto simp: takeWhile_append dest: set_takeWhileD)
      with that s(3) a show False by auto
    qed
    then have "filter (\<lambda>a. level < height_of ns a) (takeWhile ?lt xs) = filter (\<lambda>a. level < height_of ns a) p"
      by (simp add: xs filter_empty_conv)
    then have lvl: "tip (filter (\<lambda>a. level < height_of ns a) (takeWhile ?lt xs)) = tip p"
      using less.prems(2) by (cases p rule: rev_cases) auto
    have z: "tip (takeWhile ?lt xs) = tip p" if "level = 0"
    proof -
      have "takeWhile ?lt s = []"
        using links_low0 [OF links, of p "takeWhile ?lt s" "dropWhile ?lt s"] none that less.prems(1) by simp
      then show ?thesis by (simp add: xs)
    qed
    show ?thesis
    proof (cases "level = 0")
      case True
      then show ?thesis using less.prems(4) lvl z by (subst ins_loop.simps, subst nn) auto
    next
      case False
      let ?prevs = "if level < nh then prevs[level := Some (tip p)] else prevs"
      have "\<exists>prevs'. ins_loop cmp ns key nh (tip p) (level - 1) ?prevs = Some (Ok (prevs', tip (takeWhile ?lt xs))) \<and>
          length prevs' = nh \<and> (\<forall>i < nh. prevs' ! i =
            (if i \<le> level - 1 then Some (tip (filter (\<lambda>a. i < height_of ns a) (takeWhile ?lt xs))) else ?prevs ! i))"
        by (rule less.hyps) (use less.prems False in auto)
      then obtain prevs' where pr: "ins_loop cmp ns key nh (tip p) (level - 1) ?prevs = Some (Ok (prevs', tip (takeWhile ?lt xs)))"
        "length prevs' = nh" "\<forall>i < nh. prevs' ! i =
            (if i \<le> level - 1 then Some (tip (filter (\<lambda>a. i < height_of ns a) (takeWhile ?lt xs))) else ?prevs ! i)" by blast
      have "ins_loop cmp ns key nh (tip p) level prevs = Some (Ok (prevs', tip (takeWhile ?lt xs)))"
        using pr(1) False by (subst ins_loop.simps, subst nn) (simp add: Let_def)
      moreover have "prevs' ! i = (if i \<le> level then Some (tip (filter (\<lambda>a. i < height_of ns a) (takeWhile ?lt xs))) else prevs ! i)"
        if "i < nh" for i
        using that pr(3) lvl False less.prems(4) by (cases "i = level") auto
      ultimately show ?thesis using pr(2) by blast
    qed
  qed
qed

end

section \<open>Linking a node\<close>

lemma tip_append: "tip (p @ q) = (if q = [] then tip p else last q)"
  by (simp add: tip_def)

lemma tip_filter_split:
  "\<exists>q t. Q = q @ t \<and> tip (filter P Q) = tip q \<and> (\<forall>a \<in> set t. \<not> P a) \<and> (q = [] \<or> P (tip q))"
proof (induction Q rule: rev_induct)
  case (snoc a Q)
  then obtain q t where *: "Q = q @ t" "tip (filter P Q) = tip q" "\<forall>a \<in> set t. \<not> P a" "q = [] \<or> P (tip q)" by blast
  show ?case
  proof (cases "P a")
    case True
    then show ?thesis by (intro exI [of _ "Q @ [a]"] exI [of _ "[]"]) simp
  next
    case False
    with * show ?thesis by (intro exI [of _ q] exI [of _ "t @ [a]"]) auto
  qed
qed simp

text \<open>The store after a node of height \<open>nh\<close> is linked in behind the nodes \<open>Q\<close>.\<close>

definition spliced :: "node list \<Rightarrow> node list \<Rightarrow> nat list \<Rightarrow> nat \<Rightarrow> bool" where
  "spliced ns ns' Q nh \<longleftrightarrow>
     1 \<le> nh \<and> nh \<le> MAX_HEIGHT \<and> length ns' = Suc (length ns) \<and>
     (\<forall>a < length ns. height_of ns' a = height_of ns a \<and>
        nd_next (ns' ! a) = (if a = tip Q then Some (length ns) else nd_next (ns ! a)) \<and>
        (\<forall>l < height_of ns a. nd_skips (ns' ! a) ! l =
           (if l < nh \<and> a = tip (filter (\<lambda>a. l < height_of ns a) Q) then Some (length ns) else nd_skips (ns ! a) ! l))) \<and>
     height_of ns' (length ns) = nh \<and>
     nd_next (ns' ! length ns) = nd_next (ns ! tip Q) \<and>
     (\<forall>l < nh. nd_skips (ns' ! length ns) ! l = nd_skips (ns ! tip (filter (\<lambda>a. l < height_of ns a) Q)) ! l)"

lemma splicedD:
  assumes "spliced ns ns' Q nh"
  shows "a < length ns \<Longrightarrow> height_of ns' a = height_of ns a"
    "a < length ns \<Longrightarrow> nd_next (ns' ! a) = (if a = tip Q then Some (length ns) else nd_next (ns ! a))"
    "a < length ns \<Longrightarrow> l < height_of ns a \<Longrightarrow> nd_skips (ns' ! a) ! l =
       (if l < nh \<and> a = tip (filter (\<lambda>a. l < height_of ns a) Q) then Some (length ns) else nd_skips (ns ! a) ! l)"
    "height_of ns' (length ns) = nh"
    "nd_next (ns' ! length ns) = nd_next (ns ! tip Q)"
    "l < nh \<Longrightarrow> nd_skips (ns' ! length ns) ! l = nd_skips (ns ! tip (filter (\<lambda>a. l < height_of ns a) Q)) ! l"
  using assms unfolding spliced_def by blast+

lemma spliced_find:
  assumes "links ns xs" "spliced ns ns' Q nh" "set s \<subseteq> set xs"
  shows "List.find (\<lambda>a. l < height_of ns' a) s = List.find (\<lambda>a. l < height_of ns a) s"
proof (intro find_cong refl)
  fix a assume "a \<in> set s"
  then have "a < length ns" using links_less [OF assms(1)] assms(3) by blast
  then show "(l < height_of ns' a) = (l < height_of ns a)" using splicedD(1) [OF assms(2)] by simp
qed

text \<open>Where the pointers of a node lead, given that the nodes after it are \<open>s\<close>.\<close>

definition points :: "node list \<Rightarrow> nat \<Rightarrow> nat list \<Rightarrow> bool" where
  "points ns a s \<longleftrightarrow> nd_next (ns ! a) = List.find (\<lambda>_. True) s \<and>
     (\<forall>l < height_of ns a. nd_skips (ns ! a) ! l = List.find (\<lambda>a. l < height_of ns a) s)"

lemma spliced_before:
  assumes links: "links ns (Q @ R)" and sp: "spliced ns ns' Q nh" and Q: "Q = q @ us"
  shows "points ns' (tip q) (us @ length ns # R)"
proof -
  have tq: "tip q < length ns" using tip_in [of q] links_less [OF links] Q by auto
  have tl: "tip q \<notin> set us" using tip_in [of q] links_dest(1,2) [OF links] Q by auto
  have l': "links ns (q @ us @ R)" using links Q by simp
  have "nd_next (ns' ! tip q) = List.find (\<lambda>_. True) (us @ length ns # R)"
  proof (cases us)
    case Nil
    then show ?thesis using splicedD(2) [OF sp tq] Q by simp
  next
    case (Cons u us')
    then have "tip q \<noteq> tip Q" using tl Q last_in_set [of us] by (auto simp: tip_append)
    with Cons show ?thesis using splicedD(2) [OF sp tq] links_next [OF l'] by simp
  qed
  moreover have "nd_skips (ns' ! tip q) ! l = List.find (\<lambda>a. l < height_of ns' a) (us @ length ns # R)"
    if "l < height_of ns' (tip q)" for l
  proof -
    let ?P = "\<lambda>a. l < height_of ns a"
    have lq: "?P (tip q)" using that splicedD(1) [OF sp tq] by simp
    note sk = splicedD(3) [OF sp tq lq] links_skip [OF l' lq]
    have fnd: "List.find (\<lambda>a. l < height_of ns' a) us = List.find ?P us" "List.find (\<lambda>a. l < height_of ns' a) R = List.find ?P R"
      by (rule spliced_find [OF links sp]; auto simp: Q)+
    show ?thesis
    proof (cases "filter ?P us = []")
      case True
      then have "List.find ?P us = None" by (auto simp: find_None_iff filter_empty_conv)
      moreover have "tip (filter ?P Q) = tip q" using True lq by (cases q rule: rev_cases) (auto simp: Q)
      ultimately show ?thesis using sk splicedD(4) [OF sp] Q by (simp add: find_append fnd)
    next
      case False
      then have "tip (filter ?P Q) \<in> set us" using last_in_set [OF False] by (auto simp: Q tip_append)
      with tl have "tip q \<noteq> tip (filter ?P Q)" by auto
      moreover have "List.find ?P us \<noteq> None" using False by (auto simp: find_None_iff filter_empty_conv)
      ultimately show ?thesis using sk Q by (auto simp: find_append fnd)
    qed
  qed
  ultimately show ?thesis unfolding points_def by blast
qed

lemma spliced_new:
  assumes links: "links ns (Q @ R)" and sp: "spliced ns ns' Q nh"
  shows "points ns' (length ns) R"
proof -
  have "nd_skips (ns' ! length ns) ! l = List.find (\<lambda>a. l < height_of ns' a) R" if l: "l < nh" for l
  proof -
    obtain q t where q: "Q = q @ t" "tip (filter (\<lambda>a. l < height_of ns a) Q) = tip q"
        "\<forall>a \<in> set t. \<not> l < height_of ns a" "q = [] \<or> l < height_of ns (tip q)"
      using tip_filter_split [of Q "\<lambda>a. l < height_of ns a"] by blast
    have "l < height_of ns (tip q)" using q(4) l sp links_dest(3) [OF links] by (auto simp: spliced_def)
    then have "nd_skips (ns ! tip q) ! l = List.find (\<lambda>a. l < height_of ns a) (t @ R)"
      using links_skip [of ns q "t @ R"] links q(1) by simp
    moreover have "List.find (\<lambda>a. l < height_of ns a) t = None" using q(3) by (simp add: find_None_iff)
    ultimately show ?thesis using splicedD(6) [OF sp l] q(2) by (simp add: find_append spliced_find [OF links sp])
  qed
  then show ?thesis using splicedD(4,5) [OF sp] links_next [OF links] by (simp add: points_def)
qed

lemma spliced_behind:
  assumes links: "links ns (Q @ R)" and sp: "spliced ns ns' Q nh" and R: "R = us @ b # s"
  shows "points ns' b s"
proof -
  have b: "b \<in> set (Q @ R)" "b \<noteq> tip Q" "b \<noteq> tip (filter P Q)" for P
    using R links_dest(1,2) [OF links] tip_in [of Q] tip_in [of "filter P Q"] by auto
  then have bl: "b < length ns" using links_less [OF links] by blast
  have "links ns ((Q @ us @ [b]) @ s)" using links R by simp
  note o = links_next [OF this] links_skip [OF this]
  have fnd: "List.find (\<lambda>a. l < height_of ns' a) s = List.find (\<lambda>a. l < height_of ns a) s" for l
    by (rule spliced_find [OF links sp]) (auto simp: R)
  show ?thesis
    using o splicedD(1,2,3) [OF sp bl] b(2,3) fnd by (simp add: points_def)
qed

lemma links_insert:
  assumes links: "links ns (Q @ R)" and sp: "spliced ns ns' Q nh"
  shows "links ns' (Q @ length ns # R)"
proof -
  have "points ns' (tip p) s" if "Q @ length ns # R = p @ s" for p s
  proof -
    from that obtain us where "Q = p @ us \<and> us @ length ns # R = s \<or> Q @ us = p \<and> length ns # R = us @ s"
      unfolding append_eq_append_conv2 by blast
    then show ?thesis
    proof
      assume "Q = p @ us \<and> us @ length ns # R = s"
      then show ?thesis using spliced_before [OF links sp, of p us] by simp
    next
      assume us: "Q @ us = p \<and> length ns # R = us @ s"
      show ?thesis
      proof (cases us)
        case Nil
        with us show ?thesis using spliced_before [OF links sp, of Q "[]"] by auto
      next
        case (Cons b us')
        with us show ?thesis using spliced_new [OF links sp] spliced_behind [OF links sp]
          by (cases us' rule: rev_cases) auto
      qed
    qed
  qed
  moreover have "set (0 # Q @ length ns # R) = insert (length ns) (insert 0 (set (Q @ R)))" by auto
  then have "set (0 # Q @ length ns # R) = {..<length ns'}"
    using sp by (simp only: links_dest(4) [OF links] spliced_def lessThan_Suc)
  moreover have "length ns \<notin> set (Q @ R)" "0 < length ns" using links_less [OF links] by auto
  then have "distinct (0 # Q @ length ns # R)" using links_dest(1,2) [OF links] by auto
  moreover have h: "height_of ns' a = height_of ns a" if "a \<in> insert 0 (set (Q @ R))" for a
    using splicedD(1) [OF sp] links_less [OF links that] by blast
  have nh: "1 \<le> nh" "nh \<le> MAX_HEIGHT" using sp unfolding spliced_def by blast+
  have "1 \<le> height_of ns' a \<and> height_of ns' a \<le> MAX_HEIGHT" if "a \<in> set (Q @ length ns # R)" for a
    using that links_height [OF links, of a] h [of a] splicedD(4) [OF sp] nh by (cases "a = length ns") auto
  moreover have "height_of ns' 0 = MAX_HEIGHT" using h links_dest(3) [OF links] by simp
  ultimately show ?thesis unfolding links_def points_def by blast
qed

text \<open>What \<^verbatim>\<open>insert\<close> does to the pointers, one level after the other.\<close>

lemma link_levels_spec:
  assumes "distinct is" "\<forall>i \<in> set is. i < length prevs \<and> prevs ! i = Some (pr i) \<and> pr i < length ns \<and> i < height_of ns (pr i) \<and> i < length ss"
  shows "\<exists>ns' ss'. link_levels newp prevs is (ns, ss) = Ok (ns', ss') \<and> length ns' = length ns \<and> length ss' = length ss \<and>
    (\<forall>i < length ss. ss' ! i = (if i \<in> set is then nd_skips (ns ! pr i) ! i else ss ! i)) \<and>
    (\<forall>a < length ns. height_of ns' a = height_of ns a \<and> nd_next (ns' ! a) = nd_next (ns ! a) \<and>
       nd_key (ns' ! a) = nd_key (ns ! a) \<and> nd_value (ns' ! a) = nd_value (ns ! a) \<and>
       (\<forall>l < height_of ns a. nd_skips (ns' ! a) ! l =
          (if l \<in> set is \<and> a = pr l then Some newp else nd_skips (ns ! a) ! l)))"
  using assms
proof (induction "is" arbitrary: ns ss)
  case (Cons i "is")
  let ?ns = "ns[pr i := (ns ! pr i)\<lparr>nd_skips := (nd_skips (ns ! pr i))[i := Some newp]\<rparr>]"
  let ?ss = "ss[i := nd_skips (ns ! pr i) ! i]"
  have i: "prevs ! i = Some (pr i)" "pr i < length ns" "i < height_of ns (pr i)" "i < length ss" "i \<notin> set is"
    using Cons.prems by auto
  have h: "height_of ?ns a = height_of ns a" if "a < length ns" for a
    using that i(2) by (simp add: height_of_def nth_list_update)
  have sk: "nd_skips (?ns ! a) ! l = (if a = pr i \<and> l = i then Some newp else nd_skips (ns ! a) ! l)"
    if "a < length ns" "l < height_of ns a" for a l
    using that i(2) by (auto simp: nth_list_update height_of_def)
  have "\<exists>ns' ss'. link_levels newp prevs is (?ns, ?ss) = Ok (ns', ss') \<and> length ns' = length ?ns \<and> length ss' = length ?ss \<and>
    (\<forall>i < length ?ss. ss' ! i = (if i \<in> set is then nd_skips (?ns ! pr i) ! i else ?ss ! i)) \<and>
    (\<forall>a < length ?ns. height_of ns' a = height_of ?ns a \<and> nd_next (ns' ! a) = nd_next (?ns ! a) \<and>
       nd_key (ns' ! a) = nd_key (?ns ! a) \<and> nd_value (ns' ! a) = nd_value (?ns ! a) \<and>
       (\<forall>l < height_of ?ns a. nd_skips (ns' ! a) ! l =
          (if l \<in> set is \<and> a = pr l then Some newp else nd_skips (?ns ! a) ! l)))"
    by (rule Cons.IH) (use Cons.prems h in auto)
  then obtain ns' ss' where *: "link_levels newp prevs is (?ns, ?ss) = Ok (ns', ss')" "length ns' = length ns" "length ss' = length ss"
    "\<forall>j < length ss. ss' ! j = (if j \<in> set is then nd_skips (?ns ! pr j) ! j else ?ss ! j)"
    "\<forall>a < length ns. height_of ns' a = height_of ns a \<and> nd_next (ns' ! a) = nd_next (ns ! a) \<and>
       nd_key (ns' ! a) = nd_key (ns ! a) \<and> nd_value (ns' ! a) = nd_value (ns ! a) \<and>
       (\<forall>l < height_of ns a. nd_skips (ns' ! a) ! l =
          (if l \<in> set is \<and> a = pr l then Some newp else nd_skips (?ns ! a) ! l))"
    using h i(2) by (auto simp: nth_list_update)
  have "link_levels newp prevs (i # is) (ns, ss) = Ok (ns', ss')"
    using * i by (simp add: skip_at_def height_of_def)
  moreover have "ss' ! j = (if j \<in> set (i # is) then nd_skips (ns ! pr j) ! j else ss ! j)" if "j < length ss" for j
    using that *(4) sk Cons.prems(2) i by (auto simp: nth_list_update)
  moreover have "nd_skips (ns' ! a) ! l = (if l \<in> set (i # is) \<and> a = pr l then Some newp else nd_skips (ns ! a) ! l)"
    if "a < length ns" "l < height_of ns a" for a l
    using that *(5) sk [OF that] by (metis list.set_intros set_ConsD)
  ultimately show ?case using * by blast
qed auto

section \<open>Insertion\<close>

declare random_height_loop.simps [simp del]

lemma random_height_loop_bounds:
  "1 \<le> h \<Longrightarrow> h \<le> MAX_HEIGHT \<Longrightarrow> 1 \<le> fst (random_height_loop G h r) \<and> fst (random_height_loop G h r) \<le> MAX_HEIGHT"
proof (induction G h r rule: random_height_loop.induct)
  case (1 G h r)
  then show ?case by (subst (1 2) random_height_loop.simps) (auto split: prod.splits)
qed

lemma random_height_range: "random_height G r = (nh, r') \<Longrightarrow> 1 \<le> nh \<and> nh \<le> MAX_HEIGHT"
  using random_height_loop_bounds [of 1 G r] by (simp add: random_height_def MAX_HEIGHT_def)

definition sm_entry :: "'r skipmap \<Rightarrow> nat \<Rightarrow> bytes \<times> bytes" where
  "sm_entry m a = (nd_key (sm_nodes m ! a), nd_value (sm_nodes m ! a))"

text \<open>The map as the ascending list of its entries.\<close>

definition sm_rep :: "(bytes \<Rightarrow> bool) \<Rightarrow> (bytes \<Rightarrow> 'k::linorder) \<Rightarrow> 'r skipmap \<Rightarrow> (bytes \<times> bytes) list \<Rightarrow> bool" where
  "sm_rep K sk m es \<longleftrightarrow> (\<exists>xs. sm_inv K sk m xs \<and> es = map (sm_entry m) xs)"

text \<open>The store that \<^verbatim>\<open>insert\<close> leaves, once the search has found the nodes \<open>Q\<close> before the new one.\<close>

lemma link_spliced:
  assumes links: "links ns (Q @ R)" and nh: "1 \<le> nh" "nh \<le> MAX_HEIGHT"
    and prevs: "length prevs = nh" "\<forall>i < nh. prevs ! i = Some (tip (filter (\<lambda>a. i < height_of ns a) Q))"
  obtains ns' ss' where
    "link_levels (length ns) prevs [0 ..< nh] (ns, replicate nh None) = Ok (ns', ss')" "length ss' = nh"
    "spliced ns (ns'[tip Q := (ns' ! tip Q)\<lparr>nd_next := Some (length ns)\<rparr>] @
       [\<lparr>nd_skips = ss', nd_next = nd_next (ns' ! tip Q), nd_key = k, nd_value = v\<rparr>]) Q nh"
    "\<And>a. a < length ns \<Longrightarrow> nd_key (ns' ! a) = nd_key (ns ! a) \<and> nd_value (ns' ! a) = nd_value (ns ! a) \<and>
       height_of ns' a = height_of ns a"
    "length ns' = length ns" "tip Q < length ns"
proof -
  define pr where "pr i = tip (filter (\<lambda>a. i < height_of ns a) Q)" for i
  have pr: "pr i < length ns \<and> i < height_of ns (pr i)" if "i < nh" for i
  proof -
    obtain q t where q: "Q = q @ t" "pr i = tip q" "q = [] \<or> i < height_of ns (tip q)"
      using tip_filter_split [of Q "\<lambda>a. i < height_of ns a"] unfolding pr_def by blast
    moreover have "tip q < length ns" using tip_in [of q] links_less [OF links] q(1) by auto
    ultimately show ?thesis using that nh(2) links_dest(3) [OF links] by auto
  qed
  have tQ: "tip Q < length ns" using tip_in [of Q] links_less [OF links] by auto
  obtain ns' ss' where *: "link_levels (length ns) prevs [0 ..< nh] (ns, replicate nh None) = Ok (ns', ss')"
    "length ns' = length ns" "length ss' = nh" "\<forall>i < nh. ss' ! i = nd_skips (ns ! pr i) ! i"
    "\<forall>a < length ns. height_of ns' a = height_of ns a \<and> nd_next (ns' ! a) = nd_next (ns ! a) \<and>
       nd_key (ns' ! a) = nd_key (ns ! a) \<and> nd_value (ns' ! a) = nd_value (ns ! a) \<and>
       (\<forall>l < height_of ns a. nd_skips (ns' ! a) ! l = (if l < nh \<and> a = pr l then Some (length ns) else nd_skips (ns ! a) ! l))"
    using link_levels_spec [of "[0 ..< nh]" prevs pr ns "replicate nh None" "length ns"] pr prevs
    by (auto simp: pr_def)
  have sp: "spliced ns (ns'[tip Q := (ns' ! tip Q)\<lparr>nd_next := Some (length ns)\<rparr>] @
      [\<lparr>nd_skips = ss', nd_next = nd_next (ns' ! tip Q), nd_key = k, nd_value = v\<rparr>]) Q nh"
    using * nh tQ by (auto simp: spliced_def height_of_def nth_append nth_list_update pr_def)
  show thesis by (rule that [OF *(1,3) sp]) (use * tQ in auto)
qed

lemma sm_inv_splice:
  assumes inv: "sm_inv K sk m (Q @ R)" and key: "K key" "key \<noteq> []"
    and order: "\<forall>a \<in> set Q. sk (nd_key (sm_nodes m ! a)) < sk key" "\<forall>a \<in> set R. sk key < sk (nd_key (sm_nodes m ! a))"
    and sp: "spliced (sm_nodes m) ns' Q nh"
    and new: "nd_key (ns' ! length (sm_nodes m)) = key" "nd_value (ns' ! length (sm_nodes m)) = val"
    and same: "\<And>a. a < length (sm_nodes m) \<Longrightarrow>
      nd_key (ns' ! a) = nd_key (sm_nodes m ! a) \<and> nd_value (ns' ! a) = nd_value (sm_nodes m ! a)"
    and m': "m' = m\<lparr>sm_nodes := ns', sm_rand := r', sm_len := sm_len m + 1,
      sm_approx_mem := sm_approx_mem m + (size_of_Node + size_of_ptr * nh + length key + length val)\<rparr>"
  shows "sm_inv K sk m' (Q @ length (sm_nodes m) # R)"
    "map (sm_entry m') (Q @ length (sm_nodes m) # R) = map (sm_entry m) Q @ (key, val) # map (sm_entry m) R"
proof -
  have links: "links (sm_nodes m) (Q @ R)" using inv by (simp add: sm_inv_def)
  have less: "a < length (sm_nodes m)" if "a \<in> set (Q @ R)" for a using links_less [OF links] that by blast
  have mem: "node_mem (ns' ! a) = node_mem (sm_nodes m ! a)" if "a \<in> set (Q @ R)" for a
    using same [OF less [OF that]] splicedD(1) [OF sp less [OF that]] by (simp add: node_mem_def height_of_def)
  have memn: "node_mem (ns' ! length (sm_nodes m)) = size_of_Node + size_of_ptr * nh + length key + length val"
    using new splicedD(4) [OF sp] by (simp add: node_mem_def height_of_def)
  have sum: "(\<Sum>a \<leftarrow> Q @ R. node_mem (ns' ! a)) = (\<Sum>a \<leftarrow> Q @ R. node_mem (sm_nodes m ! a))"
    using mem by (intro arg_cong [where f = sum_list] map_cong) auto
  have kk: "nd_key (ns' ! a) = nd_key (sm_nodes m ! a)" if "a \<in> set (Q @ R)" for a using same [OF less [OF that]] by blast
  have srt: "sorted_wrt (\<lambda>a b. sk (nd_key (ns' ! a)) < sk (nd_key (ns' ! b))) (Q @ length (sm_nodes m) # R)"
  proof -
    have "sorted_wrt (\<lambda>a b. sk (nd_key (ns' ! a)) < sk (nd_key (ns' ! b))) (Q @ R)"
      using inv kk unfolding sm_inv_def by (auto elim!: sorted_wrt_mono_rel [rotated])
    then show ?thesis using order kk new(1) by (auto simp: sorted_wrt_append)
  qed
  show "sm_inv K sk m' (Q @ length (sm_nodes m) # R)"
    using inv srt links_insert [OF links sp] kk key new(1) sum memn unfolding sm_inv_def m' by auto
  show "map (sm_entry m') (Q @ length (sm_nodes m) # R) = map (sm_entry m) Q @ (key, val) # map (sm_entry m) R"
    using same [OF less] new by (simp add: sm_entry_def m')
qed

context key_order
begin

lemma insert_inv:
  assumes inv: "sm_inv wf sort_key m xs" and key: "wf key" "key \<noteq> []"
    and new: "\<forall>a \<in> set xs. sort_key (nd_key (sm_nodes m ! a)) \<noteq> sort_key key"
  defines "Q \<equiv> takeWhile (\<lambda>a. sort_key (nd_key (sm_nodes m ! a)) < sort_key key) xs"
    and "R \<equiv> dropWhile (\<lambda>a. sort_key (nd_key (sm_nodes m ! a)) < sort_key key) xs"
  shows "\<exists>m'. SkipMap_insert G cmp m key val = Ok m' \<and> sm_inv wf sort_key m' (Q @ length (sm_nodes m) # R) \<and>
    map (sm_entry m') (Q @ length (sm_nodes m) # R) = map (sm_entry m) Q @ (key, val) # map (sm_entry m) R \<and>
    sm_approx_mem m' \<le> sm_approx_mem m + (size_of_Node + size_of_ptr * MAX_HEIGHT + length key + length val)"
proof -
  let ?ns = "sm_nodes m"
  have QR: "xs = Q @ R" by (simp add: Q_def R_def)
  have links: "links ?ns (Q @ R)" using inv QR by (simp add: sm_inv_def)
  obtain nh r' where rh: "random_height G (sm_rand m) = (nh, r')" by force
  from random_height_range [OF this] have nh: "1 \<le> nh" "nh \<le> MAX_HEIGHT" by auto
  have "\<exists>prevs'. ins_loop cmp ?ns key nh (tip []) (MAX_HEIGHT - 1) (replicate nh (Some 0)) = Some (Ok (prevs', tip Q)) \<and>
      length prevs' = nh \<and> (\<forall>i < nh. prevs' ! i =
        (if i \<le> MAX_HEIGHT - 1 then Some (tip (filter (\<lambda>a. i < height_of ?ns a) Q)) else replicate nh (Some 0) ! i))"
    unfolding Q_def by (rule ins_loop_spec)
      (use inv key new in \<open>auto simp: sm_inv_def links_dest(3) MAX_HEIGHT_def\<close>)
  then obtain prevs where ins: "ins_loop cmp ?ns key nh 0 (MAX_HEIGHT - 1) (replicate nh (Some 0)) = Some (Ok (prevs, tip Q))"
    and prevs: "length prevs = nh" "\<forall>i < nh. prevs ! i = Some (tip (filter (\<lambda>a. i < height_of ?ns a) Q))"
    using nh by (auto simp: MAX_HEIGHT_def)
  obtain ns' ss' where l: "link_levels (length ?ns) prevs [0 ..< nh] (?ns, replicate nh None) = Ok (ns', ss')" "length ss' = nh"
    and sp: "spliced ?ns (ns'[tip Q := (ns' ! tip Q)\<lparr>nd_next := Some (length ?ns)\<rparr>] @
       [\<lparr>nd_skips = ss', nd_next = nd_next (ns' ! tip Q), nd_key = key, nd_value = val\<rparr>]) Q nh"
    and same: "\<And>a. a < length ?ns \<Longrightarrow> nd_key (ns' ! a) = nd_key (?ns ! a) \<and> nd_value (ns' ! a) = nd_value (?ns ! a) \<and>
       height_of ns' a = height_of ?ns a" "length ns' = length ?ns" "tip Q < length ?ns"
    using link_spliced [OF links nh prevs, where k = key and v = val] by metis
  let ?m = "m\<lparr>sm_nodes := ns'[tip Q := (ns' ! tip Q)\<lparr>nd_next := Some (length ?ns)\<rparr>] @
       [\<lparr>nd_skips = ss', nd_next = nd_next (ns' ! tip Q), nd_key = key, nd_value = val\<rparr>], sm_rand := r', sm_len := sm_len m + 1,
      sm_approx_mem := sm_approx_mem m + (size_of_Node + size_of_ptr * nh + length key + length val)\<rparr>"
  have R: "\<forall>a \<in> set R. sort_key key < sort_key (nd_key (?ns ! a))"
    unfolding R_def by (rule dropWhile_above [OF _ new]) (use inv in \<open>simp add: sm_inv_def\<close>)
  have Q: "\<forall>a \<in> set Q. sort_key (nd_key (?ns ! a)) < sort_key key" by (auto simp: Q_def dest: set_takeWhileD)
  note * = sm_inv_splice [OF inv [unfolded QR] key Q R sp, where val = val and r' = r', OF _ _ _ refl]
  have "SkipMap_insert G cmp m key val = Ok ?m"
    using key(2) rh ins l by (simp add: SkipMap_insert_def run_loop_def Let_def)
  moreover have "sm_inv wf sort_key ?m (Q @ length ?ns # R)"
      "map (sm_entry ?m) (Q @ length ?ns # R) = map (sm_entry m) Q @ (key, val) # map (sm_entry m) R"
    by (rule *; use same in \<open>auto simp: nth_append nth_list_update\<close>)+
  moreover have "sm_approx_mem ?m \<le> sm_approx_mem m + (size_of_Node + size_of_ptr * MAX_HEIGHT + length key + length val)"
    using nh(2) by simp
  ultimately show ?thesis by blast
qed


lemma insert_rep:
  assumes rep: "sm_rep wf sort_key m es" and key: "wf key" "key \<noteq> []"
    and new: "\<forall>e \<in> set es. sort_key (fst e) \<noteq> sort_key key"
  shows "\<exists>m'. SkipMap_insert G cmp m key val = Ok m' \<and>
    sm_rep wf sort_key m' (takeWhile (\<lambda>e. sort_key (fst e) < sort_key key) es @ (key, val) #
      dropWhile (\<lambda>e. sort_key (fst e) < sort_key key) es) \<and>
    sm_approx_mem m' \<le> sm_approx_mem m + (size_of_Node + size_of_ptr * MAX_HEIGHT + length key + length val)"
proof -
  from rep obtain xs where inv: "sm_inv wf sort_key m xs" and es: "es = map (sm_entry m) xs" unfolding sm_rep_def by blast
  have e: "(\<lambda>e. sort_key (fst e) < sort_key key) \<circ> sm_entry m = (\<lambda>a. sort_key (nd_key (sm_nodes m ! a)) < sort_key key)"
    by (auto simp: sm_entry_def)
  have "\<forall>a \<in> set xs. sort_key (nd_key (sm_nodes m ! a)) \<noteq> sort_key key" using new es by (auto simp: sm_entry_def)
  from insert_inv [OF inv key this] show ?thesis
    unfolding sm_rep_def es takeWhile_map dropWhile_map e by metis
qed

text \<open>A key that is already in the map is refused by the assertion.\<close>

lemma ins_loop_duplicate:
  assumes links: "links ns xs" and sorted: "sorted_wrt (\<lambda>a b. sort_key (nd_key (ns ! a)) < sort_key (nd_key (ns ! b))) xs"
    and wfs: "\<forall>a \<in> set xs. wf (nd_key (ns ! a))" "wf key"
  shows "xs = p @ s \<Longrightarrow> level < height_of ns (tip p) \<Longrightarrow> a \<in> set s \<Longrightarrow> sort_key (nd_key (ns ! a)) = sort_key key \<Longrightarrow>
    ins_loop cmp ns key nh (tip p) level prevs = Some Panic"
proof (induction "level + length s" arbitrary: level p s prevs rule: less_induct)
  case less
  note nxt = ins_next_spec [OF links less.prems(1,2) wfs]
  have down: "ins_loop cmp ns key nh (tip p) (level - 1) prevs' = Some Panic" if "level \<noteq> 0" for prevs'
    by (rule less.hyps) (use that less.prems in auto)
  show ?case
  proof (cases "List.find (\<lambda>a. level < height_of ns a) s")
    case None
    then have "s = []" if "level = 0" using that links_level0 [OF links less.prems(1)] by (cases s) auto
    then have "level \<noteq> 0" using less.prems(3) by force
    with None down show ?thesis by (subst ins_loop.simps, subst nxt) (simp add: Let_def)
  next
    case (Some nx)
    then obtain s1 s2 where s: "s = s1 @ nx # s2" and h: "level < height_of ns nx"
      and low: "\<forall>a \<in> set s1. \<not> level < height_of ns a" by (rule find_SomeE)
    have ord: "\<forall>a \<in> set s1. sort_key (nd_key (ns ! a)) < sort_key (nd_key (ns ! nx))"
      "\<forall>a \<in> set s2. sort_key (nd_key (ns ! nx)) < sort_key (nd_key (ns ! a))"
      using sorted by (simp_all add: less.prems(1) s sorted_wrt_append)
    consider (lt) "sort_key (nd_key (ns ! nx)) < sort_key key" | (eq) "sort_key (nd_key (ns ! nx)) = sort_key key"
      | (gt) "sort_key key < sort_key (nd_key (ns ! nx))" by fastforce
    then show ?thesis
    proof cases
      case lt
      then have "a \<in> set s2" using less.prems(3,4) s ord by fastforce
      then have "ins_loop cmp ns key nh (tip ((p @ s1) @ [nx])) level prevs = Some Panic"
        by (intro less.hyps) (use s h less.prems in auto)
      with lt Some show ?thesis by (subst ins_loop.simps, subst nxt) simp
    next
      case eq
      with Some show ?thesis by (subst ins_loop.simps, subst nxt) simp
    next
      case gt
      have "s1 = []" if "level = 0" using that low s less.prems(1) links_low0 [OF links, of p s1 "nx # s2"] by simp
      then have "level \<noteq> 0" using less.prems(3,4) gt ord s by fastforce
      with gt Some down show ?thesis by (subst ins_loop.simps, subst nxt) (auto simp: Let_def)
    qed
  qed
qed

lemma insert_duplicate:
  assumes rep: "sm_rep wf sort_key m es" and key: "wf key" and dup: "e \<in> set es" "sort_key (fst e) = sort_key key"
  shows "SkipMap_insert G cmp m key val = Panic"
proof -
  from rep obtain xs where inv: "sm_inv wf sort_key m xs" and es: "es = map (sm_entry m) xs" unfolding sm_rep_def by blast
  from es dup obtain a where a: "a \<in> set xs" "sort_key (nd_key (sm_nodes m ! a)) = sort_key key" by (auto simp: sm_entry_def)
  have "ins_loop cmp (sm_nodes m) key nh (tip []) (MAX_HEIGHT - 1) prevs = Some Panic" for nh prevs
    by (rule ins_loop_duplicate) (use inv key a in \<open>auto simp: sm_inv_def links_dest(3) MAX_HEIGHT_def\<close>)
  then show ?thesis by (auto simp: SkipMap_insert_def run_loop_def split: prod.splits)
qed

text \<open>What a seek finds.\<close>

lemma seek_current:
  assumes rep: "sm_rep wf sort_key m es" and key: "wf key"
  shows "\<exists>a. SkipMapIter_seek cmp m key = Ok a \<and>
    SkipMapIter_current m a = List.find (\<lambda>e. sort_key key \<le> sort_key (fst e)) es"
proof -
  from rep obtain xs where inv: "sm_inv wf sort_key m xs" and es: "es = map (sm_entry m) xs" unfolding sm_rep_def by blast
  have f: "List.find (\<lambda>e. sort_key key \<le> sort_key (fst e)) es =
      map_option (sm_entry m) (List.find (\<lambda>a. sort_key key \<le> sort_key (nd_key (sm_nodes m ! a))) xs)"
    unfolding es by (induction xs) (auto simp: sm_entry_def)
  show ?thesis
  proof (cases "List.find (\<lambda>a. sort_key key \<le> sort_key (nd_key (sm_nodes m ! a))) xs")
    case None
    then show ?thesis using f get_greater_or_equal_spec [OF inv key]
      by (simp add: SkipMapIter_seek_def SkipMapIter_current_def SkipMapIter_valid_def)
  next
    case (Some a)
    then have "a \<in> set xs" by (auto elim!: find_SomeE)
    then have "a \<noteq> 0" by (rule sm_inv_nonzero [OF inv])
    then show ?thesis using Some f get_greater_or_equal_spec [OF inv key]
      by (simp add: SkipMapIter_seek_def SkipMapIter_current_def SkipMapIter_valid_def sm_entry_def)
  qed
qed

text \<open>An iterator stands before the first entry or on an entry; \<^verbatim>\<open>advance\<close> and \<^verbatim>\<open>prev\<close> move it by one.\<close>

lemma advance_spec:
  assumes "sm_inv wf sort_key m xs" "xs = p @ s"
  shows "SkipMapIter_advance m (tip p) = (case s of [] \<Rightarrow> (False, 0) | a # _ \<Rightarrow> (True, a))"
  using assms links_next [of "sm_nodes m" p s] by (auto simp: sm_inv_def SkipMapIter_advance_def split: list.splits)

lemma prev_spec:
  assumes inv: "sm_inv wf sort_key m xs" and xs: "xs = p @ a # s"
  shows "SkipMapIter_prev cmp m a = Ok (p \<noteq> [], tip p)"
proof -
  have a: "wf (nd_key (sm_nodes m ! a))" "a \<noteq> 0" using inv xs links_dest(1) [of "sm_nodes m" xs] by (auto simp: sm_inv_def)
  have "takeWhile (\<lambda>b. sort_key (nd_key (sm_nodes m ! b)) < sort_key (nd_key (sm_nodes m ! a))) xs = p"
    using inv xs by (auto simp: sm_inv_def sorted_wrt_append)
  moreover have "nd_key (sm_nodes m ! last p) \<noteq> []" if "p \<noteq> []"
    using inv xs last_in_set [OF that] by (auto simp: sm_inv_def)
  ultimately show ?thesis using get_next_smaller_spec [OF inv a(1)] a(2)
    by (auto simp: SkipMapIter_prev_def SkipMapIter_valid_def)
qed

end

text \<open>The iterator run to its end.\<close>

primrec collect :: "'r skipmap \<Rightarrow> nat \<Rightarrow> nat \<Rightarrow> (bytes \<times> bytes) list" where
  "collect m 0 current = []"
| "collect m (Suc n) current =
     (case SkipMapIter_advance m current of
        (True, a) \<Rightarrow> (case SkipMapIter_current m a of Some e \<Rightarrow> e # collect m n a | None \<Rightarrow> [])
      | (False, _) \<Rightarrow> [])"

context key_order
begin

lemma collect_from:
  assumes inv: "sm_inv wf sort_key m xs"
  shows "xs = p @ s \<Longrightarrow> length s < n \<Longrightarrow> collect m n (tip p) = map (sm_entry m) s"
proof (induction n arbitrary: p s)
  case (Suc n)
  show ?case
  proof (cases s)
    case Nil
    then show ?thesis using advance_spec [OF inv Suc.prems(1)] by simp
  next
    case (Cons a s')
    have "a \<noteq> 0" using inv Suc.prems(1) Cons links_dest(1) [of "sm_nodes m" xs] by (auto simp: sm_inv_def)
    moreover have "collect m n (tip (p @ [a])) = map (sm_entry m) s'" using Suc Cons by (intro Suc.IH) auto
    ultimately show ?thesis using advance_spec [OF inv Suc.prems(1)] Cons
      by (simp add: SkipMapIter_current_def SkipMapIter_valid_def sm_entry_def)
  qed
qed simp

lemma collect_all: "sm_rep wf sort_key m es \<Longrightarrow> collect m (sm_len m + 1) SkipMapIter_new = es"
proof -
  assume "sm_rep wf sort_key m es"
  then obtain xs where xs: "sm_inv wf sort_key m xs" "es = map (sm_entry m) xs" unfolding sm_rep_def by blast
  moreover have "sm_len m = length xs" using xs(1) by (simp add: sm_inv_def)
  ultimately show ?thesis using collect_from [OF xs(1), of "[]" xs "sm_len m + 1"] by (simp add: SkipMapIter_new_def)
qed

end

end
