(* ===== verification/Ldb_Memtable.thy ===== *)
theory Ldb_Memtable
  imports Ldb_Skipmap
begin

text \<open>
  The memtable of the database, \<^verbatim>\<open>memtable.rs\<close>: a skip map whose keys carry the
  user key, the sequence number, the kind of the entry and the value.  Its
  iterator translates to internal keys.

  \<open>mt_rep\<close> reads a memtable as the list of its entries, ascending by user key and,
  for one user key, descending by sequence number.  A lookup returns the first
  entry of the key that is not newer than the sequence number asked for.
\<close>

section \<open>The operations\<close>

type_synonym 'r memtable = "'r skipmap"

definition MemTable_new :: "'r rng \<Rightarrow> 'r memtable" where
  "MemTable_new G = SkipMap_new G"

definition MemTable_len :: "'r memtable \<Rightarrow> nat" where
  "MemTable_len m = sm_len m"

definition approx_mem_usage :: "'r memtable \<Rightarrow> nat" where
  "approx_mem_usage m = sm_approx_mem m"

definition MemTable_add :: "'r rng \<Rightarrow> int_enc \<Rightarrow> cmp \<Rightarrow> 'r memtable \<Rightarrow> u64 \<Rightarrow> value_type \<Rightarrow> bytes \<Rightarrow> bytes \<Rightarrow> 'r memtable ldb" where
  "MemTable_add G I ucmp m sq t key v =
     bind_result (build_memtable_key I key v t sq) (\<lambda>k. SkipMap_insert G (MemtableKeyCmp_cmp I ucmp) m k [])"

text \<open>The value found, and whether the entry is a deletion.\<close>

definition MemTable_get :: "int_enc \<Rightarrow> cmp \<Rightarrow> 'r memtable \<Rightarrow> lookup_key \<Rightarrow> (bytes option \<times> bool) ldb" where
  "MemTable_get I ucmp m key =
     bind_result (SkipMapIter_seek (MemtableKeyCmp_cmp I ucmp) m (memtable_key key)) (\<lambda>iter.
     case SkipMapIter_current m iter of
       None \<Rightarrow> Ok (None, False)
     | Some (foundkey, _) \<Rightarrow>
         bind_result (parse_memtable_key I foundkey) (\<lambda>(fkeylen, fkeyoff, tag, vallen, valoff).
         bind_result (user_key key) (\<lambda>ukey.
         bind_result (slice fkeyoff (fkeyoff + fkeylen) foundkey) (\<lambda>fkey.
         if ukey = fkey then
           if tag AND 0xFF = value_type_num TypeValue
           then bind_result (slice valoff (valoff + vallen) foundkey) (\<lambda>v. Ok (Some v, False))
           else Ok (None, True)
         else Ok (None, False)))))"

section \<open>The iterator\<close>

definition swap_at :: "nat \<Rightarrow> nat \<Rightarrow> 'a list \<Rightarrow> 'a list" where
  "swap_at i j xs = xs[i := xs ! j, j := xs ! i]"

definition shift_left :: "'a list \<Rightarrow> nat \<Rightarrow> 'a list ldb" where
  "shift_left s mid =
     (let s' = fold (\<lambda>i xs. swap_at i (i - mid) xs) [mid ..< length s] s in
      if length s' < mid then Panic else Ok (take (length s' - mid) s'))"

definition MemtableIterator_advance :: "'r memtable \<Rightarrow> nat \<Rightarrow> bool \<times> nat" where
  "MemtableIterator_advance m it =
     (case SkipMapIter_advance m it of
        (False, it') \<Rightarrow> (False, it')
      | (True, it') \<Rightarrow> (SkipMapIter_valid it', it'))"

text \<open>One round of the loop of \<^verbatim>\<open>prev\<close> returns, or goes on from the entry it has reached.\<close>

definition prev_round :: "int_enc \<Rightarrow> cmp \<Rightarrow> 'r memtable \<Rightarrow> nat \<Rightarrow> (bool \<times> nat + nat) ldb" where
  "prev_round I ucmp m it =
     bind_result (SkipMapIter_prev (MemtableKeyCmp_cmp I ucmp) m it) (\<lambda>(found, it').
     if \<not> found then Ok (Inl (False, it'))
     else case SkipMapIter_current m it' of
       None \<Rightarrow> Ok (Inl (False, it'))
     | Some (key, _) \<Rightarrow>
         bind_result (parse_memtable_key I key) (\<lambda>(_, _, tag, _, _).
         Ok (if tag AND 0xFF = value_type_num TypeValue then Inl (True, it') else Inr it')))"

partial_function (option) MemtableIterator_prev :: "int_enc \<Rightarrow> cmp \<Rightarrow> 'r memtable \<Rightarrow> nat \<Rightarrow> (bool \<times> nat) ldb option" where
  "MemtableIterator_prev I ucmp m it =
     (case prev_round I ucmp m it of
        Ok (Inl r) \<Rightarrow> Some (Ok r)
      | Ok (Inr it') \<Rightarrow> MemtableIterator_prev I ucmp m it'
      | Err e \<Rightarrow> Some (Err e)
      | Panic \<Rightarrow> Some Panic)"

definition MemtableIterator_current :: "int_enc \<Rightarrow> 'r memtable \<Rightarrow> nat \<Rightarrow> (bytes \<times> bytes) option ldb" where
  "MemtableIterator_current I m it =
     (if \<not> SkipMapIter_valid it then Ok None
      else case SkipMapIter_current m it of
        None \<Rightarrow> Panic
      | Some (key, _) \<Rightarrow>
          bind_result (parse_memtable_key I key) (\<lambda>(keylen, keyoff, _, vallen, valoff).
          bind_result (slice valoff (valoff + vallen) key) (\<lambda>val.
          bind_result (shift_left key keyoff) (\<lambda>key'.
          Ok (Some (take (keylen + U64_SPACE) key', val))))))"

definition MemtableIterator_seek :: "int_enc \<Rightarrow> cmp \<Rightarrow> 'r memtable \<Rightarrow> bytes \<Rightarrow> nat ldb" where
  "MemtableIterator_seek I ucmp m ikey =
     bind_result (parse_internal_key I ikey) (\<lambda>(_, sq, ukey).
     SkipMapIter_seek (MemtableKeyCmp_cmp I ucmp) m (memtable_key (LookupKey_new I ukey sq)))"

section \<open>Shifting\<close>

text \<open>\<^verbatim>\<open>shift_left\<close> swaps in place what a copy of the tail would give.\<close>

lemma shift_swaps:
  "mid \<le> j \<Longrightarrow> j \<le> length s \<Longrightarrow>
    length (fold (\<lambda>i xs. swap_at i (i - mid) xs) [mid ..< j] s) = length s \<and>
    (\<forall>k < j - mid. fold (\<lambda>i xs. swap_at i (i - mid) xs) [mid ..< j] s ! k = s ! (mid + k)) \<and>
    (\<forall>k < length s. j \<le> k \<longrightarrow> fold (\<lambda>i xs. swap_at i (i - mid) xs) [mid ..< j] s ! k = s ! k)"
proof (induction j)
  case (Suc j)
  show ?case
  proof (cases "mid \<le> j")
    case True
    let ?f = "fold (\<lambda>i xs. swap_at i (i - mid) xs) [mid ..< j] s"
    have IH: "length ?f = length s" "\<forall>k < j - mid. ?f ! k = s ! (mid + k)" "\<forall>k < length s. j \<le> k \<longrightarrow> ?f ! k = s ! k"
      using Suc True by auto
    have "swap_at j (j - mid) ?f ! k = s ! (mid + k)" if "k < Suc j - mid" for k
    proof (cases "k = j - mid")
      case True
      then show ?thesis using IH Suc.prems \<open>mid \<le> j\<close> by (simp add: swap_at_def nth_list_update)
    next
      case False
      with that have "k < j - mid" by simp
      then show ?thesis using IH Suc.prems by (simp add: swap_at_def nth_list_update)
    qed
    moreover have "swap_at j (j - mid) ?f ! k = s ! k" if "k < length s" "Suc j \<le> k" for k
      using that IH Suc.prems by (simp add: swap_at_def nth_list_update)
    ultimately show ?thesis using IH(1) True by (simp add: swap_at_def)
  qed (use Suc.prems in auto)
qed auto

lemma shift_left_drop: "shift_left s mid = (if mid \<le> length s then Ok (drop mid s) else Panic)"
proof (cases "mid \<le> length s")
  case True
  let ?f = "fold (\<lambda>i xs. swap_at i (i - mid) xs) [mid ..< length s] s"
  have *: "length ?f = length s" "\<forall>k < length s - mid. ?f ! k = s ! (mid + k)"
    using shift_swaps [of mid "length s" s] True by auto
  then have "take (length s - mid) ?f = drop mid s" using True by (intro nth_equalityI) auto
  with * True show ?thesis by (simp add: shift_left_def Let_def)
qed (simp add: shift_left_def Let_def)

section \<open>The entries of a memtable\<close>

record mt_entry =
  e_key :: bytes
  e_seq :: u64
  e_type :: value_type
  e_value :: bytes

definition entry_ok :: "mt_entry \<Rightarrow> bool" where
  "entry_ok e \<longleftrightarrow> length (e_key e) + 8 < 2 ^ 64 \<and> length (e_value e) < 2 ^ 64 \<and> seq_ok (e_seq e)"

definition entry_key :: "int_enc \<Rightarrow> mt_entry \<Rightarrow> bytes" where
  "entry_key I e = mkey_entry I (e_key e) (e_value e) (e_type e) (e_seq e)"

definition entry_sort :: "mt_entry \<Rightarrow> bytes \<times> int" where
  "entry_sort e = (e_key e, seq_desc (e_seq e))"

definition mt_rep :: "int_enc \<Rightarrow> 'r memtable \<Rightarrow> mt_entry list \<Rightarrow> bool" where
  "mt_rep I m es \<longleftrightarrow> int_enc_ok I \<and> list_all entry_ok es \<and>
     sm_rep (mkey_wf I) (mkey_sort I) m (map (\<lambda>e. (entry_key I e, [])) es)"

text \<open>The entry of a key that is visible at a sequence number.\<close>

definition visible :: "mt_entry list \<Rightarrow> bytes \<Rightarrow> u64 \<Rightarrow> mt_entry option" where
  "visible es k sq = List.find (\<lambda>e. e_key e = k \<and> e_seq e \<le> sq) es"

definition entry_result :: "mt_entry option \<Rightarrow> bytes option \<times> bool" where
  "entry_result r = (case r of
     None \<Rightarrow> (None, False)
   | Some e \<Rightarrow> (case e_type e of TypeValue \<Rightarrow> (Some (e_value e), False) | TypeDeletion \<Rightarrow> (None, True)))"

lemma entry_key_wf: "int_enc_ok I \<Longrightarrow> entry_ok e \<Longrightarrow> mkey_wf I (entry_key I e)"
  by (auto simp: mkey_wf_def entry_key_def mkey_entry_def entry_ok_def)

lemma entry_key_sort [simp]: "int_enc_ok I \<Longrightarrow> entry_ok e \<Longrightarrow> mkey_sort I (entry_key I e) = entry_sort e"
  by (simp add: entry_key_def mkey_entry_def entry_ok_def mkey_sort_head entry_sort_def)

lemma entry_key_nonempty: "int_enc_ok I \<Longrightarrow> entry_ok e \<Longrightarrow> entry_key I e \<noteq> []"
  using encode_var_length [of I "length (e_key e) + 8"] by (auto simp: entry_key_def mkey_entry_def mkey_head_def entry_ok_def)

lemma MemTable_new_rep: "int_enc_ok I \<Longrightarrow> mt_rep I (MemTable_new G) []"
  using SkipMap_new_inv by (auto simp: mt_rep_def MemTable_new_def sm_rep_def)

lemma mt_rep_sorted:
  assumes "mt_rep I m es"
  shows "sorted_wrt (\<lambda>a b. entry_sort a < entry_sort b) es"
proof -
  from assms obtain xs where inv: "sm_inv (mkey_wf I) (mkey_sort I) m xs"
    and xs: "map (\<lambda>e. (entry_key I e, [])) es = map (sm_entry m) xs"
    unfolding mt_rep_def sm_rep_def by blast
  have "map (\<lambda>a. mkey_sort I (nd_key (sm_nodes m ! a))) xs = map (mkey_sort I \<circ> fst) (map (sm_entry m) xs)"
    by (simp add: sm_entry_def)
  also have "\<dots> = map entry_sort es"
    unfolding xs [symmetric] using assms by (auto simp: mt_rep_def list_all_iff)
  finally have *: "map (\<lambda>a. mkey_sort I (nd_key (sm_nodes m ! a))) xs = map entry_sort es" .
  have "sorted_wrt (<) (map (\<lambda>a. mkey_sort I (nd_key (sm_nodes m ! a))) xs)"
    using inv by (simp add: sm_inv_def sorted_wrt_map)
  then show ?thesis unfolding * by (simp add: sorted_wrt_map)
qed

section \<open>Adding and looking up\<close>

definition insert_entry :: "mt_entry \<Rightarrow> mt_entry list \<Rightarrow> mt_entry list" where
  "insert_entry e es =
     takeWhile (\<lambda>e'. entry_sort e' < entry_sort e) es @ e # dropWhile (\<lambda>e'. entry_sort e' < entry_sort e) es"

lemma set_insert_entry [simp]: "set (insert_entry e es) = insert e (set es)"
proof -
  have "set (takeWhile (\<lambda>e'. entry_sort e' < entry_sort e) es) \<union> set (dropWhile (\<lambda>e'. entry_sort e' < entry_sort e) es) = set es"
    by (metis set_append takeWhile_dropWhile_id)
  then show ?thesis unfolding insert_entry_def by auto
qed

text \<open>What an entry adds to the memory in use, at most.\<close>

definition entry_cost :: "nat \<Rightarrow> nat \<Rightarrow> nat" where
  "entry_cost klen vlen = size_of_Node + size_of_ptr * MAX_HEIGHT + 28 + klen + vlen"

lemma entry_key_length: "int_enc_ok I \<Longrightarrow> entry_ok e \<Longrightarrow> length (entry_key I e) \<le> 28 + length (e_key e) + length (e_value e)"
  using encode_var_length [of I "length (e_key e) + 8"] encode_var_length [of I "length (e_value e)"]
  by (simp add: entry_key_def mkey_entry_def mkey_head_def entry_ok_def encode_fixed64_length)

lemma takeWhile_entries:
  assumes "int_enc_ok I" "list_all entry_ok es" "entry_ok e"
  shows "takeWhile (\<lambda>x. mkey_sort I (fst x) < mkey_sort I (entry_key I e)) (map (\<lambda>e. (entry_key I e, [])) es) =
      map (\<lambda>e. (entry_key I e, [])) (takeWhile (\<lambda>e'. entry_sort e' < entry_sort e) es)"
    and "dropWhile (\<lambda>x. mkey_sort I (fst x) < mkey_sort I (entry_key I e)) (map (\<lambda>e. (entry_key I e, [])) es) =
      map (\<lambda>e. (entry_key I e, [])) (dropWhile (\<lambda>e'. entry_sort e' < entry_sort e) es)"
  using assms(2) by (induction es) (auto simp: assms)

lemma MemTable_add_rep:
  assumes rep: "mt_rep I m es" and e: "entry_ok e" and new: "\<forall>e' \<in> set es. entry_sort e' \<noteq> entry_sort e"
  shows "\<exists>m'. MemTable_add G I DefaultCmp_cmp m (e_seq e) (e_type e) (e_key e) (e_value e) = Ok m' \<and>
    mt_rep I m' (insert_entry e es) \<and> approx_mem_usage m' \<le> approx_mem_usage m + entry_cost (length (e_key e)) (length (e_value e))"
proof -
  from rep have I: "int_enc_ok I" and es: "list_all entry_ok es"
    and sm: "sm_rep (mkey_wf I) (mkey_sort I) m (map (\<lambda>e. (entry_key I e, [])) es)" unfolding mt_rep_def by auto
  have "\<forall>x \<in> set (map (\<lambda>e. (entry_key I e, [])) es). mkey_sort I (fst x) \<noteq> mkey_sort I (entry_key I e)"
    using I e es new by (auto simp: list_all_iff)
  from mcmp.insert_rep [OF sm entry_key_wf [OF I e] entry_key_nonempty [OF I e] this, of G "[]"]
  obtain m' where m': "SkipMap_insert G (MemtableKeyCmp_cmp I DefaultCmp_cmp) m (entry_key I e) [] = Ok m'"
    "sm_rep (mkey_wf I) (mkey_sort I) m' (map (\<lambda>e. (entry_key I e, [])) (insert_entry e es))"
    "sm_approx_mem m' \<le> sm_approx_mem m + (size_of_Node + size_of_ptr * MAX_HEIGHT + length (entry_key I e))"
    by (auto simp: takeWhile_entries [OF I es e] insert_entry_def)
  have "list_all entry_ok (insert_entry e es)"
    using es e by (auto simp: insert_entry_def list_all_iff dest: set_takeWhileD set_dropWhileD)
  moreover have "build_memtable_key I (e_key e) (e_value e) (e_type e) (e_seq e) = Ok (entry_key I e)"
    using e I by (simp add: build_memtable_key_Ok entry_key_def entry_ok_def)
  ultimately show ?thesis
    using m' I entry_key_length [OF I e] by (auto simp: MemTable_add_def mt_rep_def approx_mem_usage_def entry_cost_def)
qed

lemma MemTable_add_duplicate:
  assumes rep: "mt_rep I m es" and e: "entry_ok e" and e': "e' \<in> set es" "entry_sort e' = entry_sort e"
  shows "MemTable_add G I DefaultCmp_cmp m (e_seq e) (e_type e) (e_key e) (e_value e) = Panic"
proof -
  from rep have I: "int_enc_ok I" and es: "list_all entry_ok es"
    and sm: "sm_rep (mkey_wf I) (mkey_sort I) m (map (\<lambda>e. (entry_key I e, [])) es)" unfolding mt_rep_def by auto
  have "SkipMap_insert G (MemtableKeyCmp_cmp I DefaultCmp_cmp) m (entry_key I e) [] = Panic"
    by (rule mcmp.insert_duplicate [OF sm entry_key_wf [OF I e], of "(entry_key I e', [])"])
      (use e' es I e in \<open>auto simp: list_all_iff\<close>)
  then show ?thesis using e I by (simp add: MemTable_add_def build_memtable_key_Ok entry_key_def entry_ok_def)
qed

lemma visible_find:
  "sorted_wrt (\<lambda>a b. entry_sort a < entry_sort b) es \<Longrightarrow>
    visible es k sq = (case List.find (\<lambda>e. (k, seq_desc sq) \<le> entry_sort e) es of
      Some e \<Rightarrow> if e_key e = k then Some e else None | None \<Rightarrow> None)"
proof (induction es)
  case (Cons e es)
  have le: "seq_desc sq \<le> seq_desc (e_seq e) \<longleftrightarrow> e_seq e \<le> sq" by (simp add: linorder_not_less [symmetric])
  show ?case
  proof (cases "(k, seq_desc sq) \<le> entry_sort e")
    case True
    have "visible es k sq = None" if "k < e_key e"
      using Cons.prems that by (force simp: visible_def find_None_iff entry_sort_def)
    with True show ?thesis by (auto simp: visible_def entry_sort_def le)
  next
    case False
    then show ?thesis using Cons by (auto simp: visible_def entry_sort_def le)
  qed
qed (simp add: visible_def)

lemma MemTable_get_rep:
  assumes rep: "mt_rep I m es" and sq: "seq_ok sq"
  shows "MemTable_get I DefaultCmp_cmp m (LookupKey_new I k sq) = Ok (entry_result (visible es k sq))"
proof -
  from rep have I: "int_enc_ok I" and es: "list_all entry_ok es"
    and sm: "sm_rep (mkey_wf I) (mkey_sort I) m (map (\<lambda>e. (entry_key I e, [])) es)" unfolding mt_rep_def by auto
  let ?key = "mkey_head I k (tag_of TypeValue sq)"
  have wf: "mkey_wf I ?key" unfolding mkey_wf_def using I by (metis append_Nil2)
  have sk: "mkey_sort I ?key = (k, seq_desc sq)" using mkey_sort_head [OF I, of k "tag_of TypeValue sq" "[]"] sq by simp
  have "List.find (\<lambda>x. mkey_sort I ?key \<le> mkey_sort I (fst x)) (map (\<lambda>e. (entry_key I e, [])) es) =
      map_option (\<lambda>e. (entry_key I e, [])) (List.find (\<lambda>e. (k, seq_desc sq) \<le> entry_sort e) es)"
    unfolding sk using es by (induction es) (auto simp: I)
  then obtain a where a: "SkipMapIter_seek (MemtableKeyCmp_cmp I DefaultCmp_cmp) m ?key = Ok a"
    "SkipMapIter_current m a = map_option (\<lambda>e. (entry_key I e, [])) (List.find (\<lambda>e. (k, seq_desc sq) \<le> entry_sort e) es)"
    using mcmp.seek_current [OF sm wf] by auto
  show ?thesis
  proof (cases "List.find (\<lambda>e. (k, seq_desc sq) \<le> entry_sort e) es")
    case None
    with a show ?thesis using visible_find [OF mt_rep_sorted [OF rep]] I
      by (simp add: MemTable_get_def LookupKey_new_keys entry_result_def)
  next
    case (Some e)
    then have e: "entry_ok e" using es by (auto simp: list_all_iff elim!: find_SomeE)
    show ?thesis using Some a visible_find [OF mt_rep_sorted [OF rep]] I
      by (auto simp: MemTable_get_def LookupKey_new_keys entry_result_def entry_key_def
          parse_memtable_entry [OF I] entry_slices [OF I] split: value_type.splits)
  qed
qed

text \<open>A newer entry hides the older ones of its key and leaves the other keys alone.\<close>

lemma visible_insert:
  assumes "\<forall>e' \<in> set es. e_seq e' < e_seq e" "sq = e_seq e"
  shows "visible (insert_entry e es) k sq = (if k = e_key e then Some e else visible es k sq)"
proof (cases "k = e_key e")
  case True
  have "List.find (\<lambda>e. e_key e = k \<and> e_seq e \<le> sq) (takeWhile (\<lambda>e'. entry_sort e' < entry_sort e) es) = None"
    using assms True by (auto simp: find_None_iff entry_sort_def dest!: set_takeWhileD)
  with True assms show ?thesis by (simp add: visible_def insert_entry_def find_append)
next
  case False
  then have "visible (insert_entry e es) k sq =
      visible (takeWhile (\<lambda>e'. entry_sort e' < entry_sort e) es @ dropWhile (\<lambda>e'. entry_sort e' < entry_sort e) es) k sq"
    unfolding visible_def insert_entry_def find_append by (auto split: option.splits)
  with False show ?thesis by simp
qed

lemma visible_hidden: "sq < e_seq e \<Longrightarrow> visible (insert_entry e es) k sq = visible es k sq"
proof -
  assume "sq < e_seq e"
  then have "visible (insert_entry e es) k sq = find (\<lambda>e. e_key e = k \<and> e_seq e \<le> sq)
      (takeWhile (\<lambda>e'. entry_sort e' < entry_sort e) es @ dropWhile (\<lambda>e'. entry_sort e' < entry_sort e) es)"
    by (auto simp: visible_def insert_entry_def find_append simp del: takeWhile_dropWhile_id split: option.splits)
  then show ?thesis by (simp add: visible_def)
qed

lemma visible_later:
  "\<forall>e \<in> set es. e_seq e \<le> sq \<Longrightarrow> sq \<le> sq' \<Longrightarrow> visible es k sq' = visible es k sq"
  unfolding visible_def by (rule find_cong) auto


section \<open>Iterating\<close>

text \<open>The internal key of an entry.\<close>

definition entry_ikey :: "int_enc \<Rightarrow> mt_entry \<Rightarrow> bytes" where
  "entry_ikey I e = e_key e @ encode_fixed64 I (tag_of (e_type e) (e_seq e))"

lemma MemtableIterator_current_entry:
  assumes I: "int_enc_ok I" and e: "entry_ok e" and a: "a \<noteq> 0" "nd_key (sm_nodes m ! a) = entry_key I e"
  shows "MemtableIterator_current I m a = Ok (Some (entry_ikey I e, e_value e))"
proof -
  have "drop (length (encode_var I (length (e_key e) + 8))) (entry_key I e) =
      entry_ikey I e @ encode_var I (length (e_value e)) @ e_value e"
    by (simp add: entry_key_def mkey_entry_def mkey_head_def entry_ikey_def)
  moreover have "length (encode_var I (length (e_key e) + 8)) \<le> length (entry_key I e)"
    by (simp add: entry_key_def mkey_entry_def mkey_head_def)
  ultimately show ?thesis
    using a I
    by (simp add: MemtableIterator_current_def SkipMapIter_valid_def SkipMapIter_current_def entry_key_def
        parse_memtable_entry [OF I] entry_slices [OF I] shift_left_drop U64_SPACE_def)
      (simp add: entry_ikey_def encode_fixed64_length)
qed

text \<open>
  Going back skips the deletions; it ends on the last value entry before the
  current one, or before the first entry.
\<close>

lemma MemtableIterator_prev_spec:
  assumes inv: "sm_inv (mkey_wf I) (mkey_sort I) m xs" and I: "int_enc_ok I"
    and ents: "\<forall>a \<in> set xs. entry_ok (ent a) \<and> nd_key (sm_nodes m ! a) = entry_key I (ent a)"
  shows "xs = p @ a # s \<Longrightarrow>
    MemtableIterator_prev I DefaultCmp_cmp m a =
      Some (Ok (filter (\<lambda>b. e_type (ent b) = TypeValue) p \<noteq> [], tip (filter (\<lambda>b. e_type (ent b) = TypeValue) p)))"
proof (induction p arbitrary: a s rule: rev_induct)
  case Nil
  then have "SkipMapIter_prev (MemtableKeyCmp_cmp I DefaultCmp_cmp) m a = Ok (False, 0)"
    using mcmp.prev_spec [OF inv, of "[]"] by simp
  then show ?case by (subst MemtableIterator_prev.simps) (simp add: prev_round_def)
next
  case (snoc b p)
  have b: "b \<in> set xs" "b \<noteq> 0" using snoc.prems sm_inv_nonzero [OF inv, of b] by auto
  have "SkipMapIter_prev (MemtableKeyCmp_cmp I DefaultCmp_cmp) m a = Ok (True, b)"
    using mcmp.prev_spec [OF inv snoc.prems] by simp
  then have "prev_round I DefaultCmp_cmp m a = Ok (if e_type (ent b) = TypeValue then Inl (True, b) else Inr b)"
    using b ents by (cases "e_type (ent b)")
      (simp_all add: prev_round_def SkipMapIter_current_def SkipMapIter_valid_def entry_key_def parse_memtable_entry [OF I])
  then show ?case using snoc by (subst MemtableIterator_prev.simps) simp
qed

end
