(* ===== verification/Ldb_Write_Batch.thy ===== *)
theory Ldb_Write_Batch
  imports Ldb_Memtable
begin

text \<open>
  The batch of updates the database writes at once, \<^verbatim>\<open>write_batch.rs\<close>: twelve
  header bytes with a sequence number and a count, and the serialised entries.
  \<open>wb_rep\<close> reads a batch as the list of its operations, and the theorems show that
  the decoding iterator returns them and that a memtable filled from a batch has
  one entry per operation, with ascending sequence numbers.
\<close>

section \<open>The operations\<close>

type_synonym write_batch = bytes

definition WB_HEADER_SIZE :: nat where
  "WB_HEADER_SIZE = 12"

definition SEQNUM_OFFSET :: nat where
  "SEQNUM_OFFSET = 0"

definition COUNT_OFFSET :: nat where
  "COUNT_OFFSET = 8"

text \<open>Writing into a slice of the bytes.\<close>

definition write_slice :: "nat \<Rightarrow> bytes \<Rightarrow> bytes \<Rightarrow> bytes ldb" where
  "write_slice i bs xs =
     (if i + length bs \<le> length xs then Ok (take i xs @ bs @ drop (i + length bs) xs) else Panic)"

definition WriteBatch_new :: write_batch where
  "WriteBatch_new = replicate WB_HEADER_SIZE 0"

definition WriteBatch_set_contents :: "bytes \<Rightarrow> write_batch" where
  "WriteBatch_set_contents from = from"

definition WriteBatch_clear :: write_batch where
  "WriteBatch_clear = []"

definition WriteBatch_set_count :: "int_enc \<Rightarrow> u32 \<Rightarrow> write_batch \<Rightarrow> write_batch ldb" where
  "WriteBatch_set_count I c wb = write_slice COUNT_OFFSET (encode_fixed32 I c) wb"

definition WriteBatch_count :: "int_enc \<Rightarrow> write_batch \<Rightarrow> u32 ldb" where
  "WriteBatch_count I wb = bind_result (slice COUNT_OFFSET (COUNT_OFFSET + 4) wb) (\<lambda>bs. Ok (decode_fixed32 I bs))"

definition WriteBatch_set_sequence :: "int_enc \<Rightarrow> u64 \<Rightarrow> write_batch \<Rightarrow> write_batch ldb" where
  "WriteBatch_set_sequence I s wb = write_slice SEQNUM_OFFSET (encode_fixed64 I s) wb"

definition WriteBatch_sequence :: "int_enc \<Rightarrow> write_batch \<Rightarrow> u64 ldb" where
  "WriteBatch_sequence I wb = bind_result (slice SEQNUM_OFFSET (SEQNUM_OFFSET + 8) wb) (\<lambda>bs. Ok (decode_fixed64 I bs))"

definition WriteBatch_put :: "int_enc \<Rightarrow> bytes \<Rightarrow> bytes \<Rightarrow> write_batch \<Rightarrow> write_batch ldb" where
  "WriteBatch_put I k v wb =
     (let wb' = wb @ [1] @ encode_var I (length k) @ k @ encode_var I (length v) @ v in
      bind_result (WriteBatch_count I wb') (\<lambda>c. WriteBatch_set_count I (c + 1) wb'))"

definition WriteBatch_delete :: "int_enc \<Rightarrow> bytes \<Rightarrow> write_batch \<Rightarrow> write_batch ldb" where
  "WriteBatch_delete I k wb =
     (let wb' = wb @ [0] @ encode_var I (length k) @ k in
      bind_result (WriteBatch_count I wb') (\<lambda>c. WriteBatch_set_count I (c + 1) wb'))"

definition WriteBatch_encode :: "int_enc \<Rightarrow> u64 \<Rightarrow> write_batch \<Rightarrow> bytes ldb" where
  "WriteBatch_encode I s wb = WriteBatch_set_sequence I s wb"

text \<open>One step of the iterator: the entry at \<open>ix\<close> and the index behind it.\<close>

definition WriteBatchIter_next :: "int_enc \<Rightarrow> write_batch \<Rightarrow> nat \<Rightarrow> ((bytes \<times> bytes option) \<times> nat) option ldb" where
  "WriteBatchIter_next I wb ix =
     (if ix \<ge> length wb then Ok None
      else
        let tag = wb ! ix; ix1 = ix + 1 in
        (case decode_var I (drop ix1 wb) of (klen, l) \<Rightarrow>
         let ix2 = ix1 + l in
         bind_result (slice ix2 (ix2 + klen) wb) (\<lambda>k.
         let ix3 = ix2 + klen in
         if tag = 1 then
           bind_result (slice ix3 (length wb) wb) (\<lambda>rest.
           case decode_var I rest of (vlen, m) \<Rightarrow>
           let ix4 = ix3 + m in
           bind_result (slice ix4 (ix4 + vlen) wb) (\<lambda>v. Ok (Some ((k, Some v), ix4 + vlen))))
         else Ok (Some ((k, None), ix3)))))"

lemma WriteBatchIter_next_advances:
  "WriteBatchIter_next I wb ix = Ok (Some (kv, ix')) \<Longrightarrow> ix < ix' \<and> ix < length wb"
  by (auto simp: WriteBatchIter_next_def Let_def case_prod_beta res_simps split: if_splits)

function insert_from :: "'r rng \<Rightarrow> int_enc \<Rightarrow> cmp \<Rightarrow> write_batch \<Rightarrow> nat \<Rightarrow> u64 \<Rightarrow> 'r memtable \<Rightarrow> 'r memtable ldb" where
  "insert_from G I ucmp wb ix sq mt =
     (case WriteBatchIter_next I wb ix of
        Ok None \<Rightarrow> Ok mt
      | Ok (Some ((k, v), ix')) \<Rightarrow>
          bind_result
            (case v of
               Some v' \<Rightarrow> MemTable_add G I ucmp mt sq TypeValue k v'
             | None \<Rightarrow> MemTable_add G I ucmp mt sq TypeDeletion k [])
            (\<lambda>mt'. insert_from G I ucmp wb ix' (sq + 1) mt')
      | Err e \<Rightarrow> Err e
      | Panic \<Rightarrow> Panic)"
  by pat_completeness auto
termination
proof (relation "measure (\<lambda>(G, I, ucmp, wb, ix, sq, mt). length wb - ix)", goal_cases)
  case (2 G I ucmp wb ix sq mt x1 x2 kv ix' k v mt')
  then show ?case using WriteBatchIter_next_advances [of I wb ix "(k, v)" ix'] by auto
qed simp

definition insert_into_memtable :: "'r rng \<Rightarrow> int_enc \<Rightarrow> cmp \<Rightarrow> write_batch \<Rightarrow> u64 \<Rightarrow> 'r memtable \<Rightarrow> 'r memtable ldb" where
  "insert_into_memtable G I ucmp wb sq mt = insert_from G I ucmp wb WB_HEADER_SIZE sq mt"

section \<open>The operations of a batch\<close>

type_synonym batch_op = "bytes \<times> bytes option"

definition op_bytes :: "int_enc \<Rightarrow> batch_op \<Rightarrow> bytes" where
  "op_bytes I = (\<lambda>(k, v). case v of
     Some v' \<Rightarrow> [1] @ encode_var I (length k) @ k @ encode_var I (length v') @ v'
   | None \<Rightarrow> [0] @ encode_var I (length k) @ k)"

definition op_value :: "batch_op \<Rightarrow> bytes" where
  "op_value bop = (case snd bop of Some v \<Rightarrow> v | None \<Rightarrow> [])"

definition op_ok :: "batch_op \<Rightarrow> bool" where
  "op_ok bop \<longleftrightarrow> length (fst bop) + 8 < 2 ^ 64 \<and> length (op_value bop) < 2 ^ 64"

definition wb_rep :: "int_enc \<Rightarrow> write_batch \<Rightarrow> batch_op list \<Rightarrow> bool" where
  "wb_rep I wb ops \<longleftrightarrow> int_enc_ok I \<and> list_all op_ok ops \<and>
     (\<exists>sq. length sq = 8 \<and> wb = sq @ encode_fixed32 I (of_nat (length ops)) @ concat (map (op_bytes I) ops))"

lemma WriteBatch_new_rep: "int_enc_ok I \<Longrightarrow> wb_rep I WriteBatch_new []"
  by (auto simp: wb_rep_def WriteBatch_new_def encode_fixed32_zero WB_HEADER_SIZE_def replicate_add [symmetric]
      intro: exI [of _ "replicate 8 0"])

lemma count_rep: "wb_rep I wb ops \<Longrightarrow> WriteBatch_count I (wb @ rest) = Ok (of_nat (length ops))"
  by (auto simp: wb_rep_def WriteBatch_count_def COUNT_OFFSET_def slice_def int_enc_simps)

lemma set_count_rep:
  assumes "wb_rep I wb ops"
  shows "\<exists>sq. length sq = 8 \<and>
    WriteBatch_set_count I c (wb @ rest) = Ok (sq @ encode_fixed32 I c @ concat (map (op_bytes I) ops) @ rest)"
  using assms by (auto simp: wb_rep_def WriteBatch_set_count_def COUNT_OFFSET_def write_slice_def int_enc_simps)

lemma WriteBatch_put_rep:
  assumes "wb_rep I wb ops" "op_ok (k, Some v)"
  shows "\<exists>wb'. WriteBatch_put I k v wb = Ok wb' \<and> wb_rep I wb' (ops @ [(k, Some v)])"
proof -
  let ?b = "op_bytes I (k, Some v)"
  obtain sq where "length sq = 8" "WriteBatch_set_count I (of_nat (length ops) + 1) (wb @ ?b) =
      Ok (sq @ encode_fixed32 I (of_nat (length ops) + 1) @ concat (map (op_bytes I) ops) @ ?b)"
    using set_count_rep [OF assms(1)] by blast
  then show ?thesis using assms count_rep [OF assms(1), of ?b]
    by (auto simp: WriteBatch_put_def wb_rep_def op_bytes_def add.commute)
qed

lemma WriteBatch_delete_rep:
  assumes "wb_rep I wb ops" "op_ok (k, None)"
  shows "\<exists>wb'. WriteBatch_delete I k wb = Ok wb' \<and> wb_rep I wb' (ops @ [(k, None)])"
proof -
  let ?b = "op_bytes I (k, None)"
  obtain sq where "length sq = 8" "WriteBatch_set_count I (of_nat (length ops) + 1) (wb @ ?b) =
      Ok (sq @ encode_fixed32 I (of_nat (length ops) + 1) @ concat (map (op_bytes I) ops) @ ?b)"
    using set_count_rep [OF assms(1)] by blast
  then show ?thesis using assms count_rep [OF assms(1), of ?b]
    by (auto simp: WriteBatch_delete_def wb_rep_def op_bytes_def add.commute)
qed

lemma WriteBatch_encode_rep:
  "wb_rep I wb ops \<Longrightarrow> \<exists>bs. WriteBatch_encode I s wb = Ok bs \<and> wb_rep I (WriteBatch_set_contents bs) ops \<and> WriteBatch_sequence I bs = Ok s"
  by (auto simp: wb_rep_def WriteBatch_encode_def WriteBatch_set_sequence_def SEQNUM_OFFSET_def write_slice_def
      WriteBatch_set_contents_def WriteBatch_sequence_def slice_def int_enc_simps)

section \<open>Decoding\<close>

lemma next_at:
  assumes I: "int_enc_ok I" and bop: "op_ok bop"
  shows "WriteBatchIter_next I (pre @ op_bytes I bop @ rest) (length pre) = Ok (Some (bop, length pre + length (op_bytes I bop)))"
proof -
  obtain k v where kv: "bop = (k, v)" by force
  have k: "length k < 2 ^ 64" using bop by (simp add: op_ok_def kv)
  show ?thesis
  proof (cases v)
    case None
    then show ?thesis using I k
      by (simp add: WriteBatchIter_next_def kv op_bytes_def Let_def nth_append int_enc_simps slice_def)
  next
    case (Some v')
    then have "length v' < 2 ^ 64" using bop by (simp add: op_ok_def kv op_value_def)
    with Some show ?thesis using I k
      by (simp add: WriteBatchIter_next_def kv op_bytes_def Let_def nth_append int_enc_simps slice_def)
  qed
qed

lemma next_end: "WriteBatchIter_next I wb (length wb) = Ok None"
  by (simp add: WriteBatchIter_next_def)

text \<open>The entries a batch puts into a memtable.\<close>

fun batch_entries :: "u64 \<Rightarrow> batch_op list \<Rightarrow> mt_entry list" where
  "batch_entries sq [] = []"
| "batch_entries sq (bop # ops) =
     \<lparr>e_key = fst bop, e_seq = sq, e_type = (case snd bop of Some _ \<Rightarrow> TypeValue | None \<Rightarrow> TypeDeletion), e_value = op_value bop\<rparr>
     # batch_entries (sq + 1) ops"

definition ops_cost :: "batch_op list \<Rightarrow> nat" where
  "ops_cost ops = (\<Sum>bop \<leftarrow> ops. entry_cost (length (fst bop)) (length (op_value bop)))"

declare insert_from.simps [simp del]

lemma seq_succ:
  assumes "unat sq + Suc n < 2 ^ 56"
  shows "unat (sq + 1) = unat sq + 1" "sq < sq + 1" "seq_ok sq"
proof -
  have "unat sq + 1 < 2 ^ 64" using assms by simp
  then show u: "unat (sq + 1) = unat sq + 1" by (simp add: unat_word_ariths)
  then show "sq < sq + 1" by (simp add: word_less_nat_alt)
  show "seq_ok sq" using assms unfolding seq_ok_def by simp
qed

lemma insert_from_rep:
  assumes I: "int_enc_ok I"
  shows "list_all op_ok ops \<Longrightarrow> mt_rep I m es \<Longrightarrow> \<forall>e \<in> set es. e_seq e < sq \<Longrightarrow> unat sq + length ops < 2 ^ 56 \<Longrightarrow>
    \<exists>m'. insert_from G I DefaultCmp_cmp (pre @ concat (map (op_bytes I) ops)) (length pre) sq m = Ok m' \<and>
      mt_rep I m' (fold insert_entry (batch_entries sq ops) es) \<and> approx_mem_usage m' \<le> approx_mem_usage m + ops_cost ops"
proof (induction ops arbitrary: pre m es sq)
  case Nil
  then show ?case by (subst insert_from.simps) (simp add: next_end ops_cost_def)
next
  case (Cons bop ops)
  let ?e = "\<lparr>e_key = fst bop, e_seq = sq, e_type = (case snd bop of Some _ \<Rightarrow> TypeValue | None \<Rightarrow> TypeDeletion), e_value = op_value bop\<rparr>"
  note sq = seq_succ [of sq "length ops"]
  have e: "entry_ok ?e" using Cons.prems(1,4) sq(3) by (simp add: entry_ok_def op_ok_def)
  have new: "\<forall>e' \<in> set es. entry_sort e' \<noteq> entry_sort ?e" using Cons.prems(3) by (auto simp: entry_sort_def)
  obtain m1 where m1: "MemTable_add G I DefaultCmp_cmp m sq (e_type ?e) (fst bop) (op_value bop) = Ok m1"
    "mt_rep I m1 (insert_entry ?e es)" "approx_mem_usage m1 \<le> approx_mem_usage m + entry_cost (length (fst bop)) (length (op_value bop))"
    using MemTable_add_rep [OF Cons.prems(2) e new, of G] by auto
  have "\<forall>e \<in> set (insert_entry ?e es). e_seq e < sq + 1"
  proof -
    have lt: "sq < sq + 1" using sq(2) Cons.prems(4) by simp
    show ?thesis using Cons.prems(3) less_trans [OF _ lt] lt
      by (auto simp: insert_entry_def dest: set_takeWhileD set_dropWhileD)
  qed
  then obtain m' where m': "insert_from G I DefaultCmp_cmp ((pre @ op_bytes I bop) @ concat (map (op_bytes I) ops))
      (length (pre @ op_bytes I bop)) (sq + 1) m1 = Ok m'"
    "mt_rep I m' (fold insert_entry (batch_entries (sq + 1) ops) (insert_entry ?e es))"
    "approx_mem_usage m' \<le> approx_mem_usage m1 + ops_cost ops"
    using Cons.IH [of m1 "insert_entry ?e es" "sq + 1" "pre @ op_bytes I bop"] m1(2) Cons.prems(1,4) sq(1) by auto
  have add: "(case snd bop of Some v' \<Rightarrow> MemTable_add G I DefaultCmp_cmp m sq TypeValue (fst bop) v'
      | None \<Rightarrow> MemTable_add G I DefaultCmp_cmp m sq TypeDeletion (fst bop) []) = Ok m1"
    using m1(1) by (simp add: op_value_def split: option.splits)
  have nx: "WriteBatchIter_next I (pre @ op_bytes I bop @ concat (map (op_bytes I) ops)) (length pre) =
      Ok (Some (bop, length pre + length (op_bytes I bop)))"
    using next_at [OF I] Cons.prems(1) by simp
  have "insert_from G I DefaultCmp_cmp (pre @ concat (map (op_bytes I) (bop # ops))) (length pre) sq m = Ok m'"
    using m'(1) add nx by (cases bop, subst insert_from.simps) (auto split: option.splits)
  then show ?case using m' m1(3) by (auto simp: ops_cost_def)
qed

lemma insert_into_memtable_rep:
  assumes "wb_rep I wb ops" "mt_rep I m es" "\<forall>e \<in> set es. e_seq e < sq" "unat sq + length ops < 2 ^ 56"
  shows "\<exists>m'. insert_into_memtable G I DefaultCmp_cmp wb sq m = Ok m' \<and>
    mt_rep I m' (fold insert_entry (batch_entries sq ops) es) \<and> approx_mem_usage m' \<le> approx_mem_usage m + ops_cost ops"
proof -
  obtain s where s: "length s = 8" "wb = (s @ encode_fixed32 I (of_nat (length ops))) @ concat (map (op_bytes I) ops)"
    and I: "int_enc_ok I" "list_all op_ok ops" using assms(1) by (auto simp: wb_rep_def)
  then show ?thesis
    using insert_from_rep [OF I assms(2-4), of G "s @ encode_fixed32 I (of_nat (length ops))"]
    by (simp add: insert_into_memtable_def WB_HEADER_SIZE_def encode_fixed32_length)
qed

end
