(* ===== verification/Ldb_Log.thy ===== *)
theory Ldb_Log
  imports Ldb_Keys
begin

text \<open>
  The write-ahead log, \<^verbatim>\<open>log.rs\<close>.  A log is cut into blocks; a record is written
  as one or more fragments, each with a header of a masked checksum, a length and
  a fragment type, and no fragment crosses a block boundary.

  The writer and the reader are generic in the file they work on: \<open>writer\<close> and
  \<open>reader\<close> are the traits \<^verbatim>\<open>std::io::Write\<close> and \<^verbatim>\<open>std::io::Read\<close>, and \<open>vec_writer\<close>
  and \<open>slice_reader\<close> are their implementations for \<^verbatim>\<open>Vec<u8>\<close> and \<^verbatim>\<open>&[u8]\<close>.  The
  checksum of the crate \<^verbatim>\<open>crc\<close> is a function of the bytes; nothing is assumed
  about it.  A loop that does not end is \<^const>\<open>None\<close>.
\<close>

section \<open>Files\<close>

record 'w writer =
  wr_write :: "bytes \<Rightarrow> ('w, nat, status) op"
  wr_flush :: "('w, unit, status) op"

record 'r reader =
  rd_read :: "nat \<Rightarrow> ('r, bytes, status) op"

definition vec_writer :: "bytes writer" where
  "vec_writer = \<lparr>wr_write = (\<lambda>bs v. (Ok (length bs), v @ bs)), wr_flush = (\<lambda>v. (Ok (), v))\<rparr>"

definition slice_reader :: "bytes reader" where
  "slice_reader = \<lparr>rd_read = (\<lambda>n s. (Ok (take n s), drop n s))\<rparr>"

section \<open>Checksums\<close>

definition MASK_DELTA :: u32 where
  "MASK_DELTA = 0xA282EAD8"

definition mask_crc :: "u32 \<Rightarrow> u32" where
  "mask_crc c = (drop_bit 15 c OR push_bit 17 c) + MASK_DELTA"

definition unmask_crc :: "u32 \<Rightarrow> u32" where
  "unmask_crc mc = (let rot = mc - MASK_DELTA in drop_bit 17 rot OR push_bit 15 rot)"

section \<open>The writer\<close>

definition BLOCK_SIZE :: nat where
  "BLOCK_SIZE = 32 * 1024"

definition LOG_HEADER_SIZE :: nat where
  "LOG_HEADER_SIZE = 4 + 2 + 1"

datatype record_type = Full | First | Middle | Last

fun record_type_num :: "record_type \<Rightarrow> byte" where
  "record_type_num Full = 1"
| "record_type_num First = 2"
| "record_type_num Middle = 3"
| "record_type_num Last = 4"

record 'w log_writer =
  lw_dst :: 'w
  lw_offset :: nat
  lw_block_size :: nat

definition LogWriter_new :: "'w \<Rightarrow> 'w log_writer" where
  "LogWriter_new w = \<lparr>lw_dst = w, lw_offset = 0, lw_block_size = BLOCK_SIZE\<rparr>"

definition LogWriter_new_with_off :: "'w \<Rightarrow> nat \<Rightarrow> 'w log_writer" where
  "LogWriter_new_with_off w off = (LogWriter_new w)\<lparr>lw_offset := off mod BLOCK_SIZE\<rparr>"

definition dst_write :: "'w writer \<Rightarrow> bytes \<Rightarrow> ('w log_writer, nat, status) op" where
  "dst_write W bs lw = (case wr_write W bs (lw_dst lw) of (r, w') \<Rightarrow> (r, lw\<lparr>lw_dst := w'\<rparr>))"

definition set_offset :: "nat \<Rightarrow> ('w log_writer, unit, status) op" where
  "set_offset n lw = (Ok (), lw\<lparr>lw_offset := n\<rparr>)"

definition emit_record :: "'w writer \<Rightarrow> int_enc \<Rightarrow> (bytes \<Rightarrow> u32) \<Rightarrow> record_type \<Rightarrow> bytes \<Rightarrow> nat \<Rightarrow> ('w log_writer, nat, status) op" where
  "emit_record W I crc t data len lw =
     (if \<not> len < 256 * 256 then (Panic, lw)
      else
        bind_op (return_op (slice 0 len data)) (\<lambda>frag.
        let chksum = mask_crc (crc (record_type_num t # frag)) in
        bind_op (dst_write W (encode_fixed32 I chksum)) (\<lambda>s1.
        bind_op (dst_write W (encode_fixed16 I (of_nat len))) (\<lambda>s2.
        bind_op (dst_write W [record_type_num t]) (\<lambda>s3.
        bind_op (dst_write W frag) (\<lambda>s4.
        let s = s1 + s2 + s3 + s4 in
        bind_op (\<lambda>lw. set_offset (lw_offset lw + s) lw) (\<lambda>_. return_op (Ok s))))))) lw)"

text \<open>Fill up the block and go to the next one, when there is no room for a header.\<close>

definition fill_block :: "'w writer \<Rightarrow> ('w log_writer, unit, status) op" where
  "fill_block W lw =
     (let space_left = lw_block_size lw - lw_offset lw in
      if space_left < LOG_HEADER_SIZE
      then bind_op (dst_write W (replicate space_left 0)) (\<lambda>_. set_offset 0) lw
      else (Ok (), lw))"

definition add_frag :: "'w writer \<Rightarrow> int_enc \<Rightarrow> (bytes \<Rightarrow> u32) \<Rightarrow> bytes \<Rightarrow> bool \<Rightarrow> ('w log_writer, nat \<times> nat, status) op" where
  "add_frag W I crc record first_frag lw =
     (if lw_block_size lw < lw_offset lw + LOG_HEADER_SIZE then (Panic, lw)
      else
        let avail_for_data = lw_block_size lw - lw_offset lw - LOG_HEADER_SIZE;
            data_frag_len = (if length record < avail_for_data then length record else avail_for_data);
            recordtype =
              (if first_frag \<and> data_frag_len = length record then Full
               else if first_frag then First
               else if data_frag_len = length record then Last
               else Middle)
        in bind_op (emit_record W I crc recordtype record data_frag_len) (\<lambda>s. return_op (Ok (s, data_frag_len))) lw)"

text \<open>One round of the loop of \<^verbatim>\<open>add_record\<close>: the bytes written and the bytes of the record taken.\<close>

definition add_round :: "'w writer \<Rightarrow> int_enc \<Rightarrow> (bytes \<Rightarrow> u32) \<Rightarrow> bytes \<Rightarrow> bool \<Rightarrow> ('w log_writer, nat \<times> nat, status) op" where
  "add_round W I crc record first_frag lw =
     (if \<not> lw_block_size lw > LOG_HEADER_SIZE \<or> lw_block_size lw < lw_offset lw then (Panic, lw)
      else bind_op (fill_block W) (\<lambda>_. add_frag W I crc record first_frag) lw)"

partial_function (option) add_loop ::
  "'w writer \<Rightarrow> int_enc \<Rightarrow> (bytes \<Rightarrow> u32) \<Rightarrow> bytes \<Rightarrow> bool \<Rightarrow> nat \<Rightarrow> 'w log_writer \<Rightarrow> (nat ldb \<times> 'w log_writer) option" where
  "add_loop W I crc record first_frag s lw =
     (if record = [] then Some (Ok s, lw)
      else case add_round W I crc record first_frag lw of
        (Ok (s', n), lw') \<Rightarrow> add_loop W I crc (drop n record) False s' lw'
      | (Err e, lw') \<Rightarrow> Some (Err e, lw')
      | (Panic, lw') \<Rightarrow> Some (Panic, lw'))"

definition add_record :: "'w writer \<Rightarrow> int_enc \<Rightarrow> (bytes \<Rightarrow> u32) \<Rightarrow> bytes \<Rightarrow> 'w log_writer \<Rightarrow> (nat ldb \<times> 'w log_writer) option" where
  "add_record W I crc r lw = add_loop W I crc r True 0 lw"

definition LogWriter_flush :: "'w writer \<Rightarrow> ('w log_writer, unit, status) op" where
  "LogWriter_flush W lw = (case wr_flush W (lw_dst lw) of (r, w') \<Rightarrow> (r, lw\<lparr>lw_dst := w'\<rparr>))"

section \<open>The reader\<close>

record 'r log_reader =
  lr_src :: 'r
  lr_blk_off :: nat
  lr_blocksize :: nat
  lr_head :: bytes
  lr_checksums :: bool

definition LogReader_new :: "'r \<Rightarrow> bool \<Rightarrow> 'r log_reader" where
  "LogReader_new src chksum =
     \<lparr>lr_src = src, lr_blk_off = 0, lr_blocksize = BLOCK_SIZE, lr_head = replicate 7 0, lr_checksums = chksum\<rparr>"

definition check_integrity :: "(bytes \<Rightarrow> u32) \<Rightarrow> byte \<Rightarrow> bytes \<Rightarrow> u32 \<Rightarrow> bool" where
  "check_integrity crc typ data expected \<longleftrightarrow> unmask_crc expected = crc (typ # data)"

definition src_read :: "'r reader \<Rightarrow> nat \<Rightarrow> ('r log_reader, bytes, status) op" where
  "src_read R n lr = (case rd_read R n (lr_src lr) of (r, s') \<Rightarrow> (r, lr\<lparr>lr_src := s'\<rparr>))"

text \<open>A read into the first bytes of the scratch header.\<close>

definition read_head :: "'r reader \<Rightarrow> nat \<Rightarrow> ('r log_reader, nat, status) op" where
  "read_head R n =
     bind_op (src_read R n) (\<lambda>bs lr. (Ok (length bs), lr\<lparr>lr_head := bs @ drop (length bs) (lr_head lr)\<rparr>))"

definition move_off :: "nat \<Rightarrow> ('r log_reader, unit, status) op" where
  "move_off n lr = (Ok (), lr\<lparr>lr_blk_off := lr_blk_off lr + n\<rparr>)"

definition skip_block :: "'r reader \<Rightarrow> ('r log_reader, unit, status) op" where
  "skip_block R lr =
     (if lr_blocksize lr - lr_blk_off lr < LOG_HEADER_SIZE
      then bind_op (read_head R (lr_blocksize lr - lr_blk_off lr)) (\<lambda>_ lr. (Ok (), lr\<lparr>lr_blk_off := 0\<rparr>)) lr
      else (Ok (), lr))"

text \<open>
  One round of the loop of \<^verbatim>\<open>read\<close> on the bytes collected so far: the bytes after
  it, and the value to return or \<^const>\<open>None\<close> to go on.
\<close>

definition read_frag :: "'r reader \<Rightarrow> int_enc \<Rightarrow> (bytes \<Rightarrow> u32) \<Rightarrow> bytes \<Rightarrow> ('r log_reader, bytes \<times> nat option, status) op" where
  "read_frag R I crc dst =
     bind_op (read_head R LOG_HEADER_SIZE) (\<lambda>bytes_read.
     if bytes_read = 0 then return_op (Ok (dst, Some 0))
     else bind_op (move_off bytes_read) (\<lambda>_ lr.
       let checksum = decode_fixed32 I (take 4 (lr_head lr));
           len = unat (decode_fixed16 I (take 2 (drop 4 (lr_head lr))));
           typ = lr_head lr ! 6
       in bind_op (src_read R len) (\<lambda>data.
          bind_op (move_off (length data)) (\<lambda>_ lr.
            let dst' = dst @ data @ replicate (len - length data) 0 in
            if lr_checksums lr \<and> \<not> check_integrity crc typ data checksum
            then (Err \<lparr>st_code = Corruption, st_err = ''Invalid Checksum''\<rparr>, lr)
            else if typ = record_type_num Full \<or> typ = record_type_num Last
            then (Ok (dst', Some (length dst + len)), lr)
            else (Ok (dst', None), lr))) lr))"

definition read_round :: "'r reader \<Rightarrow> int_enc \<Rightarrow> (bytes \<Rightarrow> u32) \<Rightarrow> bytes \<Rightarrow> ('r log_reader, bytes \<times> nat option, status) op" where
  "read_round R I crc dst lr =
     (if lr_blocksize lr < lr_blk_off lr then (Panic, lr)
      else bind_op (skip_block R) (\<lambda>_. read_frag R I crc dst) lr)"

partial_function (option) read_loop ::
  "'r reader \<Rightarrow> int_enc \<Rightarrow> (bytes \<Rightarrow> u32) \<Rightarrow> bytes \<Rightarrow> 'r log_reader \<Rightarrow> ((nat \<times> bytes) ldb \<times> 'r log_reader) option" where
  "read_loop R I crc dst lr =
     (case read_round R I crc dst lr of
        (Ok (dst', Some n), lr') \<Rightarrow> Some (Ok (n, dst'), lr')
      | (Ok (dst', None), lr') \<Rightarrow> read_loop R I crc dst' lr'
      | (Err e, lr') \<Rightarrow> Some (Err e, lr')
      | (Panic, lr') \<Rightarrow> Some (Panic, lr'))"

text \<open>\<^verbatim>\<open>read\<close> returns a length and the bytes; the length 0 is the end of the log.\<close>

definition LogReader_read :: "'r reader \<Rightarrow> int_enc \<Rightarrow> (bytes \<Rightarrow> u32) \<Rightarrow> 'r log_reader \<Rightarrow> ((nat \<times> bytes) ldb \<times> 'r log_reader) option" where
  "LogReader_read R I crc lr = read_loop R I crc [] lr"

section \<open>Checksums\<close>

lemma unmask_mask_crc [simp]: "unmask_crc (mask_crc c) = c"
  unfolding unmask_crc_def mask_crc_def by (simp add: Let_def) (rule bit_word_eqI, auto simp: bit_simps, metis add_diff_inverse_nat)

section \<open>The image of a record\<close>

definition frag_bytes :: "int_enc \<Rightarrow> (bytes \<Rightarrow> u32) \<Rightarrow> record_type \<Rightarrow> bytes \<Rightarrow> bytes" where
  "frag_bytes I crc t data =
     encode_fixed32 I (mask_crc (crc (record_type_num t # data))) @ encode_fixed16 I (of_nat (length data)) @
     [record_type_num t] @ data"

text \<open>The offset of the next fragment and the filler before it.\<close>

definition frag_off :: "nat \<Rightarrow> nat \<Rightarrow> nat" where
  "frag_off bs off = (if bs - off < LOG_HEADER_SIZE then 0 else off)"

definition frag_pad :: "nat \<Rightarrow> nat \<Rightarrow> bytes" where
  "frag_pad bs off = (if bs - off < LOG_HEADER_SIZE then replicate (bs - off) 0 else [])"

definition frag_len :: "nat \<Rightarrow> nat \<Rightarrow> bytes \<Rightarrow> nat" where
  "frag_len bs off rcd = min (length rcd) (bs - frag_off bs off - LOG_HEADER_SIZE)"

definition frag_type :: "bool \<Rightarrow> bool \<Rightarrow> record_type" where
  "frag_type first_frag whole =
     (if first_frag \<and> whole then Full else if first_frag then First else if whole then Last else Middle)"

definition block_ok :: "nat \<Rightarrow> nat \<Rightarrow> bool" where
  "block_ok bs off \<longleftrightarrow> LOG_HEADER_SIZE < bs \<and> bs \<le> 256 * 256 \<and> off \<le> bs"

function record_image :: "int_enc \<Rightarrow> (bytes \<Rightarrow> u32) \<Rightarrow> nat \<Rightarrow> nat \<Rightarrow> bool \<Rightarrow> bytes \<Rightarrow> bytes \<times> nat" where
  "record_image I crc bs off first_frag rcd =
     (if rcd = [] \<or> \<not> block_ok bs off then ([], off)
      else
        let n = frag_len bs off rcd in
        (case record_image I crc bs (frag_off bs off + LOG_HEADER_SIZE + n) False (drop n rcd) of
           (img, off') \<Rightarrow> (frag_pad bs off @ frag_bytes I crc (frag_type first_frag (n = length rcd)) (take n rcd) @ img, off')))"
  by pat_completeness auto
termination
  by (relation "measure (\<lambda>(I, crc, bs, off, first_frag, rcd).
        2 * length rcd + (if bs - frag_off bs off = LOG_HEADER_SIZE then 1 else 0))")
    (auto simp: frag_len_def frag_off_def block_ok_def LOG_HEADER_SIZE_def min_def simp flip: length_greater_0_conv)

declare record_image.simps [simp del]

lemma block_ok_next: "block_ok bs off \<Longrightarrow> block_ok bs (frag_off bs off + LOG_HEADER_SIZE + frag_len bs off rcd)"
  by (auto simp: block_ok_def frag_off_def frag_len_def LOG_HEADER_SIZE_def)

lemma record_image_ok: "block_ok bs off \<Longrightarrow> block_ok bs (snd (record_image I crc bs off first_frag rcd))"
proof (induction I crc bs off first_frag rcd rule: record_image.induct)
  case (1 I crc bs off first_frag rcd)
  show ?case
  proof (cases "rcd = []")
    case False
    with 1 show ?thesis using block_ok_next [OF 1(2)]
      by (subst record_image.simps) (auto simp: Let_def split: prod.splits)
  qed (use 1 in \<open>simp add: record_image.simps\<close>)
qed

lemma frag_len_less: "block_ok bs off \<Longrightarrow> frag_len bs off rcd < 256 * 256"
  by (auto simp: block_ok_def frag_len_def LOG_HEADER_SIZE_def)

section \<open>Writing\<close>

lemma dst_write_vec [simp]: "dst_write vec_writer bs lw = (Ok (length bs), lw\<lparr>lw_dst := lw_dst lw @ bs\<rparr>)"
  by (simp add: dst_write_def vec_writer_def)

lemma emit_record_vec:
  "int_enc_ok I \<Longrightarrow> n < 256 * 256 \<Longrightarrow> n \<le> length rcd \<Longrightarrow>
    emit_record vec_writer I crc t rcd n lw =
      (Ok (LOG_HEADER_SIZE + n), lw\<lparr>lw_dst := lw_dst lw @ frag_bytes I crc t (take n rcd),
        lw_offset := lw_offset lw + (LOG_HEADER_SIZE + n)\<rparr>)"
  by (simp add: emit_record_def bind_op_def return_op_def slice_def set_offset_def
      frag_bytes_def Let_def int_enc_simps LOG_HEADER_SIZE_def)

lemma add_frag_vec:
  assumes "int_enc_ok I" "lw_offset lw + LOG_HEADER_SIZE \<le> lw_block_size lw" "lw_block_size lw \<le> 256 * 256"
    and n: "n = min (length rcd) (lw_block_size lw - lw_offset lw - LOG_HEADER_SIZE)"
  shows "add_frag vec_writer I crc rcd first_frag lw =
    (Ok (LOG_HEADER_SIZE + n, n),
     lw\<lparr>lw_dst := lw_dst lw @ frag_bytes I crc (frag_type first_frag (n = length rcd)) (take n rcd),
       lw_offset := lw_offset lw + (LOG_HEADER_SIZE + n)\<rparr>)"
proof -
  have "(if length rcd < lw_block_size lw - lw_offset lw - LOG_HEADER_SIZE then length rcd
      else lw_block_size lw - lw_offset lw - LOG_HEADER_SIZE) = n" by (simp add: n)
  moreover have "n < 256 * 256" "n \<le> length rcd" using assms by (auto simp: LOG_HEADER_SIZE_def)
  ultimately show ?thesis
    using assms(1,2) unfolding add_frag_def Let_def frag_type_def [symmetric]
    by (simp add: bind_op_def return_op_def emit_record_vec)
qed

lemma add_round_vec:
  assumes I: "int_enc_ok I" and ok: "block_ok bs off"
  shows "add_round vec_writer I crc rcd first_frag \<lparr>lw_dst = d, lw_offset = off, lw_block_size = bs\<rparr> =
    (Ok (LOG_HEADER_SIZE + frag_len bs off rcd, frag_len bs off rcd),
     \<lparr>lw_dst = d @ frag_pad bs off @
        frag_bytes I crc (frag_type first_frag (frag_len bs off rcd = length rcd)) (take (frag_len bs off rcd) rcd),
      lw_offset = frag_off bs off + LOG_HEADER_SIZE + frag_len bs off rcd, lw_block_size = bs\<rparr>)"
proof -
  have f: "fill_block vec_writer \<lparr>lw_dst = d, lw_offset = off, lw_block_size = bs\<rparr> =
      (Ok (), \<lparr>lw_dst = d @ frag_pad bs off, lw_offset = frag_off bs off, lw_block_size = bs\<rparr>)"
    by (simp add: fill_block_def bind_op_def set_offset_def frag_pad_def frag_off_def Let_def)
  let ?lw = "\<lparr>lw_dst = d @ frag_pad bs off, lw_offset = frag_off bs off, lw_block_size = bs\<rparr>"
  have "lw_offset ?lw + LOG_HEADER_SIZE \<le> lw_block_size ?lw" "lw_block_size ?lw \<le> 256 * 256"
      "frag_len bs off rcd = min (length rcd) (lw_block_size ?lw - lw_offset ?lw - LOG_HEADER_SIZE)"
    using ok by (auto simp: block_ok_def frag_len_def frag_off_def LOG_HEADER_SIZE_def)
  from add_frag_vec [OF I this] show ?thesis
    using ok by (simp add: add_round_def bind_op_def f block_ok_def add.assoc)
qed

lemma add_loop_vec:
  "int_enc_ok I \<Longrightarrow> block_ok bs off \<Longrightarrow> \<exists>s'. add_loop vec_writer I crc rcd first_frag s \<lparr>lw_dst = d, lw_offset = off, lw_block_size = bs\<rparr> =
    Some (Ok s', \<lparr>lw_dst = d @ fst (record_image I crc bs off first_frag rcd),
      lw_offset = snd (record_image I crc bs off first_frag rcd), lw_block_size = bs\<rparr>)"
proof (induction I crc bs off first_frag rcd arbitrary: s d rule: record_image.induct)
  case (1 I crc bs off first_frag rcd)
  let ?n = "frag_len bs off rcd"
  note I = 1(2) and ok = 1(3)
  show ?case
  proof (cases "rcd = []")
    case True
    then show ?thesis by (subst add_loop.simps, subst (1 2) record_image.simps) simp
  next
    case False
    let ?lw = "\<lparr>lw_dst = d, lw_offset = off, lw_block_size = bs\<rparr>"
    let ?d = "d @ frag_pad bs off @ frag_bytes I crc (frag_type first_frag (?n = length rcd)) (take ?n rcd)"
    have "add_round vec_writer I crc rcd first_frag ?lw = (Ok (LOG_HEADER_SIZE + ?n, ?n),
        \<lparr>lw_dst = ?d, lw_offset = frag_off bs off + LOG_HEADER_SIZE + ?n, lw_block_size = bs\<rparr>)"
      by (rule add_round_vec [OF I ok])
    moreover obtain s' where "add_loop vec_writer I crc (drop ?n rcd) False (LOG_HEADER_SIZE + ?n)
        \<lparr>lw_dst = ?d, lw_offset = frag_off bs off + LOG_HEADER_SIZE + ?n, lw_block_size = bs\<rparr> =
      Some (Ok s', \<lparr>lw_dst = ?d @ fst (record_image I crc bs (frag_off bs off + LOG_HEADER_SIZE + ?n) False (drop ?n rcd)),
        lw_offset = snd (record_image I crc bs (frag_off bs off + LOG_HEADER_SIZE + ?n) False (drop ?n rcd)), lw_block_size = bs\<rparr>)"
      using 1(1) [of ?n] False I ok block_ok_next [OF ok, of rcd] by blast
    ultimately show ?thesis using False ok
      by (subst add_loop.simps, subst (1 2) record_image.simps) (simp add: Let_def case_prod_beta)
  qed
qed

section \<open>Reading back\<close>

lemma src_read_slice [simp]:
  "src_read slice_reader n lr = (Ok (take n (lr_src lr)), lr\<lparr>lr_src := drop n (lr_src lr)\<rparr>)"
  by (simp add: src_read_def slice_reader_def)

lemma read_head_slice:
  "length bs = n \<Longrightarrow> lr_src lr = bs @ rest \<Longrightarrow>
    read_head slice_reader n lr = (Ok n, lr\<lparr>lr_src := rest, lr_head := bs @ drop n (lr_head lr)\<rparr>)"
  by (simp add: read_head_def bind_op_def)

lemma frag_bytes_head:
  assumes "int_enc_ok I"
  shows "\<exists>h. frag_bytes I crc t data = h @ data \<and> length h = LOG_HEADER_SIZE \<and>
    take 4 h = encode_fixed32 I (mask_crc (crc (record_type_num t # data))) \<and>
    take 2 (drop 4 h) = encode_fixed16 I (of_nat (length data)) \<and> h ! 6 = record_type_num t"
  by (rule exI [of _ "encode_fixed32 I (mask_crc (crc (record_type_num t # data))) @ encode_fixed16 I (of_nat (length data)) @ [record_type_num t]"])
    (simp add: frag_bytes_def int_enc_simps [OF assms] LOG_HEADER_SIZE_def nth_append)

lemma read_round_slice:
  assumes I: "int_enc_ok I" and lr: "block_ok (lr_blocksize lr) (lr_blk_off lr)" "length (lr_head lr) = 7"
    "lr_src lr = frag_pad (lr_blocksize lr) (lr_blk_off lr) @ frag_bytes I crc t data @ rest" and len: "length data < 256 * 256"
  shows "\<exists>h. length h = 7 \<and> read_round slice_reader I crc dst lr =
    (Ok (dst @ data, if t = Full \<or> t = Last then Some (length dst + length data) else None),
     lr\<lparr>lr_src := rest, lr_blk_off := frag_off (lr_blocksize lr) (lr_blk_off lr) + LOG_HEADER_SIZE + length data, lr_head := h\<rparr>)"
proof -
  let ?bs = "lr_blocksize lr" and ?off = "lr_blk_off lr"
  obtain h where h: "frag_bytes I crc t data = h @ data" "length h = LOG_HEADER_SIZE"
    "take 4 h = encode_fixed32 I (mask_crc (crc (record_type_num t # data)))"
    "take 2 (drop 4 h) = encode_fixed16 I (of_nat (length data))" "h ! 6 = record_type_num t"
    using frag_bytes_head [OF I] by blast
  have u: "unat (of_nat (length data) :: 16 word) = length data" using len by (simp add: unat_of_nat)
  obtain h1 where h1: "length h1 = 7"
    "skip_block slice_reader lr = (Ok (), lr\<lparr>lr_src := h @ data @ rest, lr_blk_off := frag_off ?bs ?off, lr_head := h1\<rparr>)"
  proof (cases "?bs - ?off < LOG_HEADER_SIZE")
    case True
    then have "read_head slice_reader (?bs - ?off) lr =
        (Ok (?bs - ?off), lr\<lparr>lr_src := h @ data @ rest, lr_head := replicate (?bs - ?off) 0 @ drop (?bs - ?off) (lr_head lr)\<rparr>)"
      using lr(3) h(1) by (intro read_head_slice) (auto simp: frag_pad_def)
    with True lr(2) show thesis
      by (intro that [of "replicate (?bs - ?off) 0 @ drop (?bs - ?off) (lr_head lr)"])
        (auto simp: skip_block_def bind_op_def frag_off_def LOG_HEADER_SIZE_def)
  next
    case False
    then have "lr_src lr = h @ data @ rest" using lr(3) h(1) by (simp add: frag_pad_def)
    with False lr(2) show thesis by (intro that [of "lr_head lr"]) (simp_all add: skip_block_def frag_off_def)
  qed
  let ?lr1 = "lr\<lparr>lr_src := h @ data @ rest, lr_blk_off := frag_off ?bs ?off, lr_head := h1\<rparr>"
  have rh: "read_head slice_reader LOG_HEADER_SIZE ?lr1 = (Ok LOG_HEADER_SIZE, ?lr1\<lparr>lr_src := data @ rest, lr_head := h\<rparr>)"
    using read_head_slice [of h LOG_HEADER_SIZE ?lr1] h(2) h1(1) by (simp add: LOG_HEADER_SIZE_def)
  have "read_frag slice_reader I crc dst ?lr1 =
      (Ok (dst @ data, if t = Full \<or> t = Last then Some (length dst + length data) else None),
       lr\<lparr>lr_src := rest, lr_blk_off := frag_off ?bs ?off + LOG_HEADER_SIZE + length data, lr_head := h\<rparr>)"
    unfolding read_frag_def bind_op_def rh
    by (cases t; cases lr; simp add: move_off_def h(3-5) int_enc_simps [OF I] u check_integrity_def
        bind_op_def LOG_HEADER_SIZE_def Let_def)
  moreover have "\<not> ?bs < ?off" using lr(1) by (simp add: block_ok_def)
  ultimately show ?thesis using h(2)
    by (intro exI [of _ h]) (simp add: read_round_def bind_op_def h1(2) LOG_HEADER_SIZE_def)
qed

lemma frag_type_whole: "frag_type first_frag w = Full \<or> frag_type first_frag w = Last \<longleftrightarrow> w"
  by (auto simp: frag_type_def)

lemma read_loop_slice:
  "int_enc_ok I \<Longrightarrow> block_ok bs off \<Longrightarrow> rcd \<noteq> [] \<Longrightarrow> length hdr = 7 \<Longrightarrow>
    \<exists>h. length h = 7 \<and> read_loop slice_reader I crc dst
        \<lparr>lr_src = fst (record_image I crc bs off first_frag rcd) @ rest, lr_blk_off = off, lr_blocksize = bs,
          lr_head = hdr, lr_checksums = chk\<rparr> =
      Some (Ok (length dst + length rcd, dst @ rcd),
        \<lparr>lr_src = rest, lr_blk_off = snd (record_image I crc bs off first_frag rcd), lr_blocksize = bs,
          lr_head = h, lr_checksums = chk\<rparr>)"
proof (induction I crc bs off first_frag rcd arbitrary: dst hdr rule: record_image.induct)
  case (1 I crc bs off first_frag rcd)
  note I = 1(2) and ok = 1(3) and ne = 1(4) and hdr = 1(5)
  let ?n = "frag_len bs off rcd" and ?off = "frag_off bs off + LOG_HEADER_SIZE + frag_len bs off rcd"
  let ?t = "frag_type first_frag (?n = length rcd)" and ?img = "record_image I crc bs ?off False (drop ?n rcd)"
  let ?lr = "\<lambda>src off h. \<lparr>lr_src = src, lr_blk_off = off, lr_blocksize = bs, lr_head = h, lr_checksums = chk\<rparr>"
  have n: "?n \<le> length rcd" "length (take ?n rcd) = ?n" "?n < 256 * 256"
    using frag_len_less [OF ok, of rcd] by (auto simp: frag_len_def)
  have img: "record_image I crc bs off first_frag rcd =
      (frag_pad bs off @ frag_bytes I crc ?t (take ?n rcd) @ fst ?img, snd ?img)"
    using ne ok by (subst record_image.simps) (simp add: Let_def case_prod_beta)
  obtain h where h: "length h = 7" "read_round slice_reader I crc dst
      (?lr (frag_pad bs off @ frag_bytes I crc ?t (take ?n rcd) @ fst ?img @ rest) off hdr) =
      (Ok (dst @ take ?n rcd, if ?n = length rcd then Some (length dst + ?n) else None), ?lr (fst ?img @ rest) ?off h)"
    using read_round_slice [OF I, of "?lr (frag_pad bs off @ frag_bytes I crc ?t (take ?n rcd) @ fst ?img @ rest) off hdr"
        crc ?t "take ?n rcd" "fst ?img @ rest" dst] ok hdr n by (auto simp: frag_type_whole)
  show ?case
  proof (cases "?n = length rcd")
    case True
    then have "?img = ([], ?off)" by (subst record_image.simps) simp
    with h True show ?thesis unfolding img by (subst read_loop.simps) auto
  next
    case False
    then have "drop ?n rcd \<noteq> []" using n(1) by auto
    then obtain h' where h': "length h' = 7" "read_loop slice_reader I crc (dst @ take ?n rcd) (?lr (fst ?img @ rest) ?off h) =
        Some (Ok (length (dst @ take ?n rcd) + length (drop ?n rcd), (dst @ take ?n rcd) @ drop ?n rcd), ?lr rest (snd ?img) h')"
      using 1(1) [of ?n] ne ok I block_ok_next [OF ok, of rcd] h(1) by blast
    then show ?thesis using h False n unfolding img by (subst read_loop.simps) auto
  qed
qed

lemma read_loop_end:
  assumes "block_ok bs off" "length hdr = 7"
  shows "\<exists>lr'. read_loop slice_reader I crc dst \<lparr>lr_src = [], lr_blk_off = off, lr_blocksize = bs, lr_head = hdr, lr_checksums = chk\<rparr> =
    Some (Ok (0, dst), lr')"
  using assms
  by (subst read_loop.simps)
    (auto simp: read_round_def skip_block_def read_frag_def bind_op_def return_op_def read_head_def block_ok_def)

section \<open>Logs\<close>

fun write_all :: "'w writer \<Rightarrow> int_enc \<Rightarrow> (bytes \<Rightarrow> u32) \<Rightarrow> bytes list \<Rightarrow> 'w log_writer \<Rightarrow> (unit ldb \<times> 'w log_writer) option" where
  "write_all W I crc [] lw = Some (Ok (), lw)"
| "write_all W I crc (r # rs) lw =
     (case add_record W I crc r lw of
        None \<Rightarrow> None
      | Some (Ok _, lw') \<Rightarrow> write_all W I crc rs lw'
      | Some (Err e, lw') \<Rightarrow> Some (Err e, lw')
      | Some (Panic, lw') \<Rightarrow> Some (Panic, lw'))"

text \<open>Reading until the length 0 is returned, as the recovery of the database does; at most \<open>n\<close> records.\<close>

fun read_all :: "nat \<Rightarrow> 'r reader \<Rightarrow> int_enc \<Rightarrow> (bytes \<Rightarrow> u32) \<Rightarrow> 'r log_reader \<Rightarrow> bytes list ldb option" where
  "read_all 0 R I crc lr = None"
| "read_all (Suc n) R I crc lr =
     (case LogReader_read R I crc lr of
        None \<Rightarrow> None
      | Some (Ok (0, _), _) \<Rightarrow> Some (Ok [])
      | Some (Ok (_, r), lr') \<Rightarrow> map_option (\<lambda>rs. bind_result rs (\<lambda>rs. Ok (r # rs))) (read_all n R I crc lr')
      | Some (Err e, _) \<Rightarrow> Some (Err e)
      | Some (Panic, _) \<Rightarrow> Some Panic)"

fun log_image :: "int_enc \<Rightarrow> (bytes \<Rightarrow> u32) \<Rightarrow> nat \<Rightarrow> nat \<Rightarrow> bytes list \<Rightarrow> bytes \<times> nat" where
  "log_image I crc bs off [] = ([], off)"
| "log_image I crc bs off (r # rs) =
     (case record_image I crc bs off True r of (img, off') \<Rightarrow>
      case log_image I crc bs off' rs of (img', off'') \<Rightarrow> (img @ img', off''))"

lemma write_all_vec:
  "int_enc_ok I \<Longrightarrow> block_ok bs off \<Longrightarrow>
    write_all vec_writer I crc rs \<lparr>lw_dst = d, lw_offset = off, lw_block_size = bs\<rparr> =
      Some (Ok (), \<lparr>lw_dst = d @ fst (log_image I crc bs off rs), lw_offset = snd (log_image I crc bs off rs), lw_block_size = bs\<rparr>)"
proof (induction rs arbitrary: d off)
  case (Cons r rs)
  then show ?case using add_loop_vec [OF Cons.prems, of crc r True 0 d] record_image_ok [OF Cons.prems(2), of I crc True r]
    by (auto simp: add_record_def case_prod_beta)
qed simp

lemma read_all_slice:
  "int_enc_ok I \<Longrightarrow> block_ok bs off \<Longrightarrow> list_all (\<lambda>r. r \<noteq> []) rs \<Longrightarrow> length hdr = 7 \<Longrightarrow> length rs < n \<Longrightarrow>
    read_all n slice_reader I crc \<lparr>lr_src = fst (log_image I crc bs off rs), lr_blk_off = off, lr_blocksize = bs,
      lr_head = hdr, lr_checksums = chk\<rparr> = Some (Ok rs)"
proof (induction rs arbitrary: n off hdr)
  case Nil
  then show ?case using read_loop_end [OF Nil(2,4), of I crc "[]" chk] by (cases n) (auto simp: LogReader_read_def)
next
  case (Cons r rs)
  let ?img = "record_image I crc bs off True r"
  have ok: "block_ok bs (snd ?img)" using record_image_ok Cons.prems(2) by simp
  obtain h where h: "length h = 7" "LogReader_read slice_reader I crc
      \<lparr>lr_src = fst ?img @ fst (log_image I crc bs (snd ?img) rs), lr_blk_off = off, lr_blocksize = bs, lr_head = hdr, lr_checksums = chk\<rparr> =
    Some (Ok (length r, r), \<lparr>lr_src = fst (log_image I crc bs (snd ?img) rs), lr_blk_off = snd ?img, lr_blocksize = bs, lr_head = h, lr_checksums = chk\<rparr>)"
    using read_loop_slice [OF Cons.prems(1,2), of r hdr crc "[]" True] Cons.prems(3,4) by (auto simp: LogReader_read_def)
  from Cons.prems(5) obtain m where m: "n = Suc m" "length rs < m" by (cases n) auto
  show ?case using Cons.IH [OF Cons.prems(1) ok _ h(1) m(2)] Cons.prems(3) h(2) m(1)
    by (auto simp: case_prod_beta split: nat.splits)
qed

end
