(* ===== verification/Ldb_Instances.thy ===== *)
theory Ldb_Instances
  imports Ldb_Keys Ldb_Skipmap
begin

text \<open>
  A concrete integer encoding and a concrete source of random numbers.  They
  show that what \<open>int_enc_ok\<close> asks of the crate \<^verbatim>\<open>integer_encoding\<close> can be kept:
  \<open>leb128\<close> has base-128 variable-length numbers and little-endian fixed-size ones.
\<close>

function leb_encode :: "nat \<Rightarrow> bytes" where
  "leb_encode n = (if n < 128 then [of_nat n] else of_nat (n mod 128 + 128) # leb_encode (n div 128))"
  by auto
termination by (relation "measure id") auto

declare leb_encode.simps [simp del]

fun leb_decode :: "bytes \<Rightarrow> nat \<times> nat" where
  "leb_decode [] = (0, 0)"
| "leb_decode (b # bs) =
     (if b < 128 then (unat b, 1) else case leb_decode bs of (v, l) \<Rightarrow> (unat b - 128 + 128 * v, l + 1))"

lemma leb_byte: "n < 256 \<Longrightarrow> unat (of_nat n :: byte) = n" "n < 256 \<Longrightarrow> (of_nat n :: byte) < 128 \<longleftrightarrow> n < 128"
  by (simp_all add: unat_of_nat word_less_nat_alt)

lemma leb_round_trip: "leb_decode (leb_encode n @ rest) = (n, length (leb_encode n))"
proof (induction n rule: leb_encode.induct)
  case (1 n)
  show ?case
  proof (cases "n < 128")
    case True
    then show ?thesis by (subst (1 2) leb_encode.simps) (simp add: leb_byte)
  next
    case False
    have "n mod 128 + 128 < 256" by simp
    note b = leb_byte [OF this]
    have "leb_decode (leb_encode n @ rest) = (n mod 128 + 128 * (n div 128), Suc (length (leb_encode (n div 128))))"
      using False 1 b by (subst leb_encode.simps) (simp del: of_nat_add)
    also have "\<dots> = (n, length (leb_encode n))" using False by (subst (2) leb_encode.simps) simp
    finally show ?thesis .
  qed
qed

lemma leb_nonempty: "0 < length (leb_encode n)"
  by (subst leb_encode.simps) simp

lemma leb_length: "n < 128 ^ Suc k \<Longrightarrow> length (leb_encode n) \<le> Suc k"
proof (induction k arbitrary: n)
  case 0
  then show ?case by (subst leb_encode.simps) simp
next
  case (Suc k)
  then have "n div 128 < 128 ^ Suc k" by (simp add: less_mult_imp_div_less mult.commute)
  with Suc.IH show ?case by (subst leb_encode.simps) simp
qed

definition leb128 :: int_enc where
  "leb128 = \<lparr>encode_var = leb_encode, decode_var = leb_decode, required_space = (\<lambda>n. length (leb_encode n)),
     encode_fixed64 = u64_to_le_bytes, decode_fixed64 = u64_from_le_bytes,
     encode_fixed32 = u32_to_le_bytes, decode_fixed32 = u32_from_le_bytes,
     encode_fixed16 = (\<lambda>w. le_bytes 2 (unat w)), decode_fixed16 = (\<lambda>bs. of_nat (le_val bs))\<rparr>"

lemma leb128_ok: "int_enc_ok leb128"
proof -
  have "n < 128 ^ Suc 9" if "n < 2 ^ 64" for n :: nat using that by simp
  then have "\<forall>n < 2 ^ 64. length (leb_encode n) \<le> 10" using leb_length [of _ 9] by fastforce
  moreover have "(of_nat (le_val (le_bytes 2 (unat w))) :: 16 word) = w" for w :: "16 word"
    using unsigned_less [of w, where ?'a = nat] by (simp add: le_val_le_bytes)
  moreover have "replicate 4 (0 :: byte) = [0, 0, 0, 0]" by (simp add: numeral_eq_Suc)
  then have "u32_to_le_bytes 0 = replicate 4 0" by (simp add: u32_to_le_bytes_def le_bytes_4)
  moreover have "leb_encode n \<noteq> []" for n using leb_nonempty [of n] by auto
  ultimately show ?thesis
    unfolding int_enc_ok_def leb128_def
    by (simp add: leb_round_trip)
qed

text \<open>A source of random numbers that counts.\<close>

definition counter_rng :: "u32 rng" where
  "counter_rng = \<lparr>seed_from_u64 = ucast, next_u32 = (\<lambda>r. (r, r + 1))\<rparr>"

end
