(* ===== verification/Ldb_Properties.thy ===== *)
theory Ldb_Properties
  imports Ldb_Memtable Ldb_Write_Batch Ldb_Log Ldb_Instances "HOL-Library.Multiset"
begin

text \<open>
  What the in-memory half of the database promises: the order of keys, the skip
  map, the memtable, the batch format and the log format.
\<close>

section \<open>Key separators\<close>




section \<open>The memtable\<close>

text \<open>Adding a list of entries.\<close>

fun add_all :: "'r rng \<Rightarrow> int_enc \<Rightarrow> mt_entry list \<Rightarrow> 'r memtable \<Rightarrow> 'r memtable ldb" where
  "add_all G I [] m = Ok m"
| "add_all G I (e # es) m =
     bind_result (MemTable_add G I DefaultCmp_cmp m (e_seq e) (e_type e) (e_key e) (e_value e)) (add_all G I es)"

text \<open>The newest entry of a key that is not newer than a sequence number, whatever the order of insertion.\<close>

definition newest_at :: "mt_entry set \<Rightarrow> bytes \<Rightarrow> u64 \<Rightarrow> mt_entry option \<Rightarrow> bool" where
  "newest_at E k sq r = (case r of
     None \<Rightarrow> \<not> (\<exists>e \<in> E. e_key e = k \<and> e_seq e \<le> sq)
   | Some e \<Rightarrow> e \<in> E \<and> e_key e = k \<and> e_seq e \<le> sq \<and> \<not> (\<exists>e' \<in> E. e_key e' = k \<and> e_seq e' \<le> sq \<and> e_seq e < e_seq e'))"

lemma mset_insert_entry [simp]: "mset (insert_entry e es) = add_mset e (mset es)"
proof -
  have "mset (takeWhile (\<lambda>e'. entry_sort e' < entry_sort e) es) + mset (dropWhile (\<lambda>e'. entry_sort e' < entry_sort e) es) = mset es"
    by (metis mset_append takeWhile_dropWhile_id)
  then show ?thesis unfolding insert_entry_def by simp
qed

lemma add_all_rep:
  "mt_rep I m es0 \<Longrightarrow> list_all entry_ok es \<Longrightarrow> distinct (map entry_sort es) \<Longrightarrow>
    \<forall>e \<in> set es. \<forall>e' \<in> set es0. entry_sort e' \<noteq> entry_sort e \<Longrightarrow>
    \<exists>m'. add_all G I es m = Ok m' \<and> mt_rep I m' (fold insert_entry es es0)"
proof (induction es arbitrary: m es0)
  case (Cons e es)
  obtain m1 where m1: "MemTable_add G I DefaultCmp_cmp m (e_seq e) (e_type e) (e_key e) (e_value e) = Ok m1"
    "mt_rep I m1 (insert_entry e es0)"
    using MemTable_add_rep [of I m es0 e G] Cons.prems by auto
  have "\<forall>x \<in> set es. \<forall>e' \<in> set (insert_entry e es0). entry_sort e' \<noteq> entry_sort x"
    using Cons.prems(3,4) by auto
  with Cons.IH [OF m1(2)] Cons.prems(2,3) m1(1) show ?case by auto
qed auto

lemma visible_newest:
  assumes "sorted_wrt (\<lambda>a b. entry_sort a < entry_sort b) es"
  shows "newest_at (set es) k sq (visible es k sq)"
proof (cases "visible es k sq")
  case None
  then have "\<not> (\<exists>e \<in> set es. e_key e = k \<and> e_seq e \<le> sq)" by (auto simp: visible_def find_None_iff)
  with None show ?thesis by (simp add: newest_at_def)
next
  case (Some e)
  then obtain us vs where es: "es = us @ e # vs" "e_key e = k \<and> e_seq e \<le> sq" "\<forall>u \<in> set us. \<not> (e_key u = k \<and> e_seq u \<le> sq)"
    unfolding visible_def by (rule find_SomeE)
  have "\<not> e_seq e < e_seq e'" if "e' \<in> set vs" "e_key e' = k" for e'
    using assms that es(2) unfolding es(1) by (auto simp: sorted_wrt_append entry_sort_def)
  with es Some show ?thesis by (auto simp: newest_at_def)
qed

lemma set_fold_insert: "set (fold insert_entry es es0) = set es \<union> set es0"
  by (induction es arbitrary: es0) auto

lemma mset_fold_insert: "mset (fold insert_entry es es0) = mset es + mset es0"
  by (induction es arbitrary: es0) auto

text \<open>
  C24. A memtable filled with entries in any order finds, for every key and every
  sequence number, the newest entry of the key that is not newer than that number:
  its value, or that the key was deleted, or nothing.
\<close>
theorem memtable_finds_newest:
  assumes "int_enc_ok I" "list_all entry_ok es" "distinct (map entry_sort es)" "seq_ok sq"
  shows "\<exists>m r. add_all G I es (MemTable_new G) = Ok m \<and> newest_at (set es) k sq r \<and>
    MemTable_get I DefaultCmp_cmp m (LookupKey_new I k sq) = Ok (entry_result r)"
proof -
  obtain m where m: "add_all G I es (MemTable_new G) = Ok m" "mt_rep I m (fold insert_entry es [])"
    using add_all_rep [OF MemTable_new_rep [OF assms(1)] assms(2,3)] by auto
  have "newest_at (set es) k sq (visible (fold insert_entry es []) k sq)"
    using visible_newest [OF mt_rep_sorted [OF m(2)], of k sq] by (simp add: set_fold_insert)
  with m(1) MemTable_get_rep [OF m(2) assms(4)] show ?thesis by blast
qed

definition demo_entries :: "mt_entry list" where
  "demo_entries =
     [\<lparr>e_key = [1], e_seq = 1, e_type = TypeValue, e_value = [10]\<rparr>,
      \<lparr>e_key = [1], e_seq = 3, e_type = TypeDeletion, e_value = []\<rparr>,
      \<lparr>e_key = [1], e_seq = 2, e_type = TypeValue, e_value = [20]\<rparr>]"

lemma demo_entries_ok: "list_all entry_ok demo_entries" "distinct (map entry_sort demo_entries)"
  by (simp_all add: demo_entries_def entry_ok_def seq_ok_def entry_sort_def)

theorem memtable_finds_newest_witness:
  "seq_ok 2 \<and> (\<exists>m r. add_all counter_rng leb128 demo_entries (MemTable_new counter_rng) = Ok m \<and>
     newest_at (set demo_entries) [1] 2 r \<and>
     MemTable_get leb128 DefaultCmp_cmp m (LookupKey_new leb128 [1] 2) = Ok (entry_result r))"
proof -
  have "seq_ok 2" by (simp add: seq_ok_def)
  then show ?thesis using memtable_finds_newest [OF leb128_ok demo_entries_ok] by blast
qed

text \<open>
  C36. A second entry for the same key and sequence number is refused by the
  assertion of the skip map: the call panics.
\<close>
theorem memtable_refuses_duplicate:
  assumes "int_enc_ok I" "list_all entry_ok es" "distinct (map entry_sort es)" "e \<in> set es" "entry_ok e'" "entry_sort e' = entry_sort e"
  shows "\<exists>m. add_all G I es (MemTable_new G) = Ok m \<and>
    MemTable_add G I DefaultCmp_cmp m (e_seq e') (e_type e') (e_key e') (e_value e') = Panic"
proof -
  obtain m where m: "add_all G I es (MemTable_new G) = Ok m" "mt_rep I m (fold insert_entry es [])"
    using add_all_rep [OF MemTable_new_rep [OF assms(1)] assms(2,3)] by auto
  have "e \<in> set (fold insert_entry es [])" using assms(4) by (simp add: set_fold_insert)
  with m MemTable_add_duplicate [OF m(2) assms(5)] assms(6) show ?thesis by metis
qed

theorem memtable_refuses_duplicate_witness:
  "\<exists>m. add_all counter_rng leb128 demo_entries (MemTable_new counter_rng) = Ok m \<and>
    MemTable_add counter_rng leb128 DefaultCmp_cmp m 3 TypeValue [1] [7] = Panic"
  using memtable_refuses_duplicate [OF leb128_ok demo_entries_ok, of "demo_entries ! 1"
      "\<lparr>e_key = [1], e_seq = 3, e_type = TypeValue, e_value = [7]\<rparr>" counter_rng]
  by (simp add: demo_entries_def entry_ok_def seq_ok_def entry_sort_def)

section \<open>Iterating over a memtable\<close>

text \<open>An iterator of a memtable run to its end, from the node \<open>it\<close>.\<close>

fun mt_collect :: "int_enc \<Rightarrow> 'r memtable \<Rightarrow> nat \<Rightarrow> nat \<Rightarrow> (bytes \<times> bytes) list ldb" where
  "mt_collect I m 0 it = Panic"
| "mt_collect I m (Suc n) it =
     (case MemtableIterator_advance m it of
        (False, _) \<Rightarrow> Ok []
      | (True, it') \<Rightarrow>
          bind_result (MemtableIterator_current I m it') (\<lambda>c.
          case c of None \<Rightarrow> Ok [] | Some kv \<Rightarrow> bind_result (mt_collect I m n it') (\<lambda>kvs. Ok (kv # kvs))))"

lemma mt_collect_from:
  assumes I: "int_enc_ok I" and inv: "sm_inv (mkey_wf I) (mkey_sort I) m xs"
  shows "xs = p @ s \<Longrightarrow> list_all entry_ok es \<Longrightarrow> map (sm_entry m) s = map (\<lambda>e. (entry_key I e, [])) es \<Longrightarrow> length s < n \<Longrightarrow>
    mt_collect I m n (tip p) = Ok (map (\<lambda>e. (entry_ikey I e, e_value e)) es)"
proof (induction n arbitrary: p s es)
  case (Suc n)
  note adv = mcmp.advance_spec [OF inv Suc.prems(1)]
  show ?case
  proof (cases s)
    case Nil
    with Suc.prems(3) adv show ?thesis by (simp add: MemtableIterator_advance_def)
  next
    case (Cons a s')
    with Suc.prems(3) obtain e es' where es: "es = e # es'" and e: "sm_entry m a = (entry_key I e, [])"
      "map (sm_entry m) s' = map (\<lambda>e. (entry_key I e, [])) es'" by (cases es) auto
    have a: "a \<noteq> 0" using sm_inv_nonzero [OF inv] Suc.prems(1) Cons by simp
    have "MemtableIterator_current I m a = Ok (Some (entry_ikey I e, e_value e))"
      using e(1) a Suc.prems(2) es by (intro MemtableIterator_current_entry [OF I]) (auto simp: sm_entry_def)
    moreover have "mt_collect I m n (tip (p @ [a])) = Ok (map (\<lambda>e. (entry_ikey I e, e_value e)) es')"
      using Suc Cons es e(2) by (intro Suc.IH) auto
    ultimately show ?thesis
      using adv Cons a es by (simp add: MemtableIterator_advance_def SkipMapIter_valid_def)
  qed
qed simp

lemma mt_collect_all:
  assumes "mt_rep I m es"
  shows "mt_collect I m (MemTable_len m + 1) SkipMapIter_new = Ok (map (\<lambda>e. (entry_ikey I e, e_value e)) es)"
proof -
  from assms obtain xs where xs: "sm_inv (mkey_wf I) (mkey_sort I) m xs" "map (sm_entry m) xs = map (\<lambda>e. (entry_key I e, [])) es"
    unfolding mt_rep_def sm_rep_def by metis
  moreover have "sm_len m = length xs" using xs(1) by (simp add: sm_inv_def)
  ultimately show ?thesis
    using mt_collect_from [OF _ xs(1), of "[]" xs es "sm_len m + 1"] assms
    by (simp add: mt_rep_def MemTable_len_def SkipMapIter_new_def)
qed

text \<open>
  C35. Iterating over a memtable visits exactly the entries that were added, with
  their internal keys and values, ascending by user key and descending by sequence
  number, and then ends.
\<close>
theorem memtable_iterates_sorted:
  assumes "int_enc_ok I" "list_all entry_ok es" "distinct (map entry_sort es)"
  shows "\<exists>m es'. add_all G I es (MemTable_new G) = Ok m \<and> mset es' = mset es \<and>
    sorted_wrt (\<lambda>a b. entry_sort a < entry_sort b) es' \<and>
    mt_collect I m (MemTable_len m + 1) SkipMapIter_new = Ok (map (\<lambda>e. (entry_ikey I e, e_value e)) es')"
proof -
  obtain m where m: "add_all G I es (MemTable_new G) = Ok m" "mt_rep I m (fold insert_entry es [])"
    using add_all_rep [OF MemTable_new_rep [OF assms(1)] assms(2,3)] by auto
  then show ?thesis using mt_collect_all [OF m(2)] mt_rep_sorted [OF m(2)] mset_fold_insert [of es "[]"] by auto
qed

theorem memtable_iterates_sorted_witness:
  "\<exists>m es'. add_all counter_rng leb128 demo_entries (MemTable_new counter_rng) = Ok m \<and> mset es' = mset demo_entries \<and>
    sorted_wrt (\<lambda>a b. entry_sort a < entry_sort b) es' \<and>
    mt_collect leb128 m (MemTable_len m + 1) SkipMapIter_new = Ok (map (\<lambda>e. (entry_ikey leb128 e, e_value e)) es')"
  by (rule memtable_iterates_sorted [OF leb128_ok demo_entries_ok])


text \<open>
  C38. Whatever the random numbers are, choosing a height ends with a height
  between 1 and 12.
\<close>
theorem random_height_bounds: "1 \<le> fst (random_height G r) \<and> fst (random_height G r) \<le> MAX_HEIGHT"
  using random_height_range [of G r "fst (random_height G r)" "snd (random_height G r)"] by simp

section \<open>Batches\<close>

fun batch_all :: "int_enc \<Rightarrow> batch_op list \<Rightarrow> write_batch \<Rightarrow> write_batch ldb" where
  "batch_all I [] wb = Ok wb"
| "batch_all I ((k, Some v) # ops) wb = bind_result (WriteBatch_put I k v wb) (batch_all I ops)"
| "batch_all I ((k, None) # ops) wb = bind_result (WriteBatch_delete I k wb) (batch_all I ops)"

lemma batch_all_rep:
  "list_all op_ok ops \<Longrightarrow> wb_rep I wb ops0 \<Longrightarrow> \<exists>wb'. batch_all I ops wb = Ok wb' \<and> wb_rep I wb' (ops0 @ ops)"
proof (induction I ops wb arbitrary: ops0 rule: batch_all.induct)
  case (2 I k v ops wb)
  then show ?case using WriteBatch_put_rep [of I wb ops0 k v] by fastforce
next
  case (3 I k ops wb)
  then show ?case using WriteBatch_delete_rep [of I wb ops0 k] by fastforce
qed auto

text \<open>
  C26. A batch built from operations, encoded with a sequence number and read back,
  fills a memtable with one entry per operation: its key, its value or deletion
  mark, and consecutive sequence numbers.  The batch counts its operations.
\<close>
theorem batch_round_trip:
  assumes "list_all op_ok ops" "mt_rep I m es" "\<forall>e \<in> set es. e_seq e < sq" "unat sq + length ops < 2 ^ 56"
  shows "\<exists>wb bs m'. batch_all I ops WriteBatch_new = Ok wb \<and> WriteBatch_count I wb = Ok (of_nat (length ops)) \<and>
    WriteBatch_encode I sq wb = Ok bs \<and> WriteBatch_sequence I bs = Ok sq \<and>
    insert_into_memtable G I DefaultCmp_cmp (WriteBatch_set_contents bs) sq m = Ok m' \<and>
    mt_rep I m' (fold insert_entry (batch_entries sq ops) es)"
proof -
  have I: "int_enc_ok I" using assms(2) by (simp add: mt_rep_def)
  obtain wb where wb: "batch_all I ops WriteBatch_new = Ok wb" "wb_rep I wb ops"
    using batch_all_rep [OF assms(1) WriteBatch_new_rep [OF I]] by auto
  obtain bs where bs: "WriteBatch_encode I sq wb = Ok bs" "wb_rep I (WriteBatch_set_contents bs) ops" "WriteBatch_sequence I bs = Ok sq"
    using WriteBatch_encode_rep [OF wb(2)] by blast
  have "WriteBatch_count I wb = Ok (of_nat (length ops))" using count_rep [OF wb(2), of "[]"] by simp
  with wb(1) bs insert_into_memtable_rep [OF bs(2) assms(2-4), of G] show ?thesis by blast
qed

theorem batch_round_trip_witness:
  "\<exists>wb bs m'. batch_all leb128 [([1], Some [2]), ([3], None)] WriteBatch_new = Ok wb \<and>
    WriteBatch_count leb128 wb = Ok (of_nat (length [([1 :: byte], Some [2 :: byte]), ([3], None)])) \<and>
    WriteBatch_encode leb128 5 wb = Ok bs \<and> WriteBatch_sequence leb128 bs = Ok 5 \<and>
    insert_into_memtable counter_rng leb128 DefaultCmp_cmp (WriteBatch_set_contents bs) 5 (MemTable_new counter_rng) = Ok m' \<and>
    mt_rep leb128 m' (fold insert_entry (batch_entries 5 [([1], Some [2]), ([3], None)]) [])"
  by (rule batch_round_trip [OF _ MemTable_new_rep [OF leb128_ok]]) (simp_all add: op_ok_def op_value_def)

section \<open>Logs\<close>

text \<open>
  C25. What is written to a log is read back: after any sequence of non-empty
  records, of any length, the reader returns the same records and then the end of
  the log, with or without checking checksums.
\<close>
theorem log_round_trip:
  assumes "int_enc_ok I" "list_all (\<lambda>r. r \<noteq> []) rs"
  shows "\<exists>lw. write_all vec_writer I crc rs (LogWriter_new []) = Some (Ok (), lw) \<and>
    read_all (length rs + 1) slice_reader I crc (LogReader_new (lw_dst lw) chk) = Some (Ok rs)"
proof -
  have ok: "block_ok BLOCK_SIZE 0" by (simp add: block_ok_def BLOCK_SIZE_def LOG_HEADER_SIZE_def)
  have "length (replicate 7 (0 :: byte)) = 7" by simp
  from read_all_slice [OF assms(1) ok assms(2) this, of "length rs + 1"] write_all_vec [OF assms(1) ok, of crc rs "[]"]
  show ?thesis by (simp add: LogWriter_new_def LogReader_new_def)
qed

theorem log_round_trip_witness:
  "\<exists>lw. write_all vec_writer leb128 (\<lambda>bs. of_nat (length bs)) [[1], [2, 3]] (LogWriter_new []) = Some (Ok (), lw) \<and>
    read_all 3 slice_reader leb128 (\<lambda>bs. of_nat (length bs)) (LogReader_new (lw_dst lw) True) = Some (Ok [[1], [2, 3]])"
  using log_round_trip [OF leb128_ok, of "[[1], [2, 3]]" "\<lambda>bs. of_nat (length bs)" True] by (simp add: numeral_3_eq_3)

end
