(* ===== verification/Ldb_Database.thy ===== *)
theory Ldb_Database
  imports Ldb_Write_Batch Ldb_Log Ldb_Instances
begin

text \<open>
  The write path and the read path of the database, \<^verbatim>\<open>db_impl.rs\<close>, and its
  snapshots, \<^verbatim>\<open>snapshot.rs\<close>.  A write goes to the memtable and then to the log; a
  read looks at the memtable, the immutable memtable and the table files.

  The table files and the version set that lists them are the record \<open>levels\<close> of
  the operations this code calls.  \<open>db_room\<close> is the state of a database whose
  memtable has not been written to a table file yet, with room for so many more
  bytes; in it the database is a map from keys to values, which is the contract
  \<open>kv_store\<close> of the storage service.
\<close>

section \<open>Snapshots\<close>

record snapshot_list =
  sl_map :: "(u64, u64) fmap"
  sl_newest :: u64
  sl_oldest :: u64

record snapshot =
  snap_id :: u64
  snap_seq :: u64

definition SnapshotList_new :: snapshot_list where
  "SnapshotList_new = \<lparr>sl_map = fmempty, sl_newest = 0, sl_oldest = 0\<rparr>"

definition new_snapshot :: "u64 \<Rightarrow> snapshot_list \<Rightarrow> snapshot \<times> snapshot_list" where
  "new_snapshot sq sl =
     (let newest = sl_newest sl + 1;
          sl' = sl\<lparr>sl_newest := newest, sl_map := fmupd newest sq (sl_map sl)\<rparr>;
          sl'' = (if sl_oldest sl' = 0 then sl'\<lparr>sl_oldest := sl_newest sl'\<rparr> else sl')
      in (\<lparr>snap_id = sl_newest sl'', snap_seq = sq\<rparr>, sl''))"

text \<open>The two folds run over the keys of the map, in any order.\<close>

definition SnapshotList_oldest :: "snapshot_list \<Rightarrow> u64" where
  "SnapshotList_oldest sl =
     (let oldest = fold (\<lambda>k s. if k < s then k else s) (sorted_list_of_fset (fmdom (sl_map sl))) MAX_SEQUENCE_NUMBER in
      if oldest = MAX_SEQUENCE_NUMBER then 0 else oldest)"

definition SnapshotList_newest :: "snapshot_list \<Rightarrow> u64" where
  "SnapshotList_newest sl = fold (\<lambda>k s. if k > s then k else s) (sorted_list_of_fset (fmdom (sl_map sl))) 0"

definition SnapshotList_empty :: "snapshot_list \<Rightarrow> bool" where
  "SnapshotList_empty sl \<longleftrightarrow> sl_oldest sl = 0"

text \<open>Dropping the last copy of a snapshot.\<close>

definition snapshot_drop :: "snapshot \<Rightarrow> snapshot_list \<Rightarrow> snapshot_list" where
  "snapshot_drop s sl = sl\<lparr>sl_map := fmdrop (snap_id s) (sl_map sl)\<rparr>"

section \<open>The database\<close>

record ('r, 'v, 'w, 'st) levels =
  lv_new_file_number :: "'v \<Rightarrow> u64 \<times> 'v"
  lv_reuse_file_number :: "u64 \<Rightarrow> 'v \<Rightarrow> 'v"
  lv_open_log :: "u64 \<Rightarrow> ('v, 'w, status) op"
  lv_get :: "bytes \<Rightarrow> ('v, (bytes \<times> 'st) option, status) op"
  lv_update_stats :: "'st \<Rightarrow> 'v \<Rightarrow> bool \<times> 'v"
  lv_needs_compaction :: "'v \<Rightarrow> bool"
  lv_pick_and_compact :: "('v, unit, status) op"
  lv_write_l0_table :: "'r memtable \<Rightarrow> ('v, unit, status) op"
  lv_log_and_apply :: "u64 \<Rightarrow> ('v, unit, status) op"
  lv_delete_obsolete_files :: "('v, unit, status) op"

text \<open>The crates, the options and the files the database works with.\<close>

record ('r, 'v, 'w, 'st) db_env =
  env_rng :: "'r rng"
  env_int :: int_enc
  env_crc :: "bytes \<Rightarrow> u32"
  env_cmp :: cmp
  env_write_buffer_size :: nat
  env_writer :: "'w writer"
  env_levels :: "('r, 'v, 'w, 'st) levels"

record ('r, 'v, 'w) db =
  db_mem :: "'r memtable"
  db_imm :: "'r memtable option"
  db_log :: "'w log_writer option"
  db_log_num :: "u64 option"
  db_levels :: 'v
  db_last_seq :: u64
  db_snaps :: snapshot_list

definition on_levels :: "('v, 'a, status) op \<Rightarrow> (('r, 'v, 'w) db, 'a, status) op" where
  "on_levels m db = (case m (db_levels db) of (r, v') \<Rightarrow> (r, db\<lparr>db_levels := v'\<rparr>))"

definition on_log :: "('w log_writer \<Rightarrow> ('a ldb \<times> 'w log_writer) option) \<Rightarrow> (('r, 'v, 'w) db, 'a, status) op" where
  "on_log m db = (case db_log db of
     None \<Rightarrow> (Panic, db)
   | Some lw \<Rightarrow> (case m lw of None \<Rightarrow> (Panic, db) | Some (r, lw') \<Rightarrow> (r, db\<lparr>db_log := Some lw'\<rparr>)))"

subsection \<open>Compaction of the memtable\<close>

definition compact_memtable :: "('r, 'v, 'w, 'st) db_env \<Rightarrow> (('r, 'v, 'w) db, unit, status) op" where
  "compact_memtable E db = (case db_imm db of
     None \<Rightarrow> (Panic, db)
   | Some imm \<Rightarrow>
       (case on_levels (lv_write_l0_table (env_levels E) imm) (db\<lparr>db_imm := None\<rparr>) of
          (Err e, db1) \<Rightarrow> (Err e, db1\<lparr>db_imm := Some imm\<rparr>)
        | (Panic, db1) \<Rightarrow> (Panic, db1)
        | (Ok _, db1) \<Rightarrow>
            bind_op (on_levels (lv_log_and_apply (env_levels E) (case db_log_num db1 of Some n \<Rightarrow> n | None \<Rightarrow> 0))) (\<lambda>_.
            bind_op (try_op (on_levels (lv_delete_obsolete_files (env_levels E)))) (\<lambda>r.
            return_op (if r = Panic then Panic else Ok ()))) db1))"

definition maybe_do_compaction :: "('r, 'v, 'w, 'st) db_env \<Rightarrow> (('r, 'v, 'w) db, unit, status) op" where
  "maybe_do_compaction E db =
     (if db_imm db \<noteq> None then compact_memtable E db
      else if lv_needs_compaction (env_levels E) (db_levels db) then on_levels (lv_pick_and_compact (env_levels E)) db
      else (Ok (), db))"

definition make_room_for_write :: "('r, 'v, 'w, 'st) db_env \<Rightarrow> bool \<Rightarrow> (('r, 'v, 'w) db, unit, status) op" where
  "make_room_for_write E force db =
     (if \<not> force \<and> approx_mem_usage (db_mem db) < env_write_buffer_size E then (Ok (), db)
      else if MemTable_len (db_mem db) = 0 then (Ok (), db)
      else
        (case lv_new_file_number (env_levels E) (db_levels db) of (logn, v1) \<Rightarrow>
         case lv_open_log (env_levels E) logn v1 of
           (Err e, v2) \<Rightarrow> (Err e, db\<lparr>db_levels := lv_reuse_file_number (env_levels E) logn v2\<rparr>)
         | (Panic, v2) \<Rightarrow> (Panic, db\<lparr>db_levels := v2\<rparr>)
         | (Ok logf, v2) \<Rightarrow>
             maybe_do_compaction E
               (db\<lparr>db_levels := v2, db_log := Some (LogWriter_new logf), db_log_num := Some logn,
                  db_imm := Some (db_mem db), db_mem := MemTable_new (env_rng E)\<rparr>)))"

subsection \<open>Writing\<close>

definition insert_batch :: "('r, 'v, 'w, 'st) db_env \<Rightarrow> write_batch \<Rightarrow> u64 \<Rightarrow> (('r, 'v, 'w) db, unit, status) op" where
  "insert_batch E wb sq db = (case insert_into_memtable (env_rng E) (env_int E) (env_cmp E) wb sq (db_mem db) of
     Ok m \<Rightarrow> (Ok (), db\<lparr>db_mem := m\<rparr>) | Err e \<Rightarrow> (Err e, db) | Panic \<Rightarrow> (Panic, db))"

definition DB_write :: "('r, 'v, 'w, 'st) db_env \<Rightarrow> write_batch \<Rightarrow> bool \<Rightarrow> (('r, 'v, 'w) db, unit, status) op" where
  "DB_write E batch sync db =
     (if db_log db = None then (Panic, db)
      else
        bind_op (make_room_for_write E False) (\<lambda>_.
        bind_op (return_op (WriteBatch_count (env_int E) batch)) (\<lambda>entries db.
        let nxt = db_last_seq db + 1 in
        bind_op (insert_batch E batch nxt) (\<lambda>_.
        bind_op (return_op (WriteBatch_encode (env_int E) nxt batch)) (\<lambda>bs.
        bind_op (on_log (add_record (env_writer E) (env_int E) (env_crc E) bs)) (\<lambda>_.
        bind_op (if sync then on_log (\<lambda>lw. Some (LogWriter_flush (env_writer E) lw)) else return_op (Ok ())) (\<lambda>_ db.
        (Ok (), db\<lparr>db_last_seq := db_last_seq db + ucast entries\<rparr>))))) db)) db)"

definition DB_put :: "('r, 'v, 'w, 'st) db_env \<Rightarrow> bytes \<Rightarrow> bytes \<Rightarrow> (('r, 'v, 'w) db, unit, status) op" where
  "DB_put E k v = bind_op (return_op (WriteBatch_put (env_int E) k v WriteBatch_new)) (\<lambda>wb. DB_write E wb False)"

definition DB_delete :: "('r, 'v, 'w, 'st) db_env \<Rightarrow> bytes \<Rightarrow> (('r, 'v, 'w) db, unit, status) op" where
  "DB_delete E k = bind_op (return_op (WriteBatch_delete (env_int E) k WriteBatch_new)) (\<lambda>wb. DB_write E wb False)"

definition DB_flush :: "('r, 'v, 'w, 'st) db_env \<Rightarrow> (('r, 'v, 'w) db, unit, status) op" where
  "DB_flush E = on_log (\<lambda>lw. Some (LogWriter_flush (env_writer E) lw))"

subsection \<open>Reading\<close>

definition levels_get :: "('r, 'v, 'w, 'st) db_env \<Rightarrow> lookup_key \<Rightarrow> (('r, 'v, 'w) db, bytes option, status) op" where
  "levels_get E lkey =
     bind_op (return_op (internal_key lkey)) (\<lambda>ikey.
     bind_op (try_op (on_levels (lv_get (env_levels E) ikey))) (\<lambda>r.
     case r of
       Panic \<Rightarrow> return_op Panic
     | Ok (Some (v, st)) \<Rightarrow>
         (\<lambda>db. case lv_update_stats (env_levels E) st (db_levels db) of (do_compaction, v') \<Rightarrow>
            bind_op (if do_compaction then try_op (maybe_do_compaction E) else return_op (Ok (Ok ()))) (\<lambda>r.
            return_op (if r = Panic then Panic else Ok (Some v))) (db\<lparr>db_levels := v'\<rparr>))
     | _ \<Rightarrow> return_op (Ok None)))"

definition get_internal :: "('r, 'v, 'w, 'st) db_env \<Rightarrow> u64 \<Rightarrow> bytes \<Rightarrow> (('r, 'v, 'w) db, bytes option, status) op" where
  "get_internal E sq key db =
     (let lkey = LookupKey_new (env_int E) key sq in
      bind_op (return_op (MemTable_get (env_int E) (env_cmp E) (db_mem db) lkey)) (\<lambda>r.
      case r of
        (Some v, _) \<Rightarrow> return_op (Ok (Some v))
      | (None, deleted) \<Rightarrow>
          if deleted then return_op (Ok None)
          else (case db_imm db of
              None \<Rightarrow> levels_get E lkey
            | Some imm \<Rightarrow>
                bind_op (return_op (MemTable_get (env_int E) (env_cmp E) imm lkey)) (\<lambda>r.
                case r of
                  (Some v, _) \<Rightarrow> return_op (Ok (Some v))
                | (None, deleted) \<Rightarrow> if deleted then return_op (Ok None) else levels_get E lkey))) db)"

definition DB_get_at :: "('r, 'v, 'w, 'st) db_env \<Rightarrow> snapshot \<Rightarrow> bytes \<Rightarrow> (('r, 'v, 'w) db, bytes option, status) op" where
  "DB_get_at E snap key = get_internal E (snap_seq snap) key"

definition DB_get :: "('r, 'v, 'w, 'st) db_env \<Rightarrow> bytes \<Rightarrow> (('r, 'v, 'w) db, bytes option, status) op" where
  "DB_get E key db =
     (case get_internal E (db_last_seq db) key db of
        (Ok v, db') \<Rightarrow> (Ok v, db') | (Err _, db') \<Rightarrow> (Ok None, db') | (Panic, db') \<Rightarrow> (Panic, db'))"

definition get_snapshot :: "('r, 'v, 'w) db \<Rightarrow> snapshot \<times> ('r, 'v, 'w) db" where
  "get_snapshot db = (case new_snapshot (db_last_seq db) (db_snaps db) of (s, sl) \<Rightarrow> (s, db\<lparr>db_snaps := sl\<rparr>))"

subsection \<open>Recovery of a log\<close>

text \<open>
  What opening a database needs of the files: \<open>lf_recover_version\<close> is the part of \<^verbatim>\<open>recover\<close> that locks the
  directory and reads the descriptor; it gives whether the manifest is to be saved, the last sequence number, and the
  log files to be replayed.  The others are the operations on log files that \<^verbatim>\<open>recover_log_file\<close> calls, and the
  option it looks at.
\<close>

record ('v, 'w, 'f) log_files =
  lf_recover_version :: "('v, bool \<times> u64 \<times> u64 list, status) op"
  lf_open_sequential :: "u64 \<Rightarrow> ('v, 'f, status) op"
  lf_reader :: "'f reader"
  lf_size_of :: "u64 \<Rightarrow> ('v, nat, status) op"
  lf_open_appendable :: "u64 \<Rightarrow> ('v, 'w, status) op"
  lf_mark_file_number_used :: "u64 \<Rightarrow> 'v \<Rightarrow> 'v"
  lf_reuse_logs :: bool

record 'r recovery =
  rc_mem :: "'r memtable"
  rc_max_seq :: u64
  rc_compactions :: nat
  rc_save_manifest :: bool

text \<open>One record of the log: a batch that goes into the memtable, which is written out when it is full.\<close>

definition recover_record ::
    "('r, 'v, 'w, 'st) db_env \<Rightarrow> bytes \<Rightarrow> 'r recovery \<Rightarrow> ('v, 'r recovery, status) op" where
  "recover_record E scratch rc =
     (if length scratch < 12 then return_op (Ok rc)
      else
        let batch = WriteBatch_set_contents scratch; I = env_int E in
        bind_op (return_op (WriteBatch_sequence I batch)) (\<lambda>sq.
        bind_op (return_op (insert_into_memtable (env_rng E) I (env_cmp E) batch sq (rc_mem rc))) (\<lambda>mem.
        bind_op (return_op (WriteBatch_count I batch)) (\<lambda>c.
        let last_seq = sq + ucast c - 1;
            rc' = rc\<lparr>rc_mem := mem, rc_max_seq := (if last_seq > rc_max_seq rc then last_seq else rc_max_seq rc)\<rparr>
        in
        if approx_mem_usage mem > env_write_buffer_size E then
          bind_op (lv_write_l0_table (env_levels E) mem) (\<lambda>_.
          return_op (Ok (rc'\<lparr>rc_compactions := rc_compactions rc + 1, rc_save_manifest := True,
            rc_mem := MemTable_new (env_rng E)\<rparr>)))
        else return_op (Ok rc')))))"

partial_function (option) recover_loop ::
    "('r, 'v, 'w, 'st) db_env \<Rightarrow> 'f reader \<Rightarrow> 'f log_reader \<Rightarrow> 'r recovery \<Rightarrow> 'v \<Rightarrow> ('r recovery ldb \<times> 'v) option" where
  "recover_loop E R lr rc v =
     (case LogReader_read R (env_int E) (env_crc E) lr of
        None \<Rightarrow> None
      | Some (Ok (len, scratch), lr') \<Rightarrow>
          if len = 0 then Some (Ok rc, v)
          else (case recover_record E scratch rc v of
              (Ok rc', v') \<Rightarrow> recover_loop E R lr' rc' v'
            | (Err e, v') \<Rightarrow> Some (Err e, v')
            | (Panic, v') \<Rightarrow> Some (Panic, v'))
      | Some (Err _, _) \<Rightarrow> Some (Ok rc, v)
      | Some (Panic, _) \<Rightarrow> Some (Panic, v))"

definition recover_log_file ::
    "('r, 'v, 'w, 'st) db_env \<Rightarrow> ('v, 'w, 'f) log_files \<Rightarrow> u64 \<Rightarrow> bool \<Rightarrow> (('r, 'v, 'w) db, bool \<times> u64, status) op" where
  "recover_log_file E F log_num is_last =
     bind_op (on_levels (lf_open_sequential F log_num)) (\<lambda>logfile.
     bind_op (\<lambda>db. case recover_loop E (lf_reader F) (LogReader_new logfile True)
           \<lparr>rc_mem = MemTable_new (env_rng E), rc_max_seq = 0, rc_compactions = 0, rc_save_manifest = False\<rparr> (db_levels db) of
         None \<Rightarrow> (Panic, db) | Some (r, v') \<Rightarrow> (r, db\<lparr>db_levels := v'\<rparr>)) (\<lambda>rc.
     if lf_reuse_logs F \<and> is_last \<and> rc_compactions rc = 0 then
       (\<lambda>db. if db_log db \<noteq> None then (Panic, db)
         else
           bind_op (on_levels (lf_size_of F log_num)) (\<lambda>oldsize.
           bind_op (on_levels (lf_open_appendable F log_num)) (\<lambda>oldfile db.
             (Ok (rc_save_manifest rc, rc_max_seq rc),
              db\<lparr>db_log := Some (LogWriter_new_with_off oldfile oldsize), db_log_num := Some log_num, db_mem := rc_mem rc\<rparr>))) db)
     else if MemTable_len (rc_mem rc) > 0 then
       bind_op (on_levels (lv_write_l0_table (env_levels E) (rc_mem rc))) (\<lambda>_. return_op (Ok (True, rc_max_seq rc)))
     else return_op (Ok (rc_save_manifest rc, rc_max_seq rc))))"

text \<open>The loop of \<^verbatim>\<open>recover\<close> over the log files that are not in the descriptor.\<close>

fun recover_log_files ::
    "('r, 'v, 'w, 'st) db_env \<Rightarrow> ('v, 'w, 'f) log_files \<Rightarrow> u64 list \<Rightarrow> bool \<Rightarrow> u64 \<Rightarrow> (('r, 'v, 'w) db, bool \<times> u64, status) op" where
  "recover_log_files E F [] save_manifest max_seq = return_op (Ok (save_manifest, max_seq))"
| "recover_log_files E F (num # nums) save_manifest max_seq =
     bind_op (recover_log_file E F num (nums = [])) (\<lambda>(save_manifest', max_seq') db.
     recover_log_files E F nums (save_manifest \<or> save_manifest') (if max_seq' > max_seq then max_seq' else max_seq)
       (db\<lparr>db_levels := lf_mark_file_number_used F num (db_levels db)\<rparr>))"

definition recover_logs ::
    "('r, 'v, 'w, 'st) db_env \<Rightarrow> ('v, 'w, 'f) log_files \<Rightarrow> u64 list \<Rightarrow> bool \<Rightarrow> (('r, 'v, 'w) db, bool, status) op" where
  "recover_logs E F log_files save_manifest =
     bind_op (recover_log_files E F (sort log_files) save_manifest 0) (\<lambda>(save_manifest, max_seq) db.
     (Ok save_manifest, if db_last_seq db < max_seq then db\<lparr>db_last_seq := max_seq\<rparr> else db))"

definition DB_new :: "('r, 'v, 'w, 'st) db_env \<Rightarrow> 'v \<Rightarrow> ('r, 'v, 'w) db" where
  "DB_new E v = \<lparr>db_mem = MemTable_new (env_rng E), db_imm = None, db_log = None, db_log_num = None,
     db_levels = v, db_last_seq = 0, db_snaps = SnapshotList_new\<rparr>"

definition DB_recover :: "('r, 'v, 'w, 'st) db_env \<Rightarrow> ('v, 'w, 'f) log_files \<Rightarrow> (('r, 'v, 'w) db, bool, status) op" where
  "DB_recover E F =
     bind_op (on_levels (lf_recover_version F)) (\<lambda>(save_manifest, last_seq, log_files) db.
     recover_logs E F log_files save_manifest (db\<lparr>db_last_seq := last_seq\<rparr>))"

text \<open>Create a log file if an old one is not being reused.\<close>

definition create_log :: "('r, 'v, 'w, 'st) db_env \<Rightarrow> (('r, 'v, 'w) db, unit, status) op" where
  "create_log E db =
     (if db_log db \<noteq> None then (Ok (), db)
      else case lv_new_file_number (env_levels E) (db_levels db) of (lognum, v') \<Rightarrow>
        bind_op (on_levels (lv_open_log (env_levels E) lognum)) (\<lambda>logfile db.
        (Ok (), db\<lparr>db_log := Some (LogWriter_new logfile), db_log_num := Some lognum\<rparr>)) (db\<lparr>db_levels := v'\<rparr>))"

definition DB_open :: "('r, 'v, 'w, 'st) db_env \<Rightarrow> ('v, 'w, 'f) log_files \<Rightarrow> 'v \<Rightarrow> unit ldb \<times> ('r, 'v, 'w) db" where
  "DB_open E F v =
     bind_op (DB_recover E F) (\<lambda>save_manifest.
     bind_op (create_log E) (\<lambda>_.
     bind_op (if save_manifest
       then (\<lambda>db. on_levels (lv_log_and_apply (env_levels E) (case db_log_num db of Some n \<Rightarrow> n | None \<Rightarrow> 0)) db)
       else return_op (Ok ())) (\<lambda>_.
     bind_op (on_levels (lv_delete_obsolete_files (env_levels E))) (\<lambda>_.
     maybe_do_compaction E)))) (DB_new E v)"

section \<open>Writers that do not fail\<close>

text \<open>A file on which every write takes all its bytes.\<close>

definition writer_total :: "'w writer \<Rightarrow> bool" where
  "writer_total W \<longleftrightarrow> (\<forall>bs w. fst (wr_write W bs w) = Ok (length bs))"

lemma dst_write_total:
  assumes "writer_total W"
  obtains w' where "dst_write W bs lw = (Ok (length bs), lw\<lparr>lw_dst := w'\<rparr>)"
proof
  have "fst (wr_write W bs (lw_dst lw)) = Ok (length bs)" using assms by (simp add: writer_total_def)
  then show "dst_write W bs lw = (Ok (length bs), lw\<lparr>lw_dst := snd (wr_write W bs (lw_dst lw))\<rparr>)"
    by (simp add: dst_write_def case_prod_beta)
qed

lemma emit_record_total:
  assumes W: "writer_total W" and I: "int_enc_ok I" and n: "n < 256 * 256" "n \<le> length rcd"
  shows "\<exists>w'. emit_record W I crc t rcd n lw =
    (Ok (LOG_HEADER_SIZE + n), lw\<lparr>lw_dst := w', lw_offset := lw_offset lw + (LOG_HEADER_SIZE + n)\<rparr>)"
proof -
  let ?a = "encode_fixed32 I (mask_crc (crc (record_type_num t # take n rcd)))"
  obtain w1 where w1: "dst_write W ?a lw = (Ok (length ?a), lw\<lparr>lw_dst := w1\<rparr>)" using dst_write_total [OF W] .
  obtain w2 where w2: "dst_write W (encode_fixed16 I (of_nat n)) (lw\<lparr>lw_dst := w1\<rparr>) =
      (Ok (length (encode_fixed16 I (of_nat n))), (lw\<lparr>lw_dst := w1\<rparr>)\<lparr>lw_dst := w2\<rparr>)" using dst_write_total [OF W] .
  obtain w3 where w3: "dst_write W [record_type_num t] (lw\<lparr>lw_dst := w2\<rparr>) =
      (Ok (length [record_type_num t]), (lw\<lparr>lw_dst := w2\<rparr>)\<lparr>lw_dst := w3\<rparr>)" using dst_write_total [OF W] .
  obtain w4 where w4: "dst_write W (take n rcd) (lw\<lparr>lw_dst := w3\<rparr>) =
      (Ok (length (take n rcd)), (lw\<lparr>lw_dst := w3\<rparr>)\<lparr>lw_dst := w4\<rparr>)" using dst_write_total [OF W] .
  show ?thesis using w1 w2 w3 w4 n I
    by (intro exI [of _ w4])
      (simp add: emit_record_def bind_op_def return_op_def slice_def set_offset_def Let_def int_enc_simps LOG_HEADER_SIZE_def)
qed

lemma add_round_total:
  assumes W: "writer_total W" and I: "int_enc_ok I" and ok: "block_ok bs off"
  shows "\<exists>w'. add_round W I crc rcd first_frag \<lparr>lw_dst = d, lw_offset = off, lw_block_size = bs\<rparr> =
    (Ok (LOG_HEADER_SIZE + frag_len bs off rcd, frag_len bs off rcd),
     \<lparr>lw_dst = w', lw_offset = frag_off bs off + LOG_HEADER_SIZE + frag_len bs off rcd, lw_block_size = bs\<rparr>)"
proof -
  let ?lw = "\<lparr>lw_dst = d, lw_offset = off, lw_block_size = bs\<rparr>" and ?n = "frag_len bs off rcd"
  obtain d1 where f: "fill_block W ?lw = (Ok (), \<lparr>lw_dst = d1, lw_offset = frag_off bs off, lw_block_size = bs\<rparr>)"
  proof (cases "bs - off < LOG_HEADER_SIZE")
    case True
    obtain w' where "dst_write W (replicate (bs - off) 0) ?lw = (Ok (length (replicate (bs - off) (0 :: byte))), ?lw\<lparr>lw_dst := w'\<rparr>)"
      using dst_write_total [OF W] .
    with True that [of w'] show thesis by (simp add: fill_block_def bind_op_def set_offset_def frag_off_def)
  next
    case False
    with that [of d] show thesis by (simp add: fill_block_def frag_off_def)
  qed
  let ?lw1 = "\<lparr>lw_dst = d1, lw_offset = frag_off bs off, lw_block_size = bs\<rparr>"
  have n: "?n < 256 * 256" "?n \<le> length rcd" using frag_len_less [OF ok, of rcd] by (auto simp: frag_len_def)
  have len: "(if length rcd < bs - frag_off bs off - LOG_HEADER_SIZE then length rcd
      else bs - frag_off bs off - LOG_HEADER_SIZE) = ?n" by (simp add: frag_len_def)
  obtain w' where "emit_record W I crc (frag_type first_frag (?n = length rcd)) rcd ?n ?lw1 =
      (Ok (LOG_HEADER_SIZE + ?n), ?lw1\<lparr>lw_dst := w', lw_offset := lw_offset ?lw1 + (LOG_HEADER_SIZE + ?n)\<rparr>)"
    using emit_record_total [OF W I n] by blast
  then have "add_frag W I crc rcd first_frag ?lw1 = (Ok (LOG_HEADER_SIZE + ?n, ?n),
      ?lw1\<lparr>lw_dst := w', lw_offset := lw_offset ?lw1 + (LOG_HEADER_SIZE + ?n)\<rparr>)"
    using ok len unfolding add_frag_def Let_def frag_type_def [symmetric]
    by (auto simp: bind_op_def return_op_def block_ok_def frag_off_def LOG_HEADER_SIZE_def)
  then show ?thesis using ok f by (intro exI [of _ w']) (simp add: add_round_def bind_op_def block_ok_def)
qed

lemma add_loop_total:
  "writer_total W \<Longrightarrow> int_enc_ok I \<Longrightarrow> block_ok bs off \<Longrightarrow>
    \<exists>s' w'. add_loop W I crc rcd first_frag s \<lparr>lw_dst = d, lw_offset = off, lw_block_size = bs\<rparr> =
    Some (Ok s', \<lparr>lw_dst = w', lw_offset = snd (record_image I crc bs off first_frag rcd), lw_block_size = bs\<rparr>)"
proof (induction I crc bs off first_frag rcd arbitrary: s d rule: record_image.induct)
  case (1 I crc bs off first_frag rcd)
  let ?n = "frag_len bs off rcd"
  show ?case
  proof (cases "rcd = []")
    case True
    then show ?thesis by (subst add_loop.simps, subst record_image.simps) simp
  next
    case False
    obtain w1 where "add_round W I crc rcd first_frag \<lparr>lw_dst = d, lw_offset = off, lw_block_size = bs\<rparr> =
        (Ok (LOG_HEADER_SIZE + ?n, ?n), \<lparr>lw_dst = w1, lw_offset = frag_off bs off + LOG_HEADER_SIZE + ?n, lw_block_size = bs\<rparr>)"
      using add_round_total [OF 1(2-4)] by blast
    moreover obtain s' w' where "add_loop W I crc (drop ?n rcd) False (LOG_HEADER_SIZE + ?n)
        \<lparr>lw_dst = w1, lw_offset = frag_off bs off + LOG_HEADER_SIZE + ?n, lw_block_size = bs\<rparr> =
      Some (Ok s', \<lparr>lw_dst = w',
        lw_offset = snd (record_image I crc bs (frag_off bs off + LOG_HEADER_SIZE + ?n) False (drop ?n rcd)), lw_block_size = bs\<rparr>)"
      using 1(1) [of ?n] False 1(2-4) block_ok_next [OF 1(4), of rcd] by blast
    ultimately show ?thesis using False 1(4)
      by (subst add_loop.simps, subst record_image.simps) (simp add: Let_def case_prod_beta)
  qed
qed

definition log_ok :: "'w log_writer \<Rightarrow> bool" where
  "log_ok lw \<longleftrightarrow> block_ok (lw_block_size lw) (lw_offset lw)"

lemma add_record_total:
  assumes "writer_total W" "int_enc_ok I" "log_ok lw"
  shows "\<exists>n lw'. add_record W I crc r lw = Some (Ok n, lw') \<and> log_ok lw'"
proof (cases lw)
  case (fields d off bs)
  then show ?thesis
    using add_loop_total [OF assms(1,2), of bs off crc r True 0 d] record_image_ok [of bs off I crc True r] assms(3)
    by (force simp: add_record_def log_ok_def)
qed

section \<open>The contents of a memtable\<close>

definition decode_entry :: "int_enc \<Rightarrow> bytes \<Rightarrow> mt_entry" where
  "decode_entry I mk = (case parse_memtable_key I mk of
     Ok (keylen, keyoff, tg, vallen, valoff) \<Rightarrow>
       \<lparr>e_key = take keylen (drop keyoff mk), e_seq = snd (parse_tag tg), e_type = fst (parse_tag tg),
        e_value = take vallen (drop valoff mk)\<rparr>
   | _ \<Rightarrow> \<lparr>e_key = [], e_seq = 0, e_type = TypeDeletion, e_value = []\<rparr>)"

definition mt_entries :: "int_enc \<Rightarrow> 'r memtable \<Rightarrow> mt_entry list" where
  "mt_entries I m = map (\<lambda>x. decode_entry I (fst x)) (collect m (sm_len m + 1) SkipMapIter_new)"

lemma decode_entry_key:
  assumes "int_enc_ok I" "entry_ok e"
  shows "decode_entry I (entry_key I e) = e"
proof -
  have "e = \<lparr>e_key = e_key e, e_seq = e_seq e, e_type = e_type e, e_value = e_value e\<rparr>" by simp
  moreover have "seq_ok (e_seq e)" using assms(2) by (simp add: entry_ok_def)
  ultimately show ?thesis using assms(1)
    by (simp add: decode_entry_def entry_key_def parse_memtable_entry) (simp add: mkey_entry_def mkey_head_def)
qed

lemma mt_entries_rep:
  assumes "mt_rep I m es"
  shows "mt_entries I m = es"
proof -
  have "collect m (sm_len m + 1) SkipMapIter_new = map (\<lambda>e. (entry_key I e, [])) es"
    using assms mcmp.collect_all by (auto simp: mt_rep_def)
  moreover have "map (\<lambda>e. decode_entry I (entry_key I e)) es = es"
    using assms by (intro map_idI decode_entry_key) (auto simp: mt_rep_def list_all_iff)
  ultimately show ?thesis unfolding mt_entries_def by (simp only: map_map comp_def fst_conv)
qed

section \<open>The database as a map\<close>

definition db_contents :: "('r, 'v, 'w, 'st) db_env \<Rightarrow> ('r, 'v, 'w) db \<Rightarrow> bytes \<Rightarrow> bytes option" where
  "db_contents E db k = fst (entry_result (visible (mt_entries (env_int E) (db_mem db)) k (db_last_seq db)))"

text \<open>No table file holds anything.\<close>

definition levels_quiet :: "('r, 'v, 'w, 'st) levels \<Rightarrow> 'v \<Rightarrow> bool" where
  "levels_quiet L v \<longleftrightarrow> (\<forall>k. lv_get L k v = (Ok None, v))"

definition db_room :: "('r, 'v, 'w, 'st) db_env \<Rightarrow> nat \<Rightarrow> ('r, 'v, 'w) db \<Rightarrow> bool" where
  "db_room E n db \<longleftrightarrow>
     env_cmp E = DefaultCmp_cmp \<and> writer_total (env_writer E) \<and> env_write_buffer_size E < 2 ^ 63 \<and>
     (\<exists>es. mt_rep (env_int E) (db_mem db) es \<and> (\<forall>e \<in> set es. e_seq e \<le> db_last_seq db)) \<and>
     db_imm db = None \<and> (\<exists>lw. db_log db = Some lw \<and> log_ok lw) \<and> levels_quiet (env_levels E) (db_levels db) \<and>
     approx_mem_usage (db_mem db) + n \<le> env_write_buffer_size E \<and> unat (db_last_seq db) + n < 2 ^ 56"

lemma get_internal_quiet:
  assumes es: "mt_rep (env_int E) (db_mem db) es" and cmp: "env_cmp E = DefaultCmp_cmp" and sq: "seq_ok sq"
    and quiet: "db_imm db = None" "levels_quiet (env_levels E) (db_levels db)"
  shows "get_internal E sq k db = (Ok (fst (entry_result (visible es k sq))), db)"
proof -
  have I: "int_enc_ok (env_int E)" using es by (simp add: mt_rep_def)
  have "levels_get E (LookupKey_new (env_int E) k sq) db = (Ok None, db)"
    using quiet by (simp add: levels_get_def LookupKey_new_keys [OF I] bind_op_def return_op_def try_op_def on_levels_def levels_quiet_def)
  then show ?thesis using MemTable_get_rep [OF es sq, of k] cmp quiet(1)
    by (cases "visible es k sq") (auto simp: get_internal_def bind_op_def return_op_def Let_def entry_result_def split: value_type.splits)
qed

lemma db_room_get:
  assumes room: "db_room E n db"
  shows "DB_get E k db = (Ok (db_contents E db k), db)"
proof -
  obtain es where es: "mt_rep (env_int E) (db_mem db) es" using room by (auto simp: db_room_def)
  have "seq_ok (db_last_seq db)" using room by (simp add: db_room_def seq_ok_def)
  then show ?thesis using get_internal_quiet [OF es, of "db_last_seq db" k] room
    by (simp add: DB_get_def db_room_def db_contents_def mt_entries_rep [OF es])
qed

lemma unat_succ: "unat (w :: u64) + 1 < 2 ^ 64 \<Longrightarrow> unat (w + 1) = unat w + 1"
  by (simp add: unat_word_ariths)

lemma DB_write_one:
  assumes room: "db_room E (entry_cost (length (fst bop)) (length (op_value bop)) + n) db"
    and wb: "wb_rep (env_int E) wb [bop]"
  shows "\<exists>db'. DB_write E wb False db = (Ok (), db') \<and> db_room E n db' \<and>
    db_contents E db' = (db_contents E db)(fst bop := snd bop) \<and> db_last_seq db' = db_last_seq db + 1 \<and>
    mt_entries (env_int E) (db_mem db') =
      insert_entry (hd (batch_entries (db_last_seq db + 1) [bop])) (mt_entries (env_int E) (db_mem db))"
proof -
  let ?c = "entry_cost (length (fst bop)) (length (op_value bop))" and ?I = "env_int E" and ?sq = "db_last_seq db"
  have c: "80 \<le> ?c" by (simp add: entry_cost_def size_of_Node_def)
  obtain es lw where es: "mt_rep ?I (db_mem db) es" "\<forall>e \<in> set es. e_seq e \<le> ?sq"
    and lw: "db_log db = Some lw" "log_ok lw" using room by (auto simp: db_room_def)
  have I: "int_enc_ok ?I" using es(1) by (simp add: mt_rep_def)
  have r: "env_cmp E = DefaultCmp_cmp" "writer_total (env_writer E)" "db_imm db = None"
      "approx_mem_usage (db_mem db) + (?c + n) \<le> env_write_buffer_size E" "unat ?sq + (?c + n) < 2 ^ 56"
      "levels_quiet (env_levels E) (db_levels db)" "env_write_buffer_size E < 2 ^ 63"
    using room by (auto simp: db_room_def)
  have u: "unat (?sq + 1) = unat ?sq + 1" using r(5) by (intro unat_succ) simp
  then have lt: "?sq < ?sq + 1" by (simp add: word_less_nat_alt)
  let ?e = "hd (batch_entries (?sq + 1) [bop])"
  have old: "\<forall>e \<in> set es. e_seq e < ?sq + 1" using es(2) lt by (meson order.strict_trans1)
  moreover have "unat (?sq + 1) + length [bop] < 2 ^ 56" using u r(5) c by simp
  ultimately obtain m' where m': "insert_into_memtable (env_rng E) ?I DefaultCmp_cmp wb (?sq + 1) (db_mem db) = Ok m'"
    "mt_rep ?I m' (insert_entry ?e es)" "approx_mem_usage m' \<le> approx_mem_usage (db_mem db) + ?c"
    using insert_into_memtable_rep [OF wb es(1), of "?sq + 1" "env_rng E"] by (auto simp: ops_cost_def)
  obtain bs where bs: "WriteBatch_encode ?I (?sq + 1) wb = Ok bs" using WriteBatch_encode_rep [OF wb] by blast
  obtain k lw' where lw': "add_record (env_writer E) ?I (env_crc E) bs lw = Some (Ok k, lw')" "log_ok lw'"
    using add_record_total [OF r(2) I lw(2)] by blast
  let ?db = "db\<lparr>db_mem := m', db_log := Some lw', db_last_seq := ?sq + 1\<rparr>"
  have "WriteBatch_count ?I wb = Ok 1" using count_rep [OF wb, of "[]"] by simp
  then have "DB_write E wb False db = (Ok (), ?db)"
    using lw(1) lw'(1) m'(1) bs r(1,4) c
    by (simp add: DB_write_def bind_op_def return_op_def make_room_for_write_def insert_batch_def on_log_def Let_def)
  moreover have "db_room E n ?db"
  proof -
    have "\<forall>e \<in> set (insert_entry ?e es). e_seq e \<le> ?sq + 1" using es(2) lt by (auto intro: order.strict_implies_order order.strict_trans1)
    with m'(2,3) r lw'(2) u c show ?thesis unfolding db_room_def by fastforce
  qed
  moreover have "db_contents E ?db = (db_contents E db)(fst bop := snd bop)"
  proof
    fix k
    have "visible (insert_entry ?e es) k (?sq + 1) = (if k = fst bop then Some ?e else visible es k (?sq + 1))"
      using visible_insert [of es ?e "?sq + 1" k] old by simp
    moreover have "visible es k (?sq + 1) = visible es k ?sq"
      using es(2) lt by (intro visible_later) auto
    ultimately show "db_contents E ?db k = ((db_contents E db)(fst bop := snd bop)) k"
      by (simp add: db_contents_def mt_entries_rep [OF m'(2)] mt_entries_rep [OF es(1)] entry_result_def op_value_def split: option.splits)
  qed
  ultimately show ?thesis using mt_entries_rep [OF m'(2)] mt_entries_rep [OF es(1)] by (intro exI [of _ ?db]) simp
qed

lemma DB_put_spec:
  assumes room: "db_room E (entry_cost (length k) (length v) + n) db"
  shows "\<exists>db'. DB_put E k v db = (Ok (), db') \<and> db_room E n db' \<and> db_contents E db' = (db_contents E db)(k \<mapsto> v)"
proof -
  have I: "int_enc_ok (env_int E)" and l: "entry_cost (length k) (length v) < 2 ^ 63"
    using room by (auto simp: db_room_def mt_rep_def)
  from l have "op_ok (k, Some v)" by (simp add: op_ok_def op_value_def entry_cost_def)
  then obtain wb where "WriteBatch_put (env_int E) k v WriteBatch_new = Ok wb" "wb_rep (env_int E) wb [(k, Some v)]"
    using WriteBatch_put_rep [OF WriteBatch_new_rep [OF I]] by auto
  then show ?thesis using DB_write_one [of E "(k, Some v)" n db wb] room
    by (auto simp: DB_put_def bind_op_def return_op_def op_value_def)
qed

lemma DB_delete_spec:
  assumes room: "db_room E (entry_cost (length k) 0 + n) db"
  shows "\<exists>db'. DB_delete E k db = (Ok (), db') \<and> db_room E n db' \<and> db_contents E db' = (db_contents E db)(k := None)"
proof -
  have I: "int_enc_ok (env_int E)" and l: "entry_cost (length k) 0 < 2 ^ 63"
    using room by (auto simp: db_room_def mt_rep_def)
  from l have "op_ok (k, None)" by (simp add: op_ok_def op_value_def entry_cost_def)
  then obtain wb where "WriteBatch_delete (env_int E) k WriteBatch_new = Ok wb" "wb_rep (env_int E) wb [(k, None)]"
    using WriteBatch_delete_rep [OF WriteBatch_new_rep [OF I]] by auto
  then show ?thesis using DB_write_one [of E "(k, None)" n db wb] room
    by (auto simp: DB_delete_def bind_op_def return_op_def op_value_def)
qed

lemma db_room_mono: "db_room E (m + n) db \<Longrightarrow> db_room E n db"
  by (auto simp: db_room_def)

end
