(* ===== verification/Ldb_Recovery.thy ===== *)
theory Ldb_Recovery
  imports Ldb_Database
begin

text \<open>
  What a database leaves in its log and what \<^verbatim>\<open>recover_log_file\<close> of
  \<^verbatim>\<open>rusty_leveldb_sgx/src/db_impl.rs\<close> makes of it. A sequence of puts and deletes writes one record per
  operation; reading the log back rebuilds the memtable and the last sequence number. A log that cannot be written
  leaves the memtable ahead of the sequence number.
\<close>

section \<open>Running operations and recovering from the log\<close>



text \<open>A batch with its sequence number, and the records that a sequence of operations leaves in the log.\<close>

definition batch_bytes :: "int_enc \<Rightarrow> u64 \<Rightarrow> batch_op list \<Rightarrow> bytes" where
  "batch_bytes I sq ops = encode_fixed64 I sq @ encode_fixed32 I (of_nat (length ops)) @ concat (map (op_bytes I) ops)"


lemma encode_batch_bytes: "wb_rep I wb ops \<Longrightarrow> WriteBatch_encode I sq wb = Ok (batch_bytes I sq ops)"
  by (auto simp: wb_rep_def WriteBatch_encode_def WriteBatch_set_sequence_def SEQNUM_OFFSET_def write_slice_def
      batch_bytes_def int_enc_simps)



lemma batch_bytes_length: "int_enc_ok I \<Longrightarrow> 12 \<le> length (batch_bytes I sq ops)"
  by (simp add: batch_bytes_def int_enc_simps)



text \<open>The log of a database that writes to memory holds the records \<open>rs\<close>.\<close>

definition logged :: "('r, 'v, bytes, 'st) db_env \<Rightarrow> bytes list \<Rightarrow> ('r, 'v, bytes) db \<Rightarrow> bool" where
  "logged E rs db \<longleftrightarrow> env_writer E = vec_writer \<and>
     db_log db = Some \<lparr>lw_dst = fst (log_image (env_int E) (env_crc E) BLOCK_SIZE 0 rs),
       lw_offset = snd (log_image (env_int E) (env_crc E) BLOCK_SIZE 0 rs), lw_block_size = BLOCK_SIZE\<rparr>"

lemma block_ok_start: "block_ok BLOCK_SIZE 0"
  by (simp add: block_ok_def BLOCK_SIZE_def LOG_HEADER_SIZE_def)









text \<open>Log files in memory, of which those of \<open>nums\<close> are to be replayed.\<close>

definition memory_files :: "(u64 \<rightharpoonup> bytes) \<Rightarrow> u64 list \<Rightarrow> ('v, bytes, bytes) log_files" where
  "memory_files fs nums =
     (let file = (\<lambda>n. case fs n of Some b \<Rightarrow> Ok b | None \<Rightarrow> Err \<lparr>st_code = NotFound, st_err = []\<rparr>) in
      \<lparr>lf_recover_version = return_op (Ok (False, 0, nums)), lf_open_sequential = (\<lambda>n. return_op (file n)),
       lf_reader = slice_reader, lf_size_of = (\<lambda>n. return_op (map_ok length (file n))),
       lf_open_appendable = (\<lambda>n. return_op (file n)), lf_mark_file_number_used = (\<lambda>n v. v), lf_reuse_logs = True\<rparr>)"








text \<open>A database with no table files, whose next log file is the empty file \<open>num\<close>.\<close>

definition no_tables :: "('r, 'v, bytes, 'st) db_env \<Rightarrow> u64 \<Rightarrow> 'v \<Rightarrow> bool" where
  "no_tables E num v \<longleftrightarrow> levels_quiet (env_levels E) v \<and> \<not> lv_needs_compaction (env_levels E) v \<and>
     lv_new_file_number (env_levels E) v = (num, v) \<and> lv_open_log (env_levels E) num v = (Ok [], v) \<and>
     lv_delete_obsolete_files (env_levels E) v = (Ok (), v)"

definition env_ok :: "('r, 'v, bytes, 'st) db_env \<Rightarrow> bool" where
  "env_ok E \<longleftrightarrow> int_enc_ok (env_int E) \<and> env_cmp E = DefaultCmp_cmp \<and> env_writer E = vec_writer \<and> env_write_buffer_size E < 2 ^ 63"

lemma vec_writer_total: "writer_total vec_writer"
  by (simp add: writer_total_def vec_writer_def)

lemma DB_open_new:
  assumes E: "env_ok E" and v: "no_tables E num v"
    and n: "approx_mem_usage (MemTable_new (env_rng E)) + n \<le> env_write_buffer_size E" "n < 2 ^ 56"
  shows "\<exists>db. DB_open E (memory_files fs []) v = (Ok (), db) \<and> db_room E n db \<and> logged E [] db \<and>
    db_mem db = MemTable_new (env_rng E) \<and> db_last_seq db = 0"
proof -
  let ?db = "(DB_new E v)\<lparr>db_log := Some (LogWriter_new []), db_log_num := Some num\<rparr>"
  have "DB_open E (memory_files fs []) v = (Ok (), ?db)"
    using v by (simp add: DB_open_def DB_recover_def recover_logs_def create_log_def maybe_do_compaction_def memory_files_def
        on_levels_def DB_new_def bind_op_def return_op_def no_tables_def Let_def)
  moreover have "mt_rep (env_int E) (MemTable_new (env_rng E)) []" using E MemTable_new_rep by (auto simp: env_ok_def)
  then have "db_room E n ?db"
    using E v n vec_writer_total block_ok_start
    by (auto simp: db_room_def env_ok_def no_tables_def DB_new_def LogWriter_new_def log_ok_def intro!: exI [of _ "[]"])
  moreover have "logged E [] ?db" using E by (simp add: logged_def env_ok_def LogWriter_new_def)
  ultimately show ?thesis by (intro exI [of _ ?db]) (simp add: DB_new_def)
qed







text \<open>An environment with a log in memory and no tables.\<close>

definition memory_levels :: "u64 \<Rightarrow> ('r, unit, bytes, unit) levels" where
  "memory_levels num = \<lparr>lv_new_file_number = (\<lambda>v. (num, v)), lv_reuse_file_number = (\<lambda>_ v. v), lv_open_log = (\<lambda>_. return_op (Ok [])),
     lv_get = (\<lambda>_. return_op (Ok None)), lv_update_stats = (\<lambda>_ v. (False, v)), lv_needs_compaction = (\<lambda>_. False),
     lv_pick_and_compact = return_op (Ok ()), lv_write_l0_table = (\<lambda>_. return_op (Ok ())), lv_log_and_apply = (\<lambda>_. return_op (Ok ())),
     lv_delete_obsolete_files = return_op (Ok ())\<rparr>"

definition memory_env :: "bytes writer \<Rightarrow> (u32, unit, bytes, unit) db_env" where
  "memory_env W = \<lparr>env_rng = counter_rng, env_int = leb128, env_crc = (\<lambda>_. 0), env_cmp = DefaultCmp_cmp,
     env_write_buffer_size = 4 * 1024 * 1024, env_writer = W, env_levels = memory_levels 3\<rparr>"

lemma memory_env_ok: "env_ok (memory_env vec_writer)" "no_tables (memory_env W) 3 ()"
  using leb128_ok by (simp_all add: env_ok_def no_tables_def levels_quiet_def memory_env_def memory_levels_def return_op_def)

lemma memory_room:
  "ops_cost [([1], Some [2]), ([3], Some [4]), ([1], None)] < 2 ^ 56"
  "approx_mem_usage (MemTable_new (env_rng (memory_env W))) + ops_cost [([1], Some [2]), ([3], Some [4]), ([1], None)] \<le>
    env_write_buffer_size (memory_env W)"
  by (simp_all add: memory_env_def ops_cost_def entry_cost_def op_value_def approx_mem_usage_def MemTable_new_def SkipMap_new_def
      size_of_Node_def size_of_ptr_def size_of_SkipMap_def MAX_HEIGHT_def)


section \<open>A log that cannot be written\<close>

definition writer_refuses :: "'w writer \<Rightarrow> status \<Rightarrow> bool" where
  "writer_refuses W e \<longleftrightarrow> (\<forall>bs w. wr_write W bs w = (Err e, w))"

lemma add_record_refused:
  assumes "writer_refuses W e" "log_ok lw" "r \<noteq> []"
  shows "add_record W I crc r lw = Some (Err e, lw)"
proof -
  have d: "dst_write W bs lw' = (Err e, lw')" for bs lw'
    using assms(1) by (simp add: dst_write_def writer_refuses_def)
  have e: "emit_record W I crc t r n lw' = (Err e, lw')" if "n < 256 * 256" "n \<le> length r" for t n lw'
    using that d by (simp add: emit_record_def bind_op_def return_op_def slice_def Let_def)
  let ?n = "frag_len (lw_block_size lw) (lw_offset lw) r"
  have "?n < 256 * 256" "?n \<le> length r"
    using frag_len_less [of "lw_block_size lw" "lw_offset lw" r] assms(2) by (auto simp: frag_len_def log_ok_def)
  then have "add_round W I crc r True lw = (Err e, lw)"
    using assms(2) d e
    by (auto simp: add_round_def add_frag_def fill_block_def bind_op_def log_ok_def block_ok_def Let_def frag_len_def frag_off_def split: if_splits)
  then show ?thesis using assms(3) by (simp add: add_record_def, subst add_loop.simps) simp
qed

lemma insert_into_memtable_duplicate:
  assumes wb: "wb_rep I wb [bop]" and m: "mt_rep I m es" and sq: "seq_ok sq"
    and e: "e \<in> set es" "entry_sort e = entry_sort (hd (batch_entries sq [bop]))"
  shows "insert_into_memtable G I DefaultCmp_cmp wb sq m = Panic"
proof -
  let ?e = "hd (batch_entries sq [bop])"
  obtain s where s: "length s = 8" "wb = (s @ encode_fixed32 I 1) @ op_bytes I bop @ []" and I: "int_enc_ok I" and ok: "op_ok bop"
    using wb by (auto simp: wb_rep_def)
  have "entry_ok ?e" using ok sq by (simp add: entry_ok_def op_ok_def)
  then have "MemTable_add G I DefaultCmp_cmp m sq (e_type ?e) (fst bop) (op_value bop) = Panic"
    using MemTable_add_duplicate [OF m _ e] by simp
  moreover have "WriteBatchIter_next I wb WB_HEADER_SIZE = Ok (Some (bop, WB_HEADER_SIZE + length (op_bytes I bop)))"
    using next_at [OF I ok, of "s @ encode_fixed32 I 1" "[]"] s I by (simp add: WB_HEADER_SIZE_def encode_fixed32_length)
  ultimately show ?thesis
    by (cases bop, simp add: insert_into_memtable_def, subst insert_from.simps) (auto simp: op_value_def split: option.splits)
qed

text \<open>
  C30. A put whose log record cannot be written returns the error and changes nothing that a read can see, but it leaves
  its entry in the memtable under the sequence number that the next write will use: repeating the put of that key, with
  whatever value, panics.\<close>

theorem failed_write_poisons_retry:
  assumes W: "writer_refuses (env_writer E) e"
    and room: "db_room (E\<lparr>env_writer := W0\<rparr>) (entry_cost (length k) (length v) + entry_cost (length k) (length v')) db"
  shows "\<exists>db1. DB_put E k v db = (Err e, db1) \<and> fst (DB_get E k db1) = fst (DB_get E k db) \<and> fst (DB_put E k v' db1) = Panic"
proof -
  let ?I = "env_int E" and ?sq = "db_last_seq db" and ?c = "entry_cost (length k) (length v)"
  obtain es lw where es: "mt_rep ?I (db_mem db) es" "\<forall>e \<in> set es. e_seq e \<le> ?sq" and lw: "db_log db = Some lw" "log_ok lw"
    and r: "env_cmp E = DefaultCmp_cmp" "db_imm db = None" "levels_quiet (env_levels E) (db_levels db)" "env_write_buffer_size E < 2 ^ 63"
      "approx_mem_usage (db_mem db) + (?c + entry_cost (length k) (length v')) \<le> env_write_buffer_size E"
      "unat ?sq + (?c + entry_cost (length k) (length v')) < 2 ^ 56"
    using room by (auto simp: db_room_def)
  have I: "int_enc_ok ?I" using es(1) by (simp add: mt_rep_def)
  have c: "0 < entry_cost (length k) (length v'')" for v'' :: bytes by (simp add: entry_cost_def)
  have "length k + 8 < 2 ^ 64" "length v < 2 ^ 64" "length v' < 2 ^ 64" using r(4,5) by (simp_all add: entry_cost_def)
  then obtain wb wb' where wb: "WriteBatch_put ?I k v WriteBatch_new = Ok wb" "wb_rep ?I wb [(k, Some v)]"
    and wb': "WriteBatch_put ?I k v' WriteBatch_new = Ok wb'" "wb_rep ?I wb' [(k, Some v')]"
    using WriteBatch_put_rep [OF WriteBatch_new_rep [OF I], of k v] WriteBatch_put_rep [OF WriteBatch_new_rep [OF I], of k v']
    by (auto simp: op_ok_def op_value_def)
  have u: "unat (?sq + 1) = unat ?sq + 1" using r(6) by (intro unat_succ) simp
  then have lt: "?sq < ?sq + 1" by (simp add: word_less_nat_alt)
  have ok: "seq_ok (?sq + 1)" "seq_ok ?sq" using u r(6) c [of v] by (simp_all add: seq_ok_def)
  let ?e = "hd (batch_entries (?sq + 1) [(k, Some v)])"
  have "\<forall>e \<in> set es. e_seq e < ?sq + 1" using es(2) lt by (meson order.strict_trans1)
  then obtain m' where m': "insert_into_memtable (env_rng E) ?I DefaultCmp_cmp wb (?sq + 1) (db_mem db) = Ok m'"
    "mt_rep ?I m' (insert_entry ?e es)" "approx_mem_usage m' \<le> approx_mem_usage (db_mem db) + ?c"
    using insert_into_memtable_rep [OF wb(2) es(1), of "?sq + 1" "env_rng E"] u r(6) c [of v] c [of v'] by (auto simp: ops_cost_def op_value_def)
  let ?db = "db\<lparr>db_mem := m'\<rparr>"
  have ne: "batch_bytes ?I (?sq + 1) [(k, Some v)] \<noteq> []" using batch_bytes_length [OF I, of "?sq + 1" "[(k, Some v)]"] by auto
  have "DB_put E k v db = (Err e, ?db)"
    using lw(1) m'(1) r(1,5) c [of v'] wb(1) count_rep [OF wb(2), of "[]"] encode_batch_bytes [OF wb(2)] add_record_refused [OF W lw(2) ne]
    by (simp add: DB_put_def DB_write_def bind_op_def return_op_def make_room_for_write_def insert_batch_def on_log_def Let_def)
  moreover have "fst (DB_get E k ?db) = fst (DB_get E k db)"
    using get_internal_quiet [of E db es ?sq k] get_internal_quiet [of E ?db "insert_entry ?e es" ?sq k] es(1) m'(2) r(1-3) ok(2)
      visible_hidden [of ?sq ?e es k] lt by (simp add: DB_get_def)
  moreover have "insert_into_memtable (env_rng E) ?I DefaultCmp_cmp wb' (?sq + 1) m' = Panic"
    by (rule insert_into_memtable_duplicate [OF wb'(2) m'(2) ok(1), of ?e]) (auto simp: entry_sort_def)
  then have "fst (DB_put E k v' ?db) = Panic"
    using lw(1) m'(3) r(1,5) c [of v'] wb'(1) count_rep [OF wb'(2), of "[]"]
    by (simp add: DB_put_def DB_write_def bind_op_def return_op_def make_room_for_write_def insert_batch_def Let_def)
  ultimately show ?thesis by blast
qed

text \<open>A database that has just been created, and a full disk.\<close>

definition new_memory_db :: "(u32, unit, bytes) db" where
  "new_memory_db = snd (DB_open (memory_env vec_writer) (memory_files (\<lambda>_. None) []) ())"

definition full_disk :: status where
  "full_disk = \<lparr>st_code = IOError, st_err = ''disk full''\<rparr>"

definition full_writer :: "bytes writer" where
  "full_writer = \<lparr>wr_write = (\<lambda>_ w. (Err full_disk, w)), wr_flush = (\<lambda>w. (Ok (), w))\<rparr>"

lemma new_memory_room:
  "db_room (memory_env vec_writer) (ops_cost [([1], Some [2]), ([3], Some [4]), ([1], None)]) new_memory_db"
  "db_contents (memory_env vec_writer) new_memory_db = (\<lambda>_. None)"
proof -
  obtain db where db: "DB_open (memory_env vec_writer) (memory_files (\<lambda>_. None) []) () = (Ok (), db)"
    "db_room (memory_env vec_writer) (ops_cost [([1], Some [2]), ([3], Some [4]), ([1], None)]) db"
    "db_mem db = MemTable_new (env_rng (memory_env vec_writer))"
    using DB_open_new [OF memory_env_ok memory_room(2,1), of "\<lambda>_. None"] by blast
  show "db_room (memory_env vec_writer) (ops_cost [([1], Some [2]), ([3], Some [4]), ([1], None)]) new_memory_db"
    using db by (simp add: new_memory_db_def)
  have "int_enc_ok (env_int (memory_env vec_writer))" using memory_env_ok(1) by (simp add: env_ok_def)
  then show "db_contents (memory_env vec_writer) new_memory_db = (\<lambda>_. None)"
    using db(1,3) MemTable_new_rep [of "env_int (memory_env vec_writer)" "env_rng (memory_env vec_writer)"]
    by (auto simp: new_memory_db_def db_contents_def mt_entries_rep visible_def entry_result_def)
qed

theorem failed_write_poisons_retry_witness:
  "\<exists>db1. DB_put (memory_env full_writer) [1] [2] new_memory_db = (Err full_disk, db1) \<and>
    fst (DB_put (memory_env full_writer) [1] [2] db1) = Panic"
proof -
  have e: "(memory_env full_writer)\<lparr>env_writer := vec_writer\<rparr> = memory_env vec_writer" by (simp add: memory_env_def)
  have "writer_refuses (env_writer (memory_env full_writer)) full_disk"
    by (simp add: writer_refuses_def memory_env_def full_writer_def)
  moreover have "db_room ((memory_env full_writer)\<lparr>env_writer := vec_writer\<rparr>)
      (entry_cost (length [1 :: byte]) (length [2 :: byte]) + entry_cost (length [1 :: byte]) (length [2 :: byte])) new_memory_db"
    unfolding e by (rule db_room_mono [of _ "entry_cost 1 0"]) (use new_memory_room(1) in \<open>simp add: ops_cost_def op_value_def add.commute add.left_commute\<close>)
  ultimately show ?thesis using failed_write_poisons_retry [of "memory_env full_writer" full_disk vec_writer "[1]" "[2]" "[2]" new_memory_db]
    by blast
qed

section \<open>Snapshots\<close>








end
