(* ===== verification/Ldb_Block.thy ===== *)
theory Ldb_Block
  imports Ldb_Keys Ldb_Instances
begin

text \<open>
  Blocks of a table file: the builder, \<^verbatim>\<open>block_builder.rs\<close>, and the block with its
  iterator, \<^verbatim>\<open>block.rs\<close>. A block is a sequence of entries, each with the part of its
  key that differs from the key before it, then the offsets of the entries that
  hold their whole key (the restart points), then the number of these.

  The iterator keeps the offsets it has in the source. Its loops over entries are
  partial functions, because a malformed block could keep them from ending.
\<close>

section \<open>The builder\<close>

record block_builder =
  bb_buffer :: bytes
  bb_restarts :: "u32 list"
  bb_last_key :: bytes
  bb_restart_counter :: nat
  bb_counter :: nat

definition BlockBuilder_new :: block_builder where
  "BlockBuilder_new = \<lparr>bb_buffer = [], bb_restarts = [0], bb_last_key = [], bb_restart_counter = 0, bb_counter = 0\<rparr>"

definition size_estimate :: "block_builder \<Rightarrow> nat" where
  "size_estimate b = length (bb_buffer b) + 4 * length (bb_restarts b) + 4"

definition BlockBuilder_reset :: "block_builder \<Rightarrow> block_builder" where
  "BlockBuilder_reset b = \<lparr>bb_buffer = [], bb_restarts = [], bb_last_key = [], bb_restart_counter = 0, bb_counter = 0\<rparr>"

text \<open>The loop over the common bytes of the last key and the new one.\<close>

fun common_prefix :: "bytes \<Rightarrow> bytes \<Rightarrow> nat" where
  "common_prefix (a # as) (b # bs) = (if a = b then Suc (common_prefix as bs) else 0)"
| "common_prefix _ _ = 0"

definition BlockBuilder_add :: "int_enc \<Rightarrow> cmp \<Rightarrow> nat \<Rightarrow> bytes \<Rightarrow> bytes \<Rightarrow> block_builder \<Rightarrow> block_builder ldb" where
  "BlockBuilder_add I cmp interval key val b =
     (if interval < bb_restart_counter b then Panic
      else
        bind_result (if bb_buffer b = [] then Ok Less else cmp (bb_last_key b) key) (\<lambda>c.
        if c \<noteq> Less then Panic
        else
          let restart = \<not> bb_restart_counter b < interval;
              shared = (if restart then 0 else common_prefix (bb_last_key b) key);
              last_key = (if restart then [] else bb_last_key b)
          in Ok \<lparr>bb_buffer = bb_buffer b @ encode_var I shared @ encode_var I (length key - shared) @
                   encode_var I (length val) @ drop shared key @ val,
                 bb_restarts = (if restart then bb_restarts b @ [of_nat (length (bb_buffer b))] else bb_restarts b),
                 bb_last_key = take shared last_key @ drop shared key,
                 bb_restart_counter = (if restart then 0 else bb_restart_counter b) + 1,
                 bb_counter = bb_counter b + 1\<rparr>))"

definition BlockBuilder_finish :: "int_enc \<Rightarrow> block_builder \<Rightarrow> bytes" where
  "BlockBuilder_finish I b =
     bb_buffer b @ concat (map (encode_fixed32 I) (bb_restarts b)) @ encode_fixed32 I (of_nat (length (bb_restarts b)))"

section \<open>Blocks and their iterator\<close>

record block_iter =
  bi_block :: bytes
  bi_restarts_off :: nat
  bi_offset :: nat
  bi_current_entry_offset :: nat
  bi_current_restart_ix :: nat
  bi_key :: bytes
  bi_val_offset :: nat

definition Block_new :: "bytes \<Rightarrow> bytes ldb" where
  "Block_new contents = (if length contents > 4 then Ok contents else Panic)"

text \<open>The number in the last four bytes.\<close>

definition trailing_count :: "int_enc \<Rightarrow> bytes \<Rightarrow> nat ldb" where
  "trailing_count I block =
     (if length block < 4 then Panic
      else bind_result (slice (length block - 4) (length block) block) (\<lambda>bs. Ok (unat (decode_fixed32 I bs))))"

definition Block_iter :: "int_enc \<Rightarrow> bytes \<Rightarrow> block_iter ldb" where
  "Block_iter I block =
     bind_result (trailing_count I block) (\<lambda>restarts.
     if length block < 4 + 4 * restarts then Panic
     else Ok \<lparr>bi_block = block, bi_restarts_off = length block - 4 - 4 * restarts, bi_offset = 0,
              bi_current_entry_offset = 0, bi_current_restart_ix = 0, bi_key = [], bi_val_offset = 0\<rparr>)"

definition number_restarts :: "int_enc \<Rightarrow> block_iter \<Rightarrow> nat ldb" where
  "number_restarts I it = trailing_count I (bi_block it)"

definition get_restart_point :: "int_enc \<Rightarrow> block_iter \<Rightarrow> nat \<Rightarrow> nat ldb" where
  "get_restart_point I it ix =
     (let restart = bi_restarts_off it + 4 * ix in
      bind_result (slice restart (restart + 4) (bi_block it)) (\<lambda>bs. Ok (unat (decode_fixed32 I bs))))"

text \<open>The number at an offset of the block, and its length.\<close>

definition var_at :: "int_enc \<Rightarrow> block_iter \<Rightarrow> nat \<Rightarrow> (nat \<times> nat) ldb" where
  "var_at I it i = bind_result (slice i (length (bi_block it)) (bi_block it)) (\<lambda>bs. Ok (decode_var I bs))"

definition parse_entry_and_advance :: "int_enc \<Rightarrow> block_iter \<Rightarrow> ((nat \<times> nat \<times> nat \<times> nat) \<times> block_iter) ldb" where
  "parse_entry_and_advance I it =
     bind_result (var_at I it (bi_offset it)) (\<lambda>(shared, sharedlen).
     bind_result (var_at I it (bi_offset it + sharedlen)) (\<lambda>(non_shared, non_sharedlen).
     bind_result (var_at I it (bi_offset it + (sharedlen + non_sharedlen))) (\<lambda>(valsize, valsizelen).
     let i = sharedlen + non_sharedlen + valsizelen; val_offset = bi_offset it + i + non_shared in
     Ok ((shared, non_shared, valsize, i), it\<lparr>bi_val_offset := val_offset, bi_offset := val_offset + valsize\<rparr>))))"

definition assemble_key :: "nat \<Rightarrow> nat \<Rightarrow> nat \<Rightarrow> block_iter \<Rightarrow> block_iter ldb" where
  "assemble_key off shared non_shared it =
     bind_result (slice off (off + non_shared) (bi_block it)) (\<lambda>bs.
     Ok (it\<lparr>bi_key := take shared (bi_key it) @ bs\<rparr>))"

definition BlockIter_valid :: "block_iter \<Rightarrow> bool" where
  "BlockIter_valid it \<longleftrightarrow> bi_key it \<noteq> [] \<and> bi_val_offset it > 0 \<and> bi_val_offset it \<le> bi_restarts_off it"

definition seek_to_restart_point :: "int_enc \<Rightarrow> nat \<Rightarrow> block_iter \<Rightarrow> block_iter ldb" where
  "seek_to_restart_point I ix it =
     bind_result (get_restart_point I it ix) (\<lambda>off.
     bind_result (parse_entry_and_advance I (it\<lparr>bi_offset := off, bi_current_entry_offset := off, bi_current_restart_ix := ix\<rparr>))
       (\<lambda>((shared, non_shared, _, head_len), it1).
     if shared \<noteq> 0 then Panic
     else bind_result (assemble_key (off + head_len) shared non_shared it1) (\<lambda>it2.
       if BlockIter_valid it2 then Ok it2 else Panic)))"

definition BlockIter_reset :: "block_iter \<Rightarrow> block_iter" where
  "BlockIter_reset it = it\<lparr>bi_offset := 0, bi_val_offset := 0, bi_current_restart_ix := 0, bi_key := []\<rparr>"

function adjust_restart_ix :: "int_enc \<Rightarrow> block_iter \<Rightarrow> nat \<Rightarrow> nat \<Rightarrow> nat ldb" where
  "adjust_restart_ix I it num ix =
     (if ix + 1 < num
      then bind_result (get_restart_point I it (ix + 1)) (\<lambda>p.
        if p < bi_current_entry_offset it then adjust_restart_ix I it num (ix + 1) else Ok ix)
      else Ok ix)"
  by auto
termination by (relation "measure (\<lambda>(_, _, num, ix). num - ix)") auto

declare adjust_restart_ix.simps [simp del]

definition BlockIter_advance :: "int_enc \<Rightarrow> block_iter \<Rightarrow> (bool \<times> block_iter) ldb" where
  "BlockIter_advance I it =
     (if bi_offset it \<ge> bi_restarts_off it then Ok (False, BlockIter_reset it)
      else
        let it0 = it\<lparr>bi_current_entry_offset := bi_offset it\<rparr>; current_off = bi_current_entry_offset it0 in
        bind_result (parse_entry_and_advance I it0) (\<lambda>((shared, non_shared, _, entry_head_len), it1).
        bind_result (assemble_key (current_off + entry_head_len) shared non_shared it1) (\<lambda>it2.
        bind_result (number_restarts I it2) (\<lambda>num_restarts.
        bind_result (adjust_restart_ix I it2 num_restarts (bi_current_restart_ix it2)) (\<lambda>ix.
        Ok (True, it2\<lparr>bi_current_restart_ix := ix\<rparr>))))))"

definition BlockIter_current :: "block_iter \<Rightarrow> (bytes \<times> bytes) option ldb" where
  "BlockIter_current it =
     (if BlockIter_valid it
      then bind_result (slice (bi_val_offset it) (bi_offset it) (bi_block it)) (\<lambda>v. Ok (Some (bi_key it, v)))
      else Ok None)"

definition BlockIter_next :: "int_enc \<Rightarrow> block_iter \<Rightarrow> ((bytes \<times> bytes) option \<times> block_iter) ldb" where
  "BlockIter_next I it =
     bind_result (BlockIter_advance I it) (\<lambda>(b, it').
     if \<not> b then Ok (None, it') else bind_result (BlockIter_current it') (\<lambda>r. Ok (r, it')))"

text \<open>A loop around a step that may fail.\<close>

definition loop_bind :: "'a ldb \<Rightarrow> ('a \<Rightarrow> 'b ldb option) \<Rightarrow> 'b ldb option" where
  "loop_bind r f = (case r of Ok a \<Rightarrow> f a | Err e \<Rightarrow> Some (Err e) | Panic \<Rightarrow> Some Panic)"

lemma loop_bind_simps [simp]: "loop_bind (Ok a) f = f a" "loop_bind (Err e) f = Some (Err e)" "loop_bind Panic f = Some Panic"
  by (simp_all add: loop_bind_def)

lemma loop_bind_mono [partial_function_mono]:
  assumes "\<And>y. mono_option (\<lambda>f. g f y)"
  shows "mono_option (\<lambda>f. loop_bind r (g f))"
  using assms by (cases r) (simp_all add: loop_bind_def option.const_mono)

partial_function (option) advance_to_end :: "int_enc \<Rightarrow> block_iter \<Rightarrow> block_iter ldb option" where
  "advance_to_end I it =
     (if bi_offset it < bi_restarts_off it
      then loop_bind (BlockIter_advance I it) (\<lambda>(_, it'). advance_to_end I it')
      else Some (Ok it))"

definition seek_to_last :: "int_enc \<Rightarrow> block_iter \<Rightarrow> block_iter ldb option" where
  "seek_to_last I it =
     loop_bind (bind_result (number_restarts I it) (\<lambda>num_restarts.
       if num_restarts > 0 then seek_to_restart_point I (num_restarts - 1) it else Ok (BlockIter_reset it))) (\<lambda>it1.
     case advance_to_end I it1 of
       Some (Ok it2) \<Rightarrow> Some (if BlockIter_valid it2 then Ok it2 else Panic)
     | r \<Rightarrow> r)"

text \<open>The loop of \<^verbatim>\<open>prev\<close> over the restart points; at the first one the position is moved to the end.\<close>

fun restart_before :: "int_enc \<Rightarrow> block_iter \<Rightarrow> nat \<Rightarrow> nat \<Rightarrow> nat ldb" where
  "restart_before I it orig 0 =
     bind_result (get_restart_point I it 0) (\<lambda>p. if p \<ge> orig then number_restarts I it else Ok 0)"
| "restart_before I it orig (Suc ix) =
     bind_result (get_restart_point I it (Suc ix)) (\<lambda>p. if p \<ge> orig then restart_before I it orig ix else Ok (Suc ix))"

partial_function (option) advance_until :: "int_enc \<Rightarrow> nat \<Rightarrow> block_iter \<Rightarrow> (bool \<times> block_iter) ldb option" where
  "advance_until I orig it =
     loop_bind (BlockIter_advance I it) (\<lambda>(b, it').
     if bi_offset it' \<ge> orig then Some (Ok (b, it')) else advance_until I orig it')"

definition BlockIter_prev :: "int_enc \<Rightarrow> block_iter \<Rightarrow> (bool \<times> block_iter) ldb option" where
  "BlockIter_prev I it =
     (let orig_offset = bi_current_entry_offset it in
      if orig_offset = 0 then Some (Ok (False, BlockIter_reset it))
      else loop_bind (bind_result (restart_before I it orig_offset (bi_current_restart_ix it)) (\<lambda>ix.
             bind_result (get_restart_point I it ix) (\<lambda>off. if off < orig_offset then Ok (ix, off) else Panic)))
        (\<lambda>(ix, off). advance_until I orig_offset (it\<lparr>bi_current_restart_ix := ix, bi_offset := off\<rparr>)))"

function restart_search :: "int_enc \<Rightarrow> cmp \<Rightarrow> bytes \<Rightarrow> nat \<Rightarrow> nat \<Rightarrow> block_iter \<Rightarrow> (nat \<times> nat \<times> block_iter) ldb" where
  "restart_search I cmp to left right it =
     (if left < right
      then
        let middle = (left + right + 1) div 2 in
        bind_result (seek_to_restart_point I middle it) (\<lambda>it'.
        bind_result (cmp (bi_key it') to) (\<lambda>c.
        if c = Less then restart_search I cmp to middle right it' else restart_search I cmp to left (middle - 1) it'))
      else Ok (left, right, it))"
  by auto
termination by (relation "measure (\<lambda>(_, _, _, left, right, _). right - left)") auto

declare restart_search.simps [simp del]

partial_function (option) linear_search :: "int_enc \<Rightarrow> cmp \<Rightarrow> bytes \<Rightarrow> block_iter \<Rightarrow> block_iter ldb option" where
  "linear_search I cmp to it =
     loop_bind (BlockIter_next I it) (\<lambda>(r, it').
     case r of
       None \<Rightarrow> Some (Ok it')
     | Some (k, _) \<Rightarrow> loop_bind (cmp k to) (\<lambda>c. if c = Less then linear_search I cmp to it' else Some (Ok it')))"

definition BlockIter_seek :: "int_enc \<Rightarrow> cmp \<Rightarrow> bytes \<Rightarrow> block_iter \<Rightarrow> block_iter ldb option" where
  "BlockIter_seek I cmp to it =
     loop_bind (bind_result (number_restarts I (BlockIter_reset it)) (\<lambda>n.
       bind_result (restart_search I cmp to 0 (if n = 0 then 0 else n - 1) (BlockIter_reset it)) (\<lambda>(left, right, it1).
       if left \<noteq> right then Panic
       else bind_result (get_restart_point I it1 left) (\<lambda>off.
         Ok (it1\<lparr>bi_current_restart_ix := left, bi_offset := off\<rparr>)))))
     (linear_search I cmp to)"

section \<open>What a built block looks like\<close>

text \<open>
  The entries \<open>es\<close> at restart interval \<open>r\<close>. Entry \<open>i\<close> shares nothing with the entry
  before it when \<open>i\<close> is a multiple of \<open>r\<close>.
\<close>

type_synonym entries = "(bytes \<times> bytes) list"

definition shared_at :: "nat \<Rightarrow> entries \<Rightarrow> nat \<Rightarrow> nat" where
  "shared_at r es i = (if i mod r = 0 then 0 else common_prefix (fst (es ! (i - 1))) (fst (es ! i)))"

definition entry_head :: "int_enc \<Rightarrow> nat \<Rightarrow> entries \<Rightarrow> nat \<Rightarrow> bytes" where
  "entry_head I r es i =
     encode_var I (shared_at r es i) @ encode_var I (length (fst (es ! i)) - shared_at r es i) @
     encode_var I (length (snd (es ! i)))"

definition entry_bytes :: "int_enc \<Rightarrow> nat \<Rightarrow> entries \<Rightarrow> nat \<Rightarrow> bytes" where
  "entry_bytes I r es i = entry_head I r es i @ drop (shared_at r es i) (fst (es ! i)) @ snd (es ! i)"

definition first_entries :: "int_enc \<Rightarrow> nat \<Rightarrow> entries \<Rightarrow> nat \<Rightarrow> bytes" where
  "first_entries I r es i = concat (map (entry_bytes I r es) [0..<i])"

abbreviation entry_off :: "int_enc \<Rightarrow> nat \<Rightarrow> entries \<Rightarrow> nat \<Rightarrow> nat" where
  "entry_off I r es i \<equiv> length (first_entries I r es i)"

definition restarts_for :: "nat \<Rightarrow> nat \<Rightarrow> nat" where
  "restarts_for r n = (if n = 0 then 1 else (n - 1) div r + 1)"

definition restart_bytes :: "int_enc \<Rightarrow> nat \<Rightarrow> entries \<Rightarrow> nat \<Rightarrow> bytes" where
  "restart_bytes I r es j = encode_fixed32 I (of_nat (entry_off I r es (j * r)))"

definition block_bytes :: "int_enc \<Rightarrow> nat \<Rightarrow> entries \<Rightarrow> bytes" where
  "block_bytes I r es =
     first_entries I r es (length es) @ concat (map (restart_bytes I r es) [0..<restarts_for r (length es)]) @
     encode_fixed32 I (of_nat (restarts_for r (length es)))"

lemma common_prefix_le: "common_prefix a b \<le> length a" "common_prefix a b \<le> length b"
  by (induction a b rule: common_prefix.induct) auto

lemma common_prefix_key: "take (common_prefix a b) a @ drop (common_prefix a b) b = b"
  by (induction a b rule: common_prefix.induct) auto

lemma shared_at_le: "shared_at r es i \<le> length (fst (es ! i))"
  by (simp add: shared_at_def common_prefix_le)

lemma first_entries_0 [simp]: "first_entries I r es 0 = []"
  by (simp add: first_entries_def)

lemma first_entries_Suc: "first_entries I r es (Suc i) = first_entries I r es i @ entry_bytes I r es i"
  by (simp add: first_entries_def)

lemma encode_var_nonempty: "int_enc_ok I \<Longrightarrow> 0 < length (encode_var I n)"
  unfolding int_enc_ok_def by blast

lemma entry_off_mono: "int_enc_ok I \<Longrightarrow> strict_mono (entry_off I r es)"
  using encode_var_nonempty [of I]
  by (simp add: strict_mono_Suc_iff first_entries_Suc entry_bytes_def entry_head_def)

lemma entry_off_less [simp]: "int_enc_ok I \<Longrightarrow> entry_off I r es i < entry_off I r es j \<longleftrightarrow> i < j"
  by (rule strict_mono_less [OF entry_off_mono])

lemma entry_off_le [simp]: "int_enc_ok I \<Longrightarrow> entry_off I r es i \<le> entry_off I r es j \<longleftrightarrow> i \<le> j"
  by (rule strict_mono_less_eq [OF entry_off_mono])

lemma entry_off_ge: "int_enc_ok I \<Longrightarrow> i \<le> entry_off I r es i"
  by (rule strict_mono_imp_increasing [OF entry_off_mono])

lemma first_entries_nonempty: "int_enc_ok I \<Longrightarrow> 0 < i \<Longrightarrow> first_entries I r es i \<noteq> []"
  using entry_off_ge [of I i r es] by auto

lemma first_entries_split:
  assumes "i < n"
  shows "\<exists>rest. first_entries I r es n = first_entries I r es i @ entry_bytes I r es i @ rest"
proof -
  have "[0..<n] = [0..<i] @ i # [Suc i..<n]" using assms
    by (metis less_imp_le_nat upt_add_eq_append le_add_diff_inverse upt_conv_Cons zero_le)
  then show ?thesis by (simp add: first_entries_def)
qed

lemma restarts_for_pos [simp]: "0 < restarts_for r n"
  by (simp add: restarts_for_def)

lemma restart_in_range:
  assumes "j < restarts_for r n" "0 < n"
  shows "j * r < n"
proof -
  have "j \<le> (n - 1) div r" using assms by (simp add: restarts_for_def)
  then have "j * r \<le> n - 1" by (metis div_times_less_eq_dividend le_trans mult_le_mono1)
  with assms(2) show ?thesis by simp
qed

subsection \<open>The builder builds it\<close>

fun add_all :: "int_enc \<Rightarrow> cmp \<Rightarrow> nat \<Rightarrow> entries \<Rightarrow> block_builder \<Rightarrow> block_builder ldb" where
  "add_all I cmp interval [] b = Ok b"
| "add_all I cmp interval ((k, v) # es) b =
     bind_result (BlockBuilder_add I cmp interval k v b) (add_all I cmp interval es)"

definition built :: "int_enc \<Rightarrow> nat \<Rightarrow> entries \<Rightarrow> nat \<Rightarrow> block_builder" where
  "built I r es i =
     \<lparr>bb_buffer = first_entries I r es i,
      bb_restarts = map (\<lambda>j. of_nat (entry_off I r es (j * r))) [0..<restarts_for r i],
      bb_last_key = (if i = 0 then [] else fst (es ! (i - 1))),
      bb_restart_counter = (if i = 0 then 0 else (i - 1) mod r + 1),
      bb_counter = i\<rparr>"

lemma built_0: "built I r es 0 = BlockBuilder_new"
  by (simp add: built_def BlockBuilder_new_def restarts_for_def)

lemma built_add:
  assumes "0 < r" "i < length es" and order: "0 < i \<Longrightarrow> cmp (fst (es ! (i - 1))) (fst (es ! i)) = Ok Less"
    and "int_enc_ok I"
  shows "BlockBuilder_add I cmp r (fst (es ! i)) (snd (es ! i)) (built I r es i) = Ok (built I r es (Suc i))"
proof (cases i)
  case 0
  with assms(1) show ?thesis
    by (simp add: BlockBuilder_add_def built_def restarts_for_def first_entries_Suc entry_bytes_def entry_head_def
        shared_at_def)
next
  case (Suc m)
  have ne: "first_entries I r es i \<noteq> []" using first_entries_nonempty [OF assms(4)] Suc by simp
  show ?thesis
  proof (cases "Suc (m mod r) = r")
    case True
    then have "Suc m mod r = 0" "Suc m div r = Suc (m div r)" by (simp_all add: mod_Suc div_Suc)
    moreover from this have "Suc (m div r) * r = Suc m" by (metis div_mult_mod_eq add.right_neutral)
    ultimately show ?thesis using True order ne Suc
      by (simp add: BlockBuilder_add_def built_def restarts_for_def first_entries_Suc [of I r es "Suc m"]
          entry_bytes_def entry_head_def shared_at_def Let_def)
  next
    case False
    then have "m mod r < r - 1" using mod_less_divisor [OF assms(1), of m] by linarith
    with False have "Suc m mod r = Suc (m mod r)" "Suc m div r = m div r" "Suc (m mod r) < r"
      by (simp_all add: mod_Suc div_Suc)
    then show ?thesis using order ne Suc common_prefix_key [of "fst (es ! m)" "fst (es ! Suc m)"]
      by (simp add: BlockBuilder_add_def built_def restarts_for_def first_entries_Suc [of I r es "Suc m"]
          entry_bytes_def entry_head_def shared_at_def Let_def)
  qed
qed

definition entries_ascend :: "cmp \<Rightarrow> entries \<Rightarrow> bool" where
  "entries_ascend cmp es \<longleftrightarrow> (\<forall>i. Suc i < length es \<longrightarrow> cmp (fst (es ! i)) (fst (es ! Suc i)) = Ok Less)"

lemma add_all_built:
  assumes "0 < r" "int_enc_ok I" "entries_ascend cmp es"
  shows "i \<le> length es \<Longrightarrow> add_all I cmp r (drop i es) (built I r es i) = Ok (built I r es (length es))"
proof (induction "length es - i" arbitrary: i)
  case (Suc d)
  then have i: "i < length es" by simp
  have "0 < i \<Longrightarrow> cmp (fst (es ! (i - 1))) (fst (es ! i)) = Ok Less"
    using assms(3) i unfolding entries_ascend_def by (metis Suc_diff_1)
  then have "BlockBuilder_add I cmp r (fst (es ! i)) (snd (es ! i)) (built I r es i) = Ok (built I r es (Suc i))"
    using built_add assms(1,2) i by blast
  with Suc show ?case by (cases "es ! i") (simp flip: Cons_nth_drop_Suc [OF i])
qed simp

lemma finish_built: "BlockBuilder_finish I (built I r es (length es)) = block_bytes I r es"
  by (simp add: BlockBuilder_finish_def built_def block_bytes_def restart_bytes_def [abs_def] comp_def)

lemma build_block:
  assumes "0 < r" "int_enc_ok I" "entries_ascend cmp es"
  shows "map_ok (BlockBuilder_finish I) (add_all I cmp r es BlockBuilder_new) = Ok (block_bytes I r es)"
  using add_all_built [OF assms, of 0] by (simp add: built_0 finish_built)

subsection \<open>Reading an entry\<close>

text \<open>
  What the iterator relies on: keys are not empty, and the offsets fit in the
  numbers that the block stores.
\<close>

definition block_fits :: "int_enc \<Rightarrow> nat \<Rightarrow> entries \<Rightarrow> bool" where
  "block_fits I r es \<longleftrightarrow>
     int_enc_ok I \<and> 0 < r \<and> es \<noteq> [] \<and> (\<forall>(k, _) \<in> set es. k \<noteq> []) \<and> entry_off I r es (length es) < 2 ^ 32"

lemma block_fitsD:
  assumes "block_fits I r es"
  shows "int_enc_ok I" "0 < r" "0 < length es" "i < length es \<Longrightarrow> fst (es ! i) \<noteq> []"
    "entry_off I r es (length es) < 2 ^ 32"
  using assms nth_mem [of i es] unfolding block_fits_def by (auto simp del: nth_mem)

definition iter_base :: "int_enc \<Rightarrow> nat \<Rightarrow> entries \<Rightarrow> block_iter \<Rightarrow> bool" where
  "iter_base I r es it \<longleftrightarrow>
     bi_block it = block_bytes I r es \<and> bi_restarts_off it = entry_off I r es (length es) \<and>
     bi_current_restart_ix it < restarts_for r (length es)"

lemma restarts_for_fits:
  assumes "block_fits I r es"
  shows "restarts_for r (length es) < 2 ^ 32"
proof -
  note f = block_fitsD [OF assms]
  have "restarts_for r (length es) \<le> length es"
    using f(3) div_le_dividend [of "length es - 1" r] by (cases "length es") (simp_all add: restarts_for_def)
  also have "\<dots> \<le> entry_off I r es (length es)" by (rule entry_off_ge [OF f(1)])
  finally show ?thesis using f(5) by simp
qed

lemma trailing_count_block:
  assumes "block_fits I r es"
  shows "trailing_count I (block_bytes I r es) = Ok (restarts_for r (length es))"
  using restarts_for_fits [OF assms] block_fitsD(1) [OF assms]
  by (simp add: trailing_count_def block_bytes_def slice_def int_enc_simps unat_of_nat)

lemma number_restarts_block:
  "block_fits I r es \<Longrightarrow> iter_base I r es it \<Longrightarrow> number_restarts I it = Ok (restarts_for r (length es))"
  by (simp add: number_restarts_def iter_base_def trailing_count_block)

lemma length_restarts: "int_enc_ok I \<Longrightarrow> length (concat (map (restart_bytes I r es) js)) = 4 * length js"
  by (induction js) (simp_all add: restart_bytes_def int_enc_simps)

lemma restart_point:
  assumes fits: "block_fits I r es" and base: "iter_base I r es it" and j: "j < restarts_for r (length es)"
  shows "get_restart_point I it j = Ok (entry_off I r es (j * r))"
proof -
  note f = block_fitsD [OF fits]
  have "[0..<restarts_for r (length es)] = [0..<j] @ j # [Suc j..<restarts_for r (length es)]"
    using j by (metis less_imp_le_nat upt_add_eq_append le_add_diff_inverse upt_conv_Cons zero_le)
  then obtain rest where rest: "block_bytes I r es =
      (first_entries I r es (length es) @ concat (map (restart_bytes I r es) [0..<j])) @ restart_bytes I r es j @ rest"
    by (simp add: block_bytes_def)
  have "j * r < length es" using restart_in_range [OF j f(3)] .
  then have "entry_off I r es (j * r) < entry_off I r es (length es)" using f(1) by simp
  with f(5) have "entry_off I r es (j * r) < 2 ^ 32" by (rule less_trans [rotated])
  moreover have "slice (bi_restarts_off it + 4 * j) (bi_restarts_off it + 4 * j + 4) (bi_block it) =
      Ok (restart_bytes I r es j)"
    using base f(1) unfolding iter_base_def rest
    by (elim conjE, simp only:) (rule slice_mid; simp add: length_restarts restart_bytes_def int_enc_simps)
  ultimately show ?thesis using f(1)
    by (simp add: get_restart_point_def restart_bytes_def int_enc_simps unat_of_nat)
qed

lemma block_split:
  assumes "i < length es"
  obtains rest where "block_bytes I r es = first_entries I r es i @ encode_var I (shared_at r es i) @
    encode_var I (length (fst (es ! i)) - shared_at r es i) @ encode_var I (length (snd (es ! i))) @
    drop (shared_at r es i) (fst (es ! i)) @ snd (es ! i) @ rest"
proof -
  obtain x where "first_entries I r es (length es) = first_entries I r es i @ entry_bytes I r es i @ x"
    using first_entries_split [OF assms] by blast
  then show thesis using that by (simp add: block_bytes_def entry_bytes_def entry_head_def)
qed

definition value_off :: "int_enc \<Rightarrow> nat \<Rightarrow> entries \<Rightarrow> nat \<Rightarrow> nat" where
  "value_off I r es i = entry_off I r es i + length (entry_head I r es i) + (length (fst (es ! i)) - shared_at r es i)"

lemma entry_off_Suc: "entry_off I r es (Suc i) = value_off I r es i + length (snd (es ! i))"
  by (simp add: value_off_def first_entries_Suc entry_bytes_def)

lemma parse_entry:
  assumes "int_enc_ok I" "bi_block it = block_bytes I r es" "bi_offset it = entry_off I r es i" "i < length es"
  shows "parse_entry_and_advance I it =
    Ok ((shared_at r es i, length (fst (es ! i)) - shared_at r es i, length (snd (es ! i)), length (entry_head I r es i)),
      it\<lparr>bi_val_offset := value_off I r es i, bi_offset := entry_off I r es (Suc i)\<rparr>)"
proof -
  obtain rest where "block_bytes I r es = first_entries I r es i @ encode_var I (shared_at r es i) @
    encode_var I (length (fst (es ! i)) - shared_at r es i) @ encode_var I (length (snd (es ! i))) @
    drop (shared_at r es i) (fst (es ! i)) @ snd (es ! i) @ rest" using block_split [OF assms(4)] by blast
  then show ?thesis using assms
    by (simp add: parse_entry_and_advance_def var_at_def slice_def decode_encode_var entry_off_Suc value_off_def
        entry_head_def add.assoc)
qed

lemma assemble_entry:
  assumes "bi_block it = block_bytes I r es" "i < length es"
    and key: "i mod r = 0 \<or> bi_key it = fst (es ! (i - 1))"
  shows "assemble_key (entry_off I r es i + length (entry_head I r es i)) (shared_at r es i)
      (length (fst (es ! i)) - shared_at r es i) it = Ok (it\<lparr>bi_key := fst (es ! i)\<rparr>)"
proof -
  obtain rest where "block_bytes I r es = first_entries I r es i @ encode_var I (shared_at r es i) @
    encode_var I (length (fst (es ! i)) - shared_at r es i) @ encode_var I (length (snd (es ! i))) @
    drop (shared_at r es i) (fst (es ! i)) @ snd (es ! i) @ rest" using block_split [OF assms(2)] by blast
  then have "slice (entry_off I r es i + length (entry_head I r es i))
      (entry_off I r es i + length (entry_head I r es i) + (length (fst (es ! i)) - shared_at r es i)) (bi_block it) =
    Ok (drop (shared_at r es i) (fst (es ! i)))"
    using assms(1) by (simp add: slice_def entry_head_def)
  moreover have "take (shared_at r es i) (bi_key it) @ drop (shared_at r es i) (fst (es ! i)) = fst (es ! i)"
    using key by (auto simp: shared_at_def common_prefix_key)
  ultimately show ?thesis by (simp add: assemble_key_def)
qed

subsection \<open>Positions\<close>

text \<open>
  The iterator is about to read entry \<open>i\<close>, is at entry \<open>i\<close>, or is at no entry and
  remembers the offset of entry \<open>m\<close>.
\<close>

definition iter_ready :: "int_enc \<Rightarrow> nat \<Rightarrow> entries \<Rightarrow> nat \<Rightarrow> block_iter \<Rightarrow> bool" where
  "iter_ready I r es i it \<longleftrightarrow>
     iter_base I r es it \<and> bi_offset it = entry_off I r es i \<and> (i mod r = 0 \<or> bi_key it = fst (es ! (i - 1)))"

definition iter_at :: "int_enc \<Rightarrow> nat \<Rightarrow> entries \<Rightarrow> nat \<Rightarrow> block_iter \<Rightarrow> bool" where
  "iter_at I r es i it \<longleftrightarrow>
     iter_base I r es it \<and> i < length es \<and> bi_offset it = entry_off I r es (Suc i) \<and>
     bi_current_entry_offset it = entry_off I r es i \<and> bi_key it = fst (es ! i) \<and> bi_val_offset it = value_off I r es i"

definition iter_idle :: "int_enc \<Rightarrow> nat \<Rightarrow> entries \<Rightarrow> nat \<Rightarrow> block_iter \<Rightarrow> bool" where
  "iter_idle I r es m it \<longleftrightarrow>
     iter_base I r es it \<and> m < length es \<and> bi_offset it = 0 \<and> bi_current_entry_offset it = entry_off I r es m \<and>
     bi_key it = [] \<and> bi_val_offset it = 0"

lemma iter_at_ready: "iter_at I r es i it \<Longrightarrow> iter_ready I r es (Suc i) it"
  by (simp add: iter_at_def iter_ready_def)

lemma iter_idle_ready: "iter_idle I r es m it \<Longrightarrow> iter_ready I r es 0 it"
  by (simp add: iter_idle_def iter_ready_def)

lemma reset_idle:
  "iter_base I r es it \<Longrightarrow> m < length es \<Longrightarrow> bi_current_entry_offset it = entry_off I r es m \<Longrightarrow>
    iter_idle I r es m (BlockIter_reset it)"
  by (simp add: iter_idle_def iter_base_def BlockIter_reset_def)

lemma iter_at_valid:
  assumes fits: "block_fits I r es" and at: "iter_at I r es i it"
  shows "BlockIter_valid it" "BlockIter_current it = Ok (Some (es ! i))"
proof -
  note f = block_fitsD [OF fits]
  have i: "i < length es" "iter_base I r es it" using at by (simp_all add: iter_at_def)
  have pos: "0 < value_off I r es i" using encode_var_nonempty [OF f(1)] by (simp add: value_off_def entry_head_def)
  have "entry_off I r es (Suc i) \<le> entry_off I r es (length es)" using f(1) i by simp
  then have "value_off I r es i \<le> entry_off I r es (length es)" unfolding entry_off_Suc by simp
  with at i f(4) [OF i(1)] pos show v: "BlockIter_valid it"
    by (simp add: iter_at_def iter_base_def BlockIter_valid_def)
  obtain rest where "block_bytes I r es = first_entries I r es i @ encode_var I (shared_at r es i) @
    encode_var I (length (fst (es ! i)) - shared_at r es i) @ encode_var I (length (snd (es ! i))) @
    drop (shared_at r es i) (fst (es ! i)) @ snd (es ! i) @ rest" using block_split [OF i(1)] by blast
  with at i have "slice (bi_val_offset it) (bi_offset it) (bi_block it) = Ok (snd (es ! i))"
    by (simp add: iter_at_def iter_base_def slice_def entry_off_Suc value_off_def entry_head_def)
  with v at show "BlockIter_current it = Ok (Some (es ! i))" by (simp add: BlockIter_current_def iter_at_def)
qed

lemma iter_idle_invalid: "iter_idle I r es m it \<Longrightarrow> BlockIter_current it = Ok None"
  by (simp add: iter_idle_def BlockIter_current_def BlockIter_valid_def)

subsection \<open>The operations of the iterator\<close>

lemma adjust_restart_in_range:
  assumes fits: "block_fits I r es" and base: "iter_base I r es it"
  shows "ix < restarts_for r (length es) \<Longrightarrow>
    \<exists>ix'. adjust_restart_ix I it (restarts_for r (length es)) ix = Ok ix' \<and> ix' < restarts_for r (length es)"
proof (induction "restarts_for r (length es) - ix" arbitrary: ix rule: less_induct)
  case less
  show ?case
  proof (cases "ix + 1 < restarts_for r (length es)")
    case True
    note p = restart_point [OF fits base True]
    have "restarts_for r (length es) - (ix + 1) < restarts_for r (length es) - ix" using True by simp
    from less.hyps [OF this True] less.prems show ?thesis
      by (subst adjust_restart_ix.simps) (auto simp: p simp del: One_nat_def Suc_eq_plus1 add_Suc_right)
  next
    case False
    with less.prems show ?thesis by (subst adjust_restart_ix.simps) simp
  qed
qed

lemma advance_entry:
  assumes fits: "block_fits I r es" and ready: "iter_ready I r es i it" and i: "i < length es"
  shows "\<exists>it'. BlockIter_advance I it = Ok (True, it') \<and> iter_at I r es i it'"
proof -
  note f = block_fitsD [OF fits]
  let ?it0 = "it\<lparr>bi_current_entry_offset := bi_offset it\<rparr>"
  let ?it1 = "?it0\<lparr>bi_val_offset := value_off I r es i, bi_offset := entry_off I r es (Suc i)\<rparr>"
  let ?it2 = "?it1\<lparr>bi_key := fst (es ! i)\<rparr>"
  have off: "bi_offset it = entry_off I r es i" "iter_base I r es it" using ready by (simp_all add: iter_ready_def)
  have base2: "iter_base I r es ?it2" using off by (simp add: iter_base_def)
  have blk: "bi_block ?it0 = block_bytes I r es" "bi_block ?it1 = block_bytes I r es"
    using off by (simp_all add: iter_base_def)
  have p: "parse_entry_and_advance I ?it0 =
    Ok ((shared_at r es i, length (fst (es ! i)) - shared_at r es i, length (snd (es ! i)), length (entry_head I r es i)), ?it1)"
    using f(1) blk(1) _ i by (rule parse_entry) (simp add: off)
  have a: "assemble_key (entry_off I r es i + length (entry_head I r es i)) (shared_at r es i)
      (length (fst (es ! i)) - shared_at r es i) ?it1 = Ok ?it2"
    using blk(2) i by (rule assemble_entry) (use ready in \<open>simp add: iter_ready_def\<close>)
  have "bi_current_restart_ix ?it2 < restarts_for r (length es)" using base2 by (simp only: iter_base_def)
  then obtain ix where ix: "adjust_restart_ix I ?it2 (restarts_for r (length es)) (bi_current_restart_ix ?it2) = Ok ix"
      "ix < restarts_for r (length es)"
    using adjust_restart_in_range [OF fits base2] by blast
  have "bi_offset it < bi_restarts_off it" using off f(1) i by (simp add: iter_base_def)
  then have "BlockIter_advance I it = Ok (True, ?it2\<lparr>bi_current_restart_ix := ix\<rparr>)"
    using p a ix(1) number_restarts_block [OF fits base2] off(1) unfolding BlockIter_advance_def Let_def
    by simp
  moreover have "iter_at I r es i (?it2\<lparr>bi_current_restart_ix := ix\<rparr>)"
    using off ix(2) i by (simp add: iter_at_def iter_base_def)
  ultimately show ?thesis by blast
qed

lemma advance_end:
  assumes "iter_ready I r es (length es) it" "m < length es" "bi_current_entry_offset it = entry_off I r es m"
  shows "\<exists>it'. BlockIter_advance I it = Ok (False, it') \<and> iter_idle I r es m it'"
  using assms reset_idle [of I r es it m] by (auto simp: BlockIter_advance_def iter_ready_def iter_base_def)

lemma seek_restart:
  assumes fits: "block_fits I r es" and base: "iter_base I r es it" and j: "j < restarts_for r (length es)"
  shows "\<exists>it'. seek_to_restart_point I j it = Ok it' \<and> iter_at I r es (j * r) it'"
proof -
  note f = block_fitsD [OF fits]
  have i: "j * r < length es" using restart_in_range [OF j f(3)] .
  define it0 where "it0 = it\<lparr>bi_offset := entry_off I r es (j * r), bi_current_entry_offset := entry_off I r es (j * r),
    bi_current_restart_ix := j\<rparr>"
  define it1 where "it1 = it0\<lparr>bi_val_offset := value_off I r es (j * r), bi_offset := entry_off I r es (Suc (j * r))\<rparr>"
  have blk: "bi_block it0 = block_bytes I r es" "bi_block it1 = block_bytes I r es"
    using base by (simp_all add: iter_base_def it0_def it1_def)
  have p: "parse_entry_and_advance I it0 = Ok ((shared_at r es (j * r), length (fst (es ! (j * r))) - shared_at r es (j * r),
      length (snd (es ! (j * r))), length (entry_head I r es (j * r))), it1)"
    unfolding it1_def using f(1) blk(1) _ i by (rule parse_entry) (simp add: it0_def)
  have a: "assemble_key (entry_off I r es (j * r) + length (entry_head I r es (j * r))) (shared_at r es (j * r))
      (length (fst (es ! (j * r))) - shared_at r es (j * r)) it1 = Ok (it1\<lparr>bi_key := fst (es ! (j * r))\<rparr>)"
    using blk(2) i by (rule assemble_entry) simp
  have at: "iter_at I r es (j * r) (it1\<lparr>bi_key := fst (es ! (j * r))\<rparr>)"
    using base i j by (simp add: iter_at_def iter_base_def it1_def it0_def)
  have "shared_at r es (j * r) = 0" by (simp add: shared_at_def)
  then have "seek_to_restart_point I j it = Ok (it1\<lparr>bi_key := fst (es ! (j * r))\<rparr>)"
    using restart_point [OF fits base j] p a iter_at_valid(1) [OF fits at]
    by (simp add: seek_to_restart_point_def flip: it0_def)
  with at show ?thesis by blast
qed

lemma advance_to_end_last:
  assumes fits: "block_fits I r es"
  shows "iter_at I r es i it \<Longrightarrow> \<exists>it'. advance_to_end I it = Some (Ok it') \<and> iter_at I r es (length es - 1) it'"
proof (induction "length es - i" arbitrary: i it rule: less_induct)
  case less
  note f = block_fitsD [OF fits]
  have at: "i < length es" "bi_offset it = entry_off I r es (Suc i)" "bi_restarts_off it = entry_off I r es (length es)"
    using less.prems by (simp_all add: iter_at_def iter_base_def)
  show ?case
  proof (cases "Suc i < length es")
    case True
    obtain it' where it': "BlockIter_advance I it = Ok (True, it')" "iter_at I r es (Suc i) it'"
      using advance_entry [OF fits iter_at_ready [OF less.prems] True] by blast
    have "length es - Suc i < length es - i" using True by simp
    from less.hyps [OF this it'(2)] it'(1) True at f(1) show ?thesis by (subst advance_to_end.simps) simp
  next
    case False
    with at have "Suc i = length es" by simp
    then have "i = length es - 1" by simp
    with less.prems \<open>Suc i = length es\<close> at show ?thesis by (subst advance_to_end.simps) simp
  qed
qed

lemma seek_to_last_entry:
  assumes fits: "block_fits I r es" and base: "iter_base I r es it"
  shows "\<exists>it'. seek_to_last I it = Some (Ok it') \<and> iter_at I r es (length es - 1) it'"
proof -
  have "restarts_for r (length es) - 1 < restarts_for r (length es)" by simp
  from seek_restart [OF fits base this] obtain it1 where it1: "seek_to_restart_point I (restarts_for r (length es) - 1) it = Ok it1"
    "iter_at I r es ((restarts_for r (length es) - 1) * r) it1" by blast
  from advance_to_end_last [OF fits it1(2)] obtain it2 where it2: "advance_to_end I it1 = Some (Ok it2)"
    "iter_at I r es (length es - 1) it2" by blast
  with it1(1) iter_at_valid(1) [OF fits it2(2)] show ?thesis
    by (simp add: seek_to_last_def number_restarts_block [OF fits base])
qed

lemma restart_before_in_range:
  assumes fits: "block_fits I r es" and base: "iter_base I r es it" and m: "0 < m"
  shows "ix < restarts_for r (length es) \<Longrightarrow>
    \<exists>j. restart_before I it (entry_off I r es m) ix = Ok j \<and> j < restarts_for r (length es) \<and> j * r < m"
proof (induction ix)
  case 0
  with restart_point [OF fits base 0] m first_entries_nonempty [OF block_fitsD(1) [OF fits] m, of r es] show ?case by simp
next
  case (Suc ix)
  with restart_point [OF fits base Suc.prems] block_fitsD(1) [OF fits] show ?case
    by (auto simp del: mult_Suc)
qed

lemma advance_until_entry:
  assumes fits: "block_fits I r es" and m: "m < length es"
  shows "iter_ready I r es i it \<Longrightarrow> i < m \<Longrightarrow>
    \<exists>it'. advance_until I (entry_off I r es m) it = Some (Ok (True, it')) \<and> iter_at I r es (m - 1) it'"
proof (induction "m - i" arbitrary: i it rule: less_induct)
  case less
  then have "i < length es" using m by simp
  from advance_entry [OF fits less.prems(1) this] obtain it' where
    it': "BlockIter_advance I it = Ok (True, it')" "iter_at I r es i it'" by blast
  then have off: "bi_offset it' = entry_off I r es (Suc i)" by (simp add: iter_at_def)
  show ?case
  proof (cases "Suc i < m")
    case True
    then have "m - Suc i < m - i" by simp
    from less.hyps [OF this iter_at_ready [OF it'(2)] True] it'(1) True off block_fitsD(1) [OF fits] show ?thesis
      by (subst advance_until.simps) simp
  next
    case False
    with less.prems have "m = Suc i" by simp
    with it' off show ?thesis by (subst advance_until.simps) simp
  qed
qed

lemma prev_entry:
  assumes fits: "block_fits I r es" and base: "iter_base I r es it"
    and m: "m < length es" "bi_current_entry_offset it = entry_off I r es m"
  shows "m = 0 \<Longrightarrow> \<exists>it'. BlockIter_prev I it = Some (Ok (False, it')) \<and> iter_idle I r es 0 it'"
    and "0 < m \<Longrightarrow> \<exists>it'. BlockIter_prev I it = Some (Ok (True, it')) \<and> iter_at I r es (m - 1) it'"
proof -
  assume "m = 0"
  with reset_idle [OF base m] m show "\<exists>it'. BlockIter_prev I it = Some (Ok (False, it')) \<and> iter_idle I r es 0 it'"
    by (simp add: BlockIter_prev_def)
next
  assume pos: "0 < m"
  have "bi_current_restart_ix it < restarts_for r (length es)" using base by (simp add: iter_base_def)
  from restart_before_in_range [OF fits base pos this] obtain j where
    j: "restart_before I it (entry_off I r es m) (bi_current_restart_ix it) = Ok j"
      "j < restarts_for r (length es)" "j * r < m" by blast
  let ?it = "it\<lparr>bi_current_restart_ix := j, bi_offset := entry_off I r es (j * r)\<rparr>"
  have "iter_ready I r es (j * r) ?it" using base j(2) by (simp add: iter_ready_def iter_base_def)
  from advance_until_entry [OF fits m(1) this j(3)] obtain it' where
    it': "advance_until I (entry_off I r es m) ?it = Some (Ok (True, it'))" "iter_at I r es (m - 1) it'" by blast
  have "entry_off I r es m \<noteq> 0" using first_entries_nonempty [OF block_fitsD(1) [OF fits] pos] by simp
  with it' j m(2) restart_point [OF fits base j(2)] block_fitsD(1) [OF fits]
  show "\<exists>it'. BlockIter_prev I it = Some (Ok (True, it')) \<and> iter_at I r es (m - 1) it'"
    by (simp add: BlockIter_prev_def)
qed

text \<open>A target before which there are \<open>p\<close> entries.\<close>

definition seek_position :: "cmp \<Rightarrow> entries \<Rightarrow> bytes \<Rightarrow> nat \<Rightarrow> bool" where
  "seek_position cmp es to p \<longleftrightarrow>
     p \<le> length es \<and> (\<forall>i < length es. \<exists>c. cmp (fst (es ! i)) to = Ok c \<and> (c = Less \<longleftrightarrow> i < p))"

lemma seek_positionD:
  "seek_position cmp es to p \<Longrightarrow> i < length es \<Longrightarrow> \<exists>c. cmp (fst (es ! i)) to = Ok c \<and> (c = Less \<longleftrightarrow> i < p)"
  by (simp add: seek_position_def)

lemma restart_search_entry:
  assumes fits: "block_fits I r es" and pos: "seek_position cmp es to p"
  shows "iter_base I r es it \<Longrightarrow> left \<le> right \<Longrightarrow> right < restarts_for r (length es) \<Longrightarrow> left * r \<le> p \<Longrightarrow>
    \<exists>l it'. restart_search I cmp to left right it = Ok (l, l, it') \<and> iter_base I r es it' \<and>
      l < restarts_for r (length es) \<and> l * r \<le> p"
proof (induction "right - left" arbitrary: left right it rule: less_induct)
  case less
  show ?case
  proof (cases "left < right")
    case True
    let ?m = "(left + right + 1) div 2"
    have m: "left < ?m" "?m \<le> right" using True by auto
    then have mr: "?m < restarts_for r (length es)" using less.prems(3) by simp
    from seek_restart [OF fits less.prems(1) mr] obtain it' where
      it': "seek_to_restart_point I ?m it = Ok it'" "iter_at I r es (?m * r) it'" by blast
    then have at: "iter_base I r es it'" "?m * r < length es" "bi_key it' = fst (es ! (?m * r))"
      by (simp_all add: iter_at_def)
    obtain c where c: "cmp (fst (es ! (?m * r))) to = Ok c" "c = Less \<longleftrightarrow> ?m * r < p"
      using seek_positionD [OF pos at(2)] by blast
    have step: "restart_search I cmp to left right it =
        (if c = Less then restart_search I cmp to ?m right it' else restart_search I cmp to left (?m - 1) it')"
      using True it'(1) at(3) c(1) by (subst restart_search.simps) (simp add: Let_def)
    show ?thesis
    proof (cases "c = Less")
      case True
      with less.hyps [of right ?m it'] at(1) m less.prems c(2) show ?thesis unfolding step by simp
    next
      case False
      with less.hyps [of "?m - 1" left it'] at(1) m mr less.prems show ?thesis unfolding step by simp
    qed
  next
    case False
    with less.prems show ?thesis by (subst restart_search.simps) auto
  qed
qed

lemma linear_search_entry:
  assumes fits: "block_fits I r es" and pos: "seek_position cmp es to p"
  shows "iter_ready I r es i it \<Longrightarrow> i \<le> p \<Longrightarrow>
    i < length es \<or> i = length es \<and> bi_current_entry_offset it = entry_off I r es (length es - 1) \<Longrightarrow>
    \<exists>it'. linear_search I cmp to it = Some (Ok it') \<and>
      (if p < length es then iter_at I r es p it' else iter_idle I r es (length es - 1) it')"
proof (induction "length es - i" arbitrary: i it rule: less_induct)
  case less
  have p: "p \<le> length es" using pos by (simp add: seek_position_def)
  have last: "length es - 1 < length es" using block_fitsD(3) [OF fits] by simp
  show ?case
  proof (cases "i < length es")
    case True
    from advance_entry [OF fits less.prems(1) True] obtain it' where
      it': "BlockIter_advance I it = Ok (True, it')" "iter_at I r es i it'" by blast
    have "BlockIter_next I it = Ok (Some (es ! i), it')"
      using it'(1) iter_at_valid(2) [OF fits it'(2)] by (simp add: BlockIter_next_def)
    moreover obtain c where c: "cmp (fst (es ! i)) to = Ok c" "c = Less \<longleftrightarrow> i < p"
      using seek_positionD [OF pos True] by blast
    ultimately have step: "linear_search I cmp to it = (if i < p then linear_search I cmp to it' else Some (Ok it'))"
      by (subst linear_search.simps) (simp add: case_prod_beta)
    show ?thesis
    proof (cases "i < p")
      case True
      have "length es - Suc i < length es - i" using \<open>i < length es\<close> by simp
      moreover have "Suc i < length es \<or> Suc i = length es \<and> bi_current_entry_offset it' = entry_off I r es (length es - 1)"
      proof (cases "Suc i < length es")
        case False
        with \<open>i < length es\<close> have "i = length es - 1" by simp
        with it'(2) \<open>i < length es\<close> show ?thesis by (auto simp: iter_at_def)
      qed simp
      ultimately show ?thesis unfolding step using less.hyps [OF _ iter_at_ready [OF it'(2)]] True by simp
    next
      case False
      with less.prems(2) \<open>i < length es\<close> it'(2) show ?thesis unfolding step by simp
    qed
  next
    case False
    with less.prems have i: "i = length es" "bi_current_entry_offset it = entry_off I r es (length es - 1)" by auto
    from advance_end [OF _ last i(2)] less.prems(1) i(1) obtain it' where
      it': "BlockIter_advance I it = Ok (False, it')" "iter_idle I r es (length es - 1) it'" by blast
    with less.prems(2) i p show ?thesis by (subst linear_search.simps) (simp add: BlockIter_next_def)
  qed
qed

lemma seek_entry:
  assumes fits: "block_fits I r es" and pos: "seek_position cmp es to p" and base: "iter_base I r es it"
  shows "\<exists>it'. BlockIter_seek I cmp to it = Some (Ok it') \<and>
    (if p < length es then iter_at I r es p it' else iter_idle I r es (length es - 1) it')"
proof -
  have base0: "iter_base I r es (BlockIter_reset it)" using base by (simp add: iter_base_def BlockIter_reset_def)
  have "restarts_for r (length es) - 1 < restarts_for r (length es)" by simp
  from restart_search_entry [OF fits pos base0 _ this, of 0] obtain l it1 where
    l: "restart_search I cmp to 0 (restarts_for r (length es) - 1) (BlockIter_reset it) = Ok (l, l, it1)"
      "iter_base I r es it1" "l < restarts_for r (length es)" "l * r \<le> p" by auto
  let ?it = "it1\<lparr>bi_current_restart_ix := l, bi_offset := entry_off I r es (l * r)\<rparr>"
  have "iter_ready I r es (l * r) ?it" using l(2,3) by (simp add: iter_ready_def iter_base_def)
  from linear_search_entry [OF fits pos this l(4)] restart_in_range [OF l(3) block_fitsD(3) [OF fits]]
  obtain it' where it': "linear_search I cmp to ?it = Some (Ok it')"
      "if p < length es then iter_at I r es p it' else iter_idle I r es (length es - 1) it'" by blast
  have "BlockIter_seek I cmp to it = linear_search I cmp to ?it"
    using l(1) restart_point [OF fits l(2,3)] number_restarts_block [OF fits base0] restarts_for_pos [of r "length es"]
    by (simp add: BlockIter_seek_def del: restarts_for_pos)
  with it' show ?thesis by simp
qed

section \<open>The iterator is a cursor\<close>

text \<open>
  The calls a client makes, and what it sees of each: the returned boolean, if
  there is one, and the current entry.
\<close>

datatype block_call = CAdvance | CPrev | CSeek bytes | CSeekToFirst | CSeekToLast | CReset

fun block_step :: "int_enc \<Rightarrow> cmp \<Rightarrow> block_call \<Rightarrow> block_iter \<Rightarrow> (bool option \<times> block_iter) ldb option" where
  "block_step I cmp CAdvance it = Some (map_ok (\<lambda>(b, it'). (Some b, it')) (BlockIter_advance I it))"
| "block_step I cmp CPrev it = map_option (map_ok (\<lambda>(b, it'). (Some b, it'))) (BlockIter_prev I it)"
| "block_step I cmp (CSeek to) it = map_option (map_ok (\<lambda>it'. (None, it'))) (BlockIter_seek I cmp to it)"
| "block_step I cmp CSeekToFirst it = Some (map_ok (\<lambda>(_, it'). (None, it')) (BlockIter_advance I (BlockIter_reset it)))"
| "block_step I cmp CSeekToLast it = map_option (map_ok (\<lambda>it'. (None, it'))) (seek_to_last I it)"
| "block_step I cmp CReset it = Some (Ok (None, BlockIter_reset it))"

type_synonym block_view = "bool option \<times> (bytes \<times> bytes) option"

fun block_run :: "int_enc \<Rightarrow> cmp \<Rightarrow> block_call list \<Rightarrow> block_iter \<Rightarrow> block_view list ldb option" where
  "block_run I cmp [] it = Some (Ok [])"
| "block_run I cmp (c # cs) it =
     (case block_step I cmp c it of
        None \<Rightarrow> None
      | Some r \<Rightarrow> loop_bind r (\<lambda>(b, it').
          loop_bind (BlockIter_current it') (\<lambda>v.
          map_option (map_ok ((#) (b, v))) (block_run I cmp cs it'))))"

text \<open>
  The specification: a cursor on the list of entries, at one entry or at none, that
  also remembers the entry it was at last. \<open>pos\<close> counts the entries before a target.
\<close>

type_synonym cursor = "nat option \<times> nat"

fun cursor_step :: "nat \<Rightarrow> (bytes \<Rightarrow> nat) \<Rightarrow> block_call \<Rightarrow> cursor \<Rightarrow> bool option \<times> cursor" where
  "cursor_step n pos CAdvance (c, m) =
     (let i = (case c of None \<Rightarrow> 0 | Some i \<Rightarrow> Suc i) in
      if i < n then (Some True, Some i, i) else (Some False, None, m))"
| "cursor_step n pos CPrev (c, m) = (if m = 0 then (Some False, None, 0) else (Some True, Some (m - 1), m - 1))"
| "cursor_step n pos (CSeek to) (c, m) = (if pos to < n then (None, Some (pos to), pos to) else (None, None, n - 1))"
| "cursor_step n pos CSeekToFirst (c, m) = (None, Some 0, 0)"
| "cursor_step n pos CSeekToLast (c, m) = (None, Some (n - 1), n - 1)"
| "cursor_step n pos CReset (c, m) = (None, None, m)"

fun cursor_run :: "entries \<Rightarrow> (bytes \<Rightarrow> nat) \<Rightarrow> block_call list \<Rightarrow> cursor \<Rightarrow> block_view list" where
  "cursor_run es pos [] q = []"
| "cursor_run es pos (c # cs) q =
     (case cursor_step (length es) pos c q of
        (b, q') \<Rightarrow> (b, map_option ((!) es) (fst q')) # cursor_run es pos cs q')"

fun iter_on :: "int_enc \<Rightarrow> nat \<Rightarrow> entries \<Rightarrow> cursor \<Rightarrow> block_iter \<Rightarrow> bool" where
  "iter_on I r es (None, m) it \<longleftrightarrow> iter_idle I r es m it"
| "iter_on I r es (Some i, m) it \<longleftrightarrow> iter_at I r es i it \<and> m = i"

lemma iter_onD:
  "iter_on I r es (c, m) it \<Longrightarrow>
    iter_base I r es it \<and> m < length es \<and> bi_current_entry_offset it = entry_off I r es m"
  by (cases c) (auto simp: iter_at_def iter_idle_def)

lemma iter_on_ready:
  "iter_on I r es (c, m) it \<Longrightarrow> iter_ready I r es (case c of None \<Rightarrow> 0 | Some i \<Rightarrow> Suc i) it"
  by (cases c) (auto simp: iter_at_ready iter_idle_ready)

lemma iter_on_current:
  "block_fits I r es \<Longrightarrow> iter_on I r es q it \<Longrightarrow> BlockIter_current it = Ok (map_option ((!) es) (fst q))"
  by (cases q; cases "fst q") (auto simp: iter_at_valid iter_idle_invalid)

lemma block_step_refines:
  assumes fits: "block_fits I r es" and on: "iter_on I r es (c, m) it"
    and pos: "\<And>to. op = CSeek to \<Longrightarrow> seek_position cmp es to (pos to)"
  shows "\<exists>it'. block_step I cmp op it = Some (Ok (fst (cursor_step (length es) pos op (c, m)), it')) \<and>
    iter_on I r es (snd (cursor_step (length es) pos op (c, m))) it'"
proof -
  have b: "iter_base I r es it" "m < length es" "bi_current_entry_offset it = entry_off I r es m"
    using iter_onD [OF on] by auto
  have idle: "iter_idle I r es m (BlockIter_reset it)" using reset_idle [OF b] .
  show ?thesis
  proof (cases op)
    case CAdvance
    let ?i = "case c of None \<Rightarrow> 0 | Some i \<Rightarrow> Suc i"
    have "?i \<le> length es" using on by (cases c) (auto simp: iter_at_def)
    then consider "?i < length es" | "?i = length es" by linarith
    then show ?thesis
    proof cases
      case 1
      with advance_entry [OF fits iter_on_ready [OF on]] CAdvance show ?thesis by (auto simp: Let_def)
    next
      case 2
      with advance_end [OF _ b(2,3)] iter_on_ready [OF on] CAdvance show ?thesis by (auto simp: Let_def)
    qed
  next
    case CPrev
    with prev_entry [OF fits b] show ?thesis by auto
  next
    case (CSeek to)
    from seek_entry [OF fits pos [OF this] b(1)] CSeek show ?thesis by auto
  next
    case CSeekToFirst
    with advance_entry [OF fits iter_idle_ready [OF idle] block_fitsD(3) [OF fits]] show ?thesis by auto
  next
    case CSeekToLast
    with seek_to_last_entry [OF fits b(1)] show ?thesis by auto
  next
    case CReset
    with idle show ?thesis by simp
  qed
qed

lemma block_run_refines:
  assumes fits: "block_fits I r es"
  shows "iter_on I r es q it \<Longrightarrow> (\<And>to. CSeek to \<in> set ops \<Longrightarrow> seek_position cmp es to (pos to)) \<Longrightarrow>
    block_run I cmp ops it = Some (Ok (cursor_run es pos ops q))"
proof (induction ops arbitrary: q it)
  case (Cons op ops)
  obtain c m where q: "q = (c, m)" by (cases q)
  obtain b q' where q': "cursor_step (length es) pos op q = (b, q')" by (cases "cursor_step (length es) pos op q")
  have "\<And>to. op = CSeek to \<Longrightarrow> seek_position cmp es to (pos to)" using Cons.prems(2) by simp
  from block_step_refines [OF fits, of c m it op cmp pos] this Cons.prems(1) q q' obtain it' where
    it': "block_step I cmp op it = Some (Ok (b, it'))" "iter_on I r es q' it'" by auto
  have "block_run I cmp ops it' = Some (Ok (cursor_run es pos ops q'))"
    using it'(2) Cons.prems(2) by (intro Cons.IH) simp_all
  with it' q' iter_on_current [OF fits it'(2)] show ?case by simp
qed simp

lemma Block_iter_start:
  assumes fits: "block_fits I r es"
  shows "\<exists>it. bind_result (Block_new (block_bytes I r es)) (Block_iter I) = Ok it \<and> iter_on I r es (None, 0) it"
proof -
  note f = block_fitsD [OF fits]
  have len: "length (block_bytes I r es) = entry_off I r es (length es) + 4 * restarts_for r (length es) + 4"
    using f(1) by (simp add: block_bytes_def length_restarts int_enc_simps)
  have "0 < restarts_for r (length es)" by simp
  with len have "Block_new (block_bytes I r es) = Ok (block_bytes I r es)" by (simp add: Block_new_def)
  then show ?thesis using f(3) len by (simp add: Block_iter_def trailing_count_block [OF fits] iter_idle_def iter_base_def)
qed

section \<open>Blocks in the order of a comparator\<close>

text \<open>How many entries have a smaller key than the target.\<close>

definition before_target :: "(bytes \<Rightarrow> 'k::linorder) \<Rightarrow> entries \<Rightarrow> bytes \<Rightarrow> nat" where
  "before_target sk es to = length (takeWhile (\<lambda>(k, _). sk k < sk to) es)"

definition keys_ascend :: "(bytes \<Rightarrow> 'k::linorder) \<Rightarrow> entries \<Rightarrow> bool" where
  "keys_ascend sk es \<longleftrightarrow> sorted_wrt (\<lambda>a b. sk (fst a) < sk (fst b)) es"

context key_order
begin

lemma block_seek_position:
  assumes "\<forall>(k, _) \<in> set es. wf k" "wf to" "keys_ascend sort_key es"
  shows "seek_position cmp es to (before_target sort_key es to)"
proof -
  let ?P = "\<lambda>(k, _ :: bytes). sort_key k < sort_key to"
  have less: "?P (es ! i) \<longleftrightarrow> i < before_target sort_key es to" if i: "i < length es" for i
  proof
    assume p: "?P (es ! i)"
    show "i < before_target sort_key es to"
    proof (rule ccontr)
      assume ge: "\<not> i < before_target sort_key es to"
      then have j: "before_target sort_key es to < length es" using i by simp
      then have "\<not> ?P (es ! before_target sort_key es to)" unfolding before_target_def by (rule nth_length_takeWhile)
      moreover have "?P (es ! before_target sort_key es to)"
        using p ge i sorted_wrt_nth_less [OF assms(3) [unfolded keys_ascend_def], of "before_target sort_key es to" i]
        by (cases "before_target sort_key es to = i") (auto simp: case_prod_beta)
      ultimately show False by simp
    qed
  next
    assume "i < before_target sort_key es to"
    then show "?P (es ! i)"
      unfolding before_target_def by (metis (no_types, lifting) nth_mem set_takeWhileD takeWhile_nth)
  qed
  have "wf (fst (es ! i))" if "i < length es" for i using assms(1) nth_mem [OF that] by auto
  with less show ?thesis unfolding seek_position_def before_target_def
    by (auto simp: cmp_spec [OF _ assms(2)] length_takeWhile_le case_prod_beta)
qed

lemma block_ascends:
  assumes "\<forall>(k, _) \<in> set es. wf k" "keys_ascend sort_key es"
  shows "entries_ascend cmp es"
proof -
  have "wf (fst (es ! i))" if "i < length es" for i using assms(1) nth_mem [OF that] by auto
  then show ?thesis using sorted_wrt_nth_less [OF assms(2) [unfolded keys_ascend_def]] unfolding entries_ascend_def by (simp add: cmp_spec)
qed

end

lemma length_block_bytes:
  "int_enc_ok I \<Longrightarrow> length (block_bytes I r es) = size_estimate (built I r es (length es))"
  by (simp add: block_bytes_def size_estimate_def built_def length_restarts int_enc_simps)

lemma internal_block_fits:
  assumes "int_enc_ok I" "0 < r" "es \<noteq> []" "\<forall>(k, _) \<in> set es. 8 \<le> length k"
    "size_estimate (built I r es (length es)) < 2 ^ 32"
  shows "block_fits I r es"
  using assms by (auto simp: block_fits_def size_estimate_def built_def)

lemma internal_iterator:
  assumes "int_enc_ok I" "0 < r" "es \<noteq> []" "\<forall>(k, _) \<in> set es. 8 \<le> length k" "keys_ascend (ikey_sort I) es"
    and add: "add_all I (InternalKeyCmp_cmp I DefaultCmp_cmp) r es BlockBuilder_new = Ok b" and "size_estimate b < 2 ^ 32"
    and it: "bind_result (Block_new (BlockBuilder_finish I b)) (Block_iter I) = Ok it"
  shows "block_fits I r es \<and> iter_base I r es it"
proof -
  have "b = built I r es (length es)"
    using add_all_built [OF assms(2,1) icmp.block_ascends [OF assms(4,5)], of 0] add by (simp add: built_0)
  moreover from this have fits: "block_fits I r es" using internal_block_fits assms(1-4,7) by simp
  ultimately show ?thesis using Block_iter_start [OF fits] it by (auto simp: finish_built iter_idle_def)
qed

section \<open>Properties\<close>

text \<open>
  C27. Entries in the order of the internal-key comparator can always be added to a
  new block builder. The finished block has exactly the estimated size. If that size
  fits in 32 bits, an iterator over the block returns from every sequence of calls,
  and the client sees a cursor moving over the list of entries: \<^verbatim>\<open>advance\<close> and
  \<^verbatim>\<open>prev\<close> move by one entry, \<^verbatim>\<open>seek\<close> goes to the first entry that is not below the
  target, and \<^verbatim>\<open>current\<close> gives the key and the value that were added.
\<close>

theorem block_iterator_is_cursor:
  assumes "int_enc_ok I" "0 < r" "es \<noteq> []" "\<forall>(k, _) \<in> set es. 8 \<le> length k" "keys_ascend (ikey_sort I) es"
    and "\<forall>to. CSeek to \<in> set calls \<longrightarrow> 8 \<le> length to"
  shows "\<exists>b. add_all I (InternalKeyCmp_cmp I DefaultCmp_cmp) r es BlockBuilder_new = Ok b \<and>
    length (BlockBuilder_finish I b) = size_estimate b \<and>
    (size_estimate b < 2 ^ 32 \<longrightarrow>
      (\<exists>it. bind_result (Block_new (BlockBuilder_finish I b)) (Block_iter I) = Ok it \<and>
        block_run I (InternalKeyCmp_cmp I DefaultCmp_cmp) calls it =
          Some (Ok (cursor_run es (before_target (ikey_sort I) es) calls (None, 0)))))"
proof -
  let ?cmp = "InternalKeyCmp_cmp I DefaultCmp_cmp" and ?b = "built I r es (length es)"
  note asc = icmp.block_ascends [OF assms(4,5)]
  have "add_all I ?cmp r es BlockBuilder_new = Ok ?b"
    using add_all_built [OF assms(2,1) asc, of 0] by (simp add: built_0)
  moreover have "length (BlockBuilder_finish I ?b) = size_estimate ?b"
    by (simp add: finish_built length_block_bytes [OF assms(1)])
  moreover have "\<exists>it. bind_result (Block_new (BlockBuilder_finish I ?b)) (Block_iter I) = Ok it \<and>
      block_run I ?cmp calls it = Some (Ok (cursor_run es (before_target (ikey_sort I) es) calls (None, 0)))"
    if "size_estimate ?b < 2 ^ 32"
  proof -
    note fits = internal_block_fits [OF assms(1-4) that]
    from Block_iter_start [OF fits] obtain it where
      it: "bind_result (Block_new (block_bytes I r es)) (Block_iter I) = Ok it" "iter_on I r es (None, 0) it" by blast
    have "block_run I ?cmp calls it = Some (Ok (cursor_run es (before_target (ikey_sort I) es) calls (None, 0)))"
      using fits it(2) by (rule block_run_refines) (use assms(6) icmp.block_seek_position [OF assms(4) _ assms(5)] in blast)
    with it show ?thesis by (simp add: finish_built)
  qed
  ultimately show ?thesis by blast
qed

definition sample_entries :: entries where
  "sample_entries =
     [([97, 98] @ replicate 8 0, [1]), ([97, 98, 99] @ replicate 8 0, [2, 2]), ([97, 99] @ replicate 8 0, []),
      ([98] @ replicate 8 0, [4])]"

lemma sample_wf: "\<forall>(k, _) \<in> set sample_entries. 8 \<le> length k"
  by (simp add: sample_entries_def)

lemma sample_ascends: "keys_ascend (ikey_sort leb128) sample_entries"
  unfolding keys_ascend_def sample_entries_def by code_simp

lemma sample_built:
  "\<exists>b. add_all leb128 (InternalKeyCmp_cmp leb128 DefaultCmp_cmp) 2 sample_entries BlockBuilder_new = Ok b \<and>
    size_estimate b < 2 ^ 32"
proof -
  have "map_ok size_estimate (add_all leb128 (InternalKeyCmp_cmp leb128 DefaultCmp_cmp) 2 sample_entries BlockBuilder_new) = Ok 66"
    unfolding sample_entries_def by code_simp
  then show ?thesis by (auto simp: res_simps)
qed

theorem block_iterator_is_cursor_witness:
  "\<exists>b it. add_all leb128 (InternalKeyCmp_cmp leb128 DefaultCmp_cmp) 2 sample_entries BlockBuilder_new = Ok b \<and>
    bind_result (Block_new (BlockBuilder_finish leb128 b)) (Block_iter leb128) = Ok it \<and>
    block_run leb128 (InternalKeyCmp_cmp leb128 DefaultCmp_cmp) [CSeek ([97, 99] @ replicate 8 0), CPrev, CAdvance, CAdvance, CAdvance] it =
      Some (Ok [(None, Some (sample_entries ! 2)), (Some True, Some (sample_entries ! 1)),
        (Some True, Some (sample_entries ! 2)), (Some True, Some (sample_entries ! 3)), (Some False, None)])"
proof -
  let ?calls = "[CSeek ([97, 99] @ replicate 8 0), CPrev, CAdvance, CAdvance, CAdvance]"
  have ne: "sample_entries \<noteq> []" by (simp add: sample_entries_def)
  have to: "\<forall>to. CSeek to \<in> set ?calls \<longrightarrow> 8 \<le> length to" by simp
  from block_iterator_is_cursor [OF leb128_ok _ ne sample_wf sample_ascends to, of 2] obtain b where
    b: "add_all leb128 (InternalKeyCmp_cmp leb128 DefaultCmp_cmp) 2 sample_entries BlockBuilder_new = Ok b"
    and run: "size_estimate b < 2 ^ 32 \<Longrightarrow>
      \<exists>it. bind_result (Block_new (BlockBuilder_finish leb128 b)) (Block_iter leb128) = Ok it \<and>
        block_run leb128 (InternalKeyCmp_cmp leb128 DefaultCmp_cmp) ?calls it =
          Some (Ok (cursor_run sample_entries (before_target (ikey_sort leb128) sample_entries) ?calls (None, 0)))"
    by auto
  have "size_estimate b < 2 ^ 32" using sample_built b by auto
  moreover have "cursor_run sample_entries (before_target (ikey_sort leb128) sample_entries) ?calls (None, 0) =
      [(None, Some (sample_entries ! 2)), (Some True, Some (sample_entries ! 1)),
        (Some True, Some (sample_entries ! 2)), (Some True, Some (sample_entries ! 3)), (Some False, None)]"
  proof -
    have "before_target (ikey_sort leb128) sample_entries ([97, 99] @ replicate 8 0) = 2"
      unfolding sample_entries_def by code_simp
    moreover have "length sample_entries = 4" by (simp add: sample_entries_def)
    ultimately show ?thesis by (simp add: Let_def numeral_eq_Suc)
  qed
  ultimately show ?thesis using b run by auto
qed

text \<open>
  C33. \<^verbatim>\<open>reset\<close> does not position the iterator before the first entry, as its
  documentation says: it keeps the offset of the entry it was at. After
  \<^verbatim>\<open>seek_to_last\<close> and \<^verbatim>\<open>reset\<close> there is no current entry, and \<^verbatim>\<open>prev\<close> then returns true
  and moves to the entry before the last one.
\<close>

theorem prev_after_reset:
  assumes "int_enc_ok I" "0 < r" "\<forall>(k, _) \<in> set es. 8 \<le> length k" "keys_ascend (ikey_sort I) es" "2 \<le> length es"
    and "add_all I (InternalKeyCmp_cmp I DefaultCmp_cmp) r es BlockBuilder_new = Ok b" "size_estimate b < 2 ^ 32"
    and "bind_result (Block_new (BlockBuilder_finish I b)) (Block_iter I) = Ok it"
  shows "block_run I (InternalKeyCmp_cmp I DefaultCmp_cmp) [CSeekToLast, CReset, CPrev] it =
    Some (Ok [(None, Some (es ! (length es - 1))), (None, None), (Some True, Some (es ! (length es - 2)))])"
proof -
  let ?cmp = "InternalKeyCmp_cmp I DefaultCmp_cmp"
  have "es \<noteq> []" using assms(5) by auto
  from internal_iterator [OF assms(1,2) this assms(3,4,6-8)]
  have fits: "block_fits I r es" and base: "iter_base I r es it" by auto
  obtain it1 where it1: "seek_to_last I it = Some (Ok it1)" "iter_at I r es (length es - 1) it1"
    using seek_to_last_entry [OF fits base] by blast
  then have on: "iter_on I r es (Some (length es - 1), length es - 1) it1" by simp
  have "block_run I ?cmp [CReset, CPrev] it1 =
      Some (Ok (cursor_run es (\<lambda>_. 0) [CReset, CPrev] (Some (length es - 1), length es - 1)))"
    using fits on by (rule block_run_refines) simp
  with assms(5) it1 iter_at_valid(2) [OF fits it1(2)] show ?thesis
    by (simp add: diff_diff_left del: block_run.simps(2)) (simp add: diff_diff_left numeral_2_eq_2)
qed

theorem prev_after_reset_witness:
  "\<exists>b it. add_all leb128 (InternalKeyCmp_cmp leb128 DefaultCmp_cmp) 2 sample_entries BlockBuilder_new = Ok b \<and>
    bind_result (Block_new (BlockBuilder_finish leb128 b)) (Block_iter leb128) = Ok it \<and>
    block_run leb128 (InternalKeyCmp_cmp leb128 DefaultCmp_cmp) [CSeekToLast, CReset, CPrev] it =
      Some (Ok [(None, Some (sample_entries ! 3)), (None, None), (Some True, Some (sample_entries ! 2))])"
proof -
  have len: "length sample_entries = 4" by (simp add: sample_entries_def)
  then have ne: "sample_entries \<noteq> []" by auto
  obtain b where b: "add_all leb128 (InternalKeyCmp_cmp leb128 DefaultCmp_cmp) 2 sample_entries BlockBuilder_new = Ok b"
    "size_estimate b < 2 ^ 32" using sample_built by blast
  then have "b = built leb128 2 sample_entries (length sample_entries)"
    using add_all_built [OF _ leb128_ok icmp.block_ascends [OF sample_wf sample_ascends], of 2 0] by (simp add: built_0)
  with b(2) internal_block_fits [OF leb128_ok _ ne sample_wf, of 2]
  obtain it where it: "bind_result (Block_new (BlockBuilder_finish leb128 b)) (Block_iter leb128) = Ok it"
    using Block_iter_start [of leb128 2 sample_entries] by (auto simp: finish_built)
  have "block_run leb128 (InternalKeyCmp_cmp leb128 DefaultCmp_cmp) [CSeekToLast, CReset, CPrev] it =
      Some (Ok [(None, Some (sample_entries ! (length sample_entries - 1))), (None, None),
        (Some True, Some (sample_entries ! (length sample_entries - 2)))])"
    by (rule prev_after_reset [OF leb128_ok _ sample_wf sample_ascends _ b it]) (simp_all add: len)
  with b(1) it show ?thesis by (auto simp: len)
qed

end
