(* ===== verification/Staged_Files.thy ===== *)
theory Staged_Files
  imports Types
begin

text \<open>
  The files a function works on: \<^verbatim>\<open>types/src/staged_file.rs\<close>. The protected file
  library of the SGX SDK is the record \<open>pfs\<close>: an encrypted file with a key, whose
  tag identifies its contents. The library keeps its data on the untrusted host, so
  all its operations change the state of the host, about which nothing is assumed.

  \<open>pfs_ok\<close> is what the library documents. It is stated with a view \<open>pfs_view\<close> of
  the handles: the key, what is still to be read, and what has been written; the
  relation \<open>pv_sealed\<close> says which tag stands for which contents under a key.
\<close>

section \<open>Operations that may not return\<close>

text \<open>An operation that calls code that may run forever; not returning is \<open>None\<close>.\<close>

type_synonym ('s, 'a) xop = "'s \<Rightarrow> ('a anyhow_result \<times> 's) option"

definition run_op :: "('s, 'a, anyhow) op \<Rightarrow> ('s, 'a) xop" where
  "run_op m s = Some (m s)"

definition bind_x :: "('s, 'a) xop \<Rightarrow> ('a \<Rightarrow> ('s, 'b) xop) \<Rightarrow> ('s, 'b) xop" where
  "bind_x m f s =
     (case m s of
        None \<Rightarrow> None
      | Some (Ok a, s') \<Rightarrow> f a s'
      | Some (Err e, s') \<Rightarrow> Some (Err e, s')
      | Some (Panic, s') \<Rightarrow> Some (Panic, s'))"

lemma run_op_iff [res_simps]: "run_op m s = Some r \<longleftrightarrow> m s = r"
  by (simp add: run_op_def)

lemma bind_x_Ok_iff [res_simps]:
  "bind_x m f s = Some (Ok b, s'') \<longleftrightarrow> (\<exists>a s'. m s = Some (Ok a, s') \<and> f a s' = Some (Ok b, s''))"
  by (auto simp: bind_x_def split: option.splits prod.splits result.splits)

lemma bind_x_mono [partial_function_mono]:
  assumes "\<And>a s'. mono_option (\<lambda>g. h g a s')"
  shows "mono_option (\<lambda>g. bind_x m (h g) s)"
proof (cases "m s")
  case (Some r)
  with assms show ?thesis by (cases r; cases "fst r") (simp_all add: bind_x_def option.const_mono)
qed (simp add: bind_x_def option.const_mono)

lemma run_op_returns: "run_op m s \<noteq> None"
  by (simp add: run_op_def)

lemma bind_x_returns: "m s \<noteq> None \<Longrightarrow> (\<And>a s'. f a s' \<noteq> None) \<Longrightarrow> bind_x m f s \<noteq> None"
  by (auto simp: bind_x_def split: result.splits)

section \<open>Protected files\<close>

record ('h, 'f) pfs =
  pf_open_ex :: "string \<Rightarrow> bytes \<Rightarrow> ('h, 'f, anyhow) op"
  pf_create_ex :: "string \<Rightarrow> bytes \<Rightarrow> ('h, 'f, anyhow) op"
  pf_read :: "nat \<Rightarrow> 'f \<Rightarrow> ('h, bytes \<times> 'f, anyhow) op"
  pf_write :: "bytes \<Rightarrow> 'f \<Rightarrow> ('h, nat \<times> 'f, anyhow) op"
  pf_flush :: "'f \<Rightarrow> ('h, 'f, anyhow) op"
  pf_meta_gmac :: "'f \<Rightarrow> ('h, bytes, anyhow) op"
  pf_close :: "'f \<Rightarrow> 'h \<Rightarrow> 'h"

record 'f pfs_view =
  pv_key :: "'f \<Rightarrow> bytes"
  pv_rest :: "'f \<Rightarrow> bytes"
  pv_text :: "'f \<Rightarrow> bytes"
  pv_sealed :: "bytes \<Rightarrow> bytes \<Rightarrow> bytes \<Rightarrow> bool"

text \<open>
  A file that could be opened under a key has the contents its tag stands for. What
  a flushed file has as its tag stands for what was written. A tag stands for at most
  one contents under a key.
\<close>

definition pfs_ok :: "('h, 'f) pfs \<Rightarrow> 'f pfs_view \<Rightarrow> bool" where
  "pfs_ok P V \<longleftrightarrow>
     (\<forall>p k s f s'. pf_open_ex P p k s = (Ok f, s') \<longrightarrow>
        (\<forall>s1 t s2. pf_meta_gmac P f s1 = (Ok t, s2) \<longrightarrow> pv_sealed V k (pv_rest V f) t)) \<and>
     (\<forall>p k s f s'. pf_create_ex P p k s = (Ok f, s') \<longrightarrow> pv_key V f = k \<and> pv_text V f = []) \<and>
     (\<forall>n f s bs f' s'. pf_read P n f s = (Ok (bs, f'), s') \<longrightarrow>
        pv_rest V f = bs @ pv_rest V f' \<and> (0 < n \<and> bs = [] \<longrightarrow> pv_rest V f = [])) \<and>
     (\<forall>bs f s n f' s'. pf_write P bs f s = (Ok (n, f'), s') \<longrightarrow>
        n \<le> length bs \<and> pv_key V f' = pv_key V f \<and> pv_text V f' = pv_text V f @ take n bs) \<and>
     (\<forall>f s f' s'. pf_flush P f s = (Ok f', s') \<longrightarrow>
        (\<forall>s1 t s2. pf_meta_gmac P f' s1 = (Ok t, s2) \<longrightarrow> pv_sealed V (pv_key V f) (pv_text V f) t)) \<and>
     (\<forall>k p p' t. pv_sealed V k p t \<and> pv_sealed V k p' t \<longrightarrow> p = p')"

text \<open>\<^verbatim>\<open>write_all\<close> of the standard library: write until nothing is left; taking nothing is an error.\<close>

function pf_write_all :: "('h, 'f) pfs \<Rightarrow> bytes \<Rightarrow> 'f \<Rightarrow> ('h, 'f, anyhow) op" where
  "pf_write_all P bs f s =
     (if bs = [] then (Ok f, s)
      else case pf_write P bs f s of
        (Ok (n, f'), s') \<Rightarrow>
          if n = 0 then (Err (Anyhow ''failed to write whole buffer'' []), s')
          else if length bs < n then (Panic, s')
          else pf_write_all P (drop n bs) f' s'
      | (Err e, s') \<Rightarrow> (Err e, s')
      | (Panic, s') \<Rightarrow> (Panic, s'))"
  by pat_completeness auto
termination by (relation "measure (\<lambda>(_, bs, _, _). length bs)") auto

declare pf_write_all.simps [simp del]

text \<open>Handles are closed when they go out of scope, also after an error.\<close>

definition fail_close :: "('h, 'f) pfs \<Rightarrow> 'f list \<Rightarrow> ('h, 'a, anyhow) op \<Rightarrow> ('h, 'a, anyhow) op" where
  "fail_close P fs m s = (case m s of (Ok a, s') \<Rightarrow> (Ok a, s') | (r, s') \<Rightarrow> (r, fold (pf_close P) fs s'))"

lemma fail_close_Ok_iff [res_simps]: "fail_close P fs m s = (Ok a, s') \<longleftrightarrow> m s = (Ok a, s')"
  by (auto simp: fail_close_def split: prod.splits result.splits)

section \<open>Staged files\<close>

record staged_file_info =
  sf_path :: string
  sf_crypto :: teaclave_file_128_key
  sf_cmac :: file_auth_tag

type_synonym staged_files = "(string, staged_file_info) fmap"

definition StagedFileInfo_new :: "string \<Rightarrow> teaclave_file_128_key \<Rightarrow> file_auth_tag \<Rightarrow> staged_file_info" where
  "StagedFileInfo_new p k t = \<lparr>sf_path = p, sf_crypto = k, sf_cmac = t\<rparr>"

definition create_readable_io :: "('h, 'f) pfs \<Rightarrow> staged_file_info \<Rightarrow> ('h, 'f, anyhow) op" where
  "create_readable_io P sf =
     bind_op (pf_open_ex P (sf_path sf) (file_key (sf_crypto sf))) (\<lambda>f.
     fail_close P [f]
       (bind_op (map_err_op (\<lambda>_. Anyhow ''Failed to get gmac from protected file'' []) (pf_meta_gmac P f)) (\<lambda>t.
        bind_op (return_op (ensure (tag (sf_cmac sf) = t) (Anyhow ''Corrupted input file: {:?}'' [FStr (sf_path sf)]))) (\<lambda>_.
        return_op (Ok f)))))"

definition create_writable_io :: "('h, 'f) pfs \<Rightarrow> staged_file_info \<Rightarrow> ('h, 'f, anyhow) op" where
  "create_writable_io P sf = pf_create_ex P (sf_path sf) (file_key (sf_crypto sf))"

text \<open>The loop of \<^verbatim>\<open>convert_file\<close>; every round reads at most one buffer of the reader.\<close>

partial_function (option) copy_loop :: "('h, 'f) pfs \<Rightarrow> 'f \<Rightarrow> 'f \<Rightarrow> 'h \<Rightarrow> (('f \<times> 'f) anyhow_result \<times> 'h) option" where
  "copy_loop P src dst s =
     bind_x (run_op (fail_close P [src, dst] (pf_read P 4096 src))) (\<lambda>r s1. case r of (buffer, src') \<Rightarrow>
       if buffer = [] then Some (Ok (src', dst), s1)
       else bind_x (run_op (fail_close P [src', dst] (pf_write P buffer dst))) (\<lambda>w s2. case w of (wt_len, dst') \<Rightarrow>
         if length buffer \<noteq> wt_len
         then Some (fail_close P [src', dst'] (return_op (Err (Anyhow
           ''Cannot fully write to dest file: Rd({:?}) != Wt({:?})'' [FNum (length buffer), FNum wt_len]))) s2)
         else copy_loop P src' dst' s2) s1) s"

definition convert_file ::
    "('h, 'f) pfs \<Rightarrow> staged_file_info \<Rightarrow> string \<Rightarrow> teaclave_file_128_key \<Rightarrow> ('h, staged_file_info) xop" where
  "convert_file P sf dst crypto =
     bind_x (run_op (map_err_op (\<lambda>_. Anyhow ''Convert: failed to open src file'' [])
       (pf_open_ex P (sf_path sf) (file_key (sf_crypto sf))))) (\<lambda>src_file.
     bind_x (run_op (fail_close P [src_file] (map_err_op (\<lambda>_. Anyhow ''Convert: failed to create dst file'' [])
       (pf_create_ex P dst (file_key crypto))))) (\<lambda>dest_file.
     bind_x (copy_loop P src_file dest_file) (\<lambda>(reader, dest_file).
     bind_x (run_op (fail_close P [reader, dest_file]
       (map_err_op (\<lambda>_. Anyhow ''Convert: dst_file flush failed'' []) (pf_flush P dest_file)))) (\<lambda>dest_file.
     bind_x (run_op (fail_close P [reader, dest_file]
       (map_err_op (\<lambda>_. Anyhow ''Convert: cannot get dst_file gmac'' []) (pf_meta_gmac P dest_file)))) (\<lambda>t s.
     Some (Ok (StagedFileInfo_new dst crypto \<lparr>tag = t\<rparr>), fold (pf_close P) [reader, dest_file] s))))))"

definition create_with_bytes ::
    "('h, 'f) pfs \<Rightarrow> ('h \<Rightarrow> teaclave_file_128_key \<times> 'h) \<Rightarrow> string \<Rightarrow> bytes \<Rightarrow> ('h, staged_file_info, anyhow) op" where
  "create_with_bytes P random p bs s =
     (case random s of (crypto, s0) \<Rightarrow>
      bind_op (pf_create_ex P p (file_key crypto)) (\<lambda>f.
      bind_op (fail_close P [f] (pf_write_all P bs f)) (\<lambda>f.
      bind_op (fail_close P [f] (pf_flush P f)) (\<lambda>f.
      bind_op (fail_close P [f] (pf_meta_gmac P f)) (\<lambda>t s.
      (Ok (StagedFileInfo_new p crypto \<lparr>tag = t\<rparr>), pf_close P f s))))) s0)"

section \<open>Lemmas\<close>

lemma pfs_open_sealed:
  "pfs_ok P V \<Longrightarrow> pf_open_ex P p k s = (Ok f, s') \<Longrightarrow> pf_meta_gmac P f s1 = (Ok t, s2) \<Longrightarrow> pv_sealed V k (pv_rest V f) t"
  unfolding pfs_ok_def by metis

lemma pfs_create: "pfs_ok P V \<Longrightarrow> pf_create_ex P p k s = (Ok f, s') \<Longrightarrow> pv_key V f = k \<and> pv_text V f = []"
  unfolding pfs_ok_def by metis

lemma pfs_read:
  "pfs_ok P V \<Longrightarrow> pf_read P n f s = (Ok (bs, f'), s') \<Longrightarrow>
    pv_rest V f = bs @ pv_rest V f' \<and> (0 < n \<and> bs = [] \<longrightarrow> pv_rest V f = [])"
  unfolding pfs_ok_def by metis

lemma pfs_write:
  "pfs_ok P V \<Longrightarrow> pf_write P bs f s = (Ok (n, f'), s') \<Longrightarrow>
    n \<le> length bs \<and> pv_key V f' = pv_key V f \<and> pv_text V f' = pv_text V f @ take n bs"
  unfolding pfs_ok_def by metis

lemma pfs_flush_sealed:
  "pfs_ok P V \<Longrightarrow> pf_flush P f s = (Ok f', s') \<Longrightarrow> pf_meta_gmac P f' s1 = (Ok t, s2) \<Longrightarrow>
    pv_sealed V (pv_key V f) (pv_text V f) t"
  unfolding pfs_ok_def by metis

lemma pfs_sealed_unique: "pfs_ok P V \<Longrightarrow> pv_sealed V k p t \<Longrightarrow> pv_sealed V k p' t \<Longrightarrow> p = p'"
  unfolding pfs_ok_def by metis

lemma pf_write_all_text:
  assumes ok: "pfs_ok P V"
  shows "pf_write_all P bs f s = (Ok f', s') \<Longrightarrow> pv_key V f' = pv_key V f \<and> pv_text V f' = pv_text V f @ bs"
proof (induction "length bs" arbitrary: bs f s rule: less_induct)
  case less
  show ?case
  proof (cases "bs = []")
    case True
    with less.prems show ?thesis by (simp add: pf_write_all.simps)
  next
    case False
    then obtain n f1 s1 where w: "pf_write P bs f s = (Ok (n, f1), s1)" "n \<noteq> 0"
      and rest: "pf_write_all P (drop n bs) f1 s1 = (Ok f', s')"
      using less.prems by (subst (asm) pf_write_all.simps) (auto split: prod.splits result.splits if_splits)
    have "length (drop n bs) < length bs" using False w(2) by simp
    from less.hyps [OF this rest] pfs_write [OF ok w(1)] show ?thesis by simp
  qed
qed

lemma copy_loop_returns:
  assumes ok: "pfs_ok P V"
  shows "\<exists>r. copy_loop P src dst s = Some r \<and>
    (\<forall>src' dst' s'. r = (Ok (src', dst'), s') \<longrightarrow>
      pv_key V dst' = pv_key V dst \<and> pv_text V dst' = pv_text V dst @ pv_rest V src)"
proof (induction "length (pv_rest V src)" arbitrary: src dst s rule: less_induct)
  case less
  show ?case
  proof (cases "\<exists>buffer src1 s1 dst1 s2. pf_read P 4096 src s = (Ok (buffer, src1), s1) \<and> buffer \<noteq> [] \<and>
      pf_write P buffer dst s1 = (Ok (length buffer, dst1), s2)")
    case True
    then obtain buffer src1 s1 dst1 s2 where r: "pf_read P 4096 src s = (Ok (buffer, src1), s1)" "buffer \<noteq> []"
      and w: "pf_write P buffer dst s1 = (Ok (length buffer, dst1), s2)" by blast
    have "length (pv_rest V src1) < length (pv_rest V src)" using pfs_read [OF ok r(1)] r(2) by simp
    from less.hyps [OF this, of dst1 s2] pfs_read [OF ok r(1)] pfs_write [OF ok w] r w show ?thesis
      by (subst copy_loop.simps) (auto simp: bind_x_def run_op_def fail_close_def)
  next
    case False
    then show ?thesis
      by (subst copy_loop.simps)
        (auto simp: bind_x_def run_op_def fail_close_def return_op_def dest: pfs_read [OF ok]
          split: prod.splits result.splits)
  qed
qed

lemma create_readable_io_sealed:
  assumes "pfs_ok P V" "create_readable_io P sf s = (Ok f, s')"
  shows "pv_sealed V (file_key (sf_crypto sf)) (pv_rest V f) (tag (sf_cmac sf))"
  using assms(2) pfs_open_sealed [OF assms(1)] unfolding create_readable_io_def
  by (auto simp: res_simps ensure_def split: if_splits)

lemma create_with_bytes_sealed:
  assumes "pfs_ok P V" "create_with_bytes P random p bs s = (Ok sf, s')"
  shows "pv_sealed V (file_key (sf_crypto sf)) bs (tag (sf_cmac sf))"
proof -
  obtain crypto s0 f1 s1 f2 s2 f3 s3 t s4 where r: "random s = (crypto, s0)"
    and c: "pf_create_ex P p (file_key crypto) s0 = (Ok f1, s1)" and w: "pf_write_all P bs f1 s1 = (Ok f2, s2)"
    and fl: "pf_flush P f2 s2 = (Ok f3, s3)" and g: "pf_meta_gmac P f3 s3 = (Ok t, s4)"
    and sf: "sf = StagedFileInfo_new p crypto \<lparr>tag = t\<rparr>"
    using assms(2) unfolding create_with_bytes_def by (auto simp: res_simps split: prod.splits)
  from pfs_flush_sealed [OF assms(1) fl g] pfs_create [OF assms(1) c] pf_write_all_text [OF assms(1) w]
  show ?thesis by (simp add: sf StagedFileInfo_new_def)
qed

lemma convert_file_sealed:
  assumes "pfs_ok P V" "convert_file P sf dst crypto s = Some (Ok out, s')"
  shows "\<exists>f s1. pf_open_ex P (sf_path sf) (file_key (sf_crypto sf)) s = (Ok f, s1) \<and>
    pv_sealed V (file_key crypto) (pv_rest V f) (tag (sf_cmac out))"
proof -
  obtain f s1 d1 s2 r d2 s3 d3 s4 t s5 where o: "pf_open_ex P (sf_path sf) (file_key (sf_crypto sf)) s = (Ok f, s1)"
    and c: "pf_create_ex P dst (file_key crypto) s1 = (Ok d1, s2)" and l: "copy_loop P f d1 s2 = Some (Ok (r, d2), s3)"
    and fl: "pf_flush P d2 s3 = (Ok d3, s4)" and g: "pf_meta_gmac P d3 s4 = (Ok t, s5)"
    and out: "out = StagedFileInfo_new dst crypto \<lparr>tag = t\<rparr>"
    using assms(2) unfolding convert_file_def by (auto simp: res_simps)
  from copy_loop_returns [OF assms(1), of f d1 s2] l pfs_create [OF assms(1) c]
  have "pv_key V d2 = file_key crypto \<and> pv_text V d2 = pv_rest V f" by auto
  with pfs_flush_sealed [OF assms(1) fl g] o show ?thesis by (auto simp: out StagedFileInfo_new_def)
qed

lemma convert_file_returns:
  assumes "pfs_ok P V"
  shows "convert_file P sf dst crypto s \<noteq> None"
proof -
  have "copy_loop P f d s \<noteq> None" for f d s using copy_loop_returns [OF assms, of f d s] by auto
  then show ?thesis unfolding convert_file_def case_prod_unfold by (intro bind_x_returns run_op_returns) simp_all
qed

end
