(* ===== verification/Execution.thy ===== *)
theory Execution
  imports Staged_Files Scheduler
begin

text \<open>
  How the execution service runs a staged task on its files:
  \<^verbatim>\<open>services/execution/enclave/src/task_file_manager.rs\<close>, the worker
  (\<^verbatim>\<open>worker/src/worker.rs\<close>), the default runtime (\<^verbatim>\<open>runtime/src/default.rs\<close>), the dispatch
  to built-in functions (\<^verbatim>\<open>executor/src/builtin.rs\<close>), the call of the file agent
  (\<^verbatim>\<open>ocall.rs\<close>), and \<^verbatim>\<open>prepare_task\<close> and \<^verbatim>\<open>invoke_task\<close> of
  \<^verbatim>\<open>services/execution/enclave/src/service.rs\<close>.

  Everything outside the enclave is the host, with a state of an arbitrary type: its
  file system and the file agent. The record \<open>exec_env\<close> has what the service calls of
  it and of the crates. Nothing is assumed of the host, so the properties hold for one
  that loses, changes or exchanges files at any time. The functions that tasks run are
  arbitrary operations that use the runtime.
\<close>

section \<open>Paths and text\<close>

fun split_on :: "char \<Rightarrow> string \<Rightarrow> string list" where
  "split_on c [] = [[]]"
| "split_on c (x # xs) =
     (if x = c then [] # split_on c xs else (x # hd (split_on c xs)) # tl (split_on c xs))"

definition path_join :: "string \<Rightarrow> string \<Rightarrow> string" where
  "path_join a b =
     (if b \<noteq> [] \<and> hd b = CHR ''/'' then b
      else if a = [] \<or> last a = CHR ''/'' then a @ b
      else a @ ''/'' @ b)"

definition path_file_name :: "string \<Rightarrow> string option" where
  "path_file_name p =
     (case rev (filter (\<lambda>c. c \<noteq> [] \<and> c \<noteq> ''.'') (split_on (CHR ''/'') p)) of
        [] \<Rightarrow> None
      | c # _ \<Rightarrow> if c = ''..'' then None else Some c)"

text \<open>
  \<^verbatim>\<open>String::from_utf8_lossy\<close>: the ranges of the bytes that may follow a first byte, and
  the text with every maximal invalid sequence replaced by U+FFFD.
\<close>

definition utf8_follow :: "byte \<Rightarrow> (byte \<times> byte) list option" where
  "utf8_follow b =
     (if b < 0x80 then Some []
      else if 0xC2 \<le> b \<and> b \<le> 0xDF then Some [(0x80, 0xBF)]
      else if b = 0xE0 then Some [(0xA0, 0xBF), (0x80, 0xBF)]
      else if b = 0xED then Some [(0x80, 0x9F), (0x80, 0xBF)]
      else if 0xE1 \<le> b \<and> b \<le> 0xEF then Some [(0x80, 0xBF), (0x80, 0xBF)]
      else if b = 0xF0 then Some [(0x90, 0xBF), (0x80, 0xBF), (0x80, 0xBF)]
      else if 0xF1 \<le> b \<and> b \<le> 0xF3 then Some [(0x80, 0xBF), (0x80, 0xBF), (0x80, 0xBF)]
      else if b = 0xF4 then Some [(0x80, 0x8F), (0x80, 0xBF), (0x80, 0xBF)]
      else None)"

fun utf8_match :: "(byte \<times> byte) list \<Rightarrow> bytes \<Rightarrow> nat" where
  "utf8_match ((lo, hi) # rs) (b # bs) = (if lo \<le> b \<and> b \<le> hi then Suc (utf8_match rs bs) else 0)"
| "utf8_match _ _ = 0"

function from_utf8_lossy :: "bytes \<Rightarrow> bytes" where
  "from_utf8_lossy [] = []"
| "from_utf8_lossy (b # bs) =
     (case utf8_follow b of
        None \<Rightarrow> [0xEF, 0xBF, 0xBD] @ from_utf8_lossy bs
      | Some rs \<Rightarrow>
          let n = utf8_match rs bs in
          (if n = length rs then b # take n bs else [0xEF, 0xBF, 0xBD]) @ from_utf8_lossy (drop n bs))"
  by pat_completeness auto
termination by (relation "measure length") auto

section \<open>The environment\<close>

datatype handle_file_command = Download | Upload

record handle_file_info =
  hfi_local :: string
  hfi_remote :: url

record file_agent_request =
  far_cmd :: handle_file_command
  far_info :: "handle_file_info list"
  far_fusion_base :: string

record ('h, 'f) exec_env =
  xe_pfs :: "('h, 'f) pfs"
  xe_ring :: ring
  xe_uuid :: uuid_lib
  xe_url_path :: "url \<Rightarrow> string"
  xe_random :: "'h \<Rightarrow> teaclave_file_128_key \<times> 'h"
  xe_exists :: "string \<Rightarrow> 'h \<Rightarrow> bool"
  xe_create_dir_all :: "string \<Rightarrow> ('h, unit, anyhow) op"
  xe_soft_link :: "string \<Rightarrow> string \<Rightarrow> ('h, unit, anyhow) op"
  xe_read_all_bytes :: "string \<Rightarrow> ('h, bytes, anyhow) op"
  xe_request_to_vec :: "file_agent_request \<Rightarrow> bytes anyhow_result"
  xe_ocall :: "bytes \<Rightarrow> 'h \<Rightarrow> (u32 \<times> u32) \<times> 'h"
  xe_iter_inputs :: "function_input_files \<Rightarrow> (string \<times> function_input_file) list"
  xe_iter_outputs :: "function_output_files \<Rightarrow> (string \<times> function_output_file) list"

text \<open>The iteration over a hash map yields every entry once.\<close>

definition yields :: "(string, 'a) fmap \<Rightarrow> (string \<times> 'a) list \<Rightarrow> bool" where
  "yields m kvs \<longleftrightarrow> distinct (map fst kvs) \<and> map_of kvs = fmlookup m"

text \<open>The status 0 is \<^verbatim>\<open>SGX_SUCCESS\<close>; the call also returns the result of the file agent.\<close>

definition handle_file_request :: "('h, 'f) exec_env \<Rightarrow> file_agent_request \<Rightarrow> ('h, unit, anyhow) op" where
  "handle_file_request X request =
     bind_op (return_op (xe_request_to_vec X request)) (\<lambda>bs s.
     case xe_ocall X bs s of ((res, rt), s') \<Rightarrow>
       (bind_result (ensure (res = 0) (Anyhow ''ocall sgx_error = {:?}'' [FNum (unat res)])) (\<lambda>_.
        ensure (rt = 0) (Anyhow ''ocall error = {:?}'' [FNum (unat rt)])), s'))"

section \<open>The file manager of a task\<close>

record inter_input =
  ii_funiq_key :: string
  ii_file :: function_input_file
  ii_download_path :: string
  ii_staged_path :: string

record inter_output =
  io_funiq_key :: string
  io_file :: function_output_file
  io_upload_path :: string
  io_staged_info :: staged_file_info

record task_file_manager =
  inter_inputs :: "inter_input list"
  inter_outputs :: "inter_output list"
  fusion_base :: string

text \<open>The two paths of a file differ in the directory only.\<close>

definition make_path_in :: "('h, 'f) exec_env \<Rightarrow> string \<Rightarrow> string \<Rightarrow> url \<Rightarrow> ('h, string, anyhow) op" where
  "make_path_in X base dir url =
     bind_op (return_op (ok_or (Anyhow ''Cannot get filename from url: {:?}'' [FStr url])
       (path_file_name (xe_url_path X url)))) (\<lambda>original_name.
     let file_dir = path_join base dir in
     bind_op (\<lambda>s. if xe_exists X file_dir s then (Ok (), s) else xe_create_dir_all X file_dir s) (\<lambda>_.
     return_op (Ok (path_join file_dir original_name))))"

definition make_staged_path :: "('h, 'f) exec_env \<Rightarrow> string \<Rightarrow> string \<Rightarrow> url \<Rightarrow> ('h, string, anyhow) op" where
  "make_staged_path X base funiq_key url = make_path_in X base (funiq_key @ ''-staged'') url"

definition make_intermediate_path :: "('h, 'f) exec_env \<Rightarrow> string \<Rightarrow> string \<Rightarrow> url \<Rightarrow> ('h, string, anyhow) op" where
  "make_intermediate_path X base funiq_key url = make_path_in X base funiq_key url"

definition InterInput_new ::
    "('h, 'f) exec_env \<Rightarrow> string \<Rightarrow> string \<Rightarrow> function_input_file \<Rightarrow> ('h, inter_input, anyhow) op" where
  "InterInput_new X base funiq_key file =
     bind_op (make_intermediate_path X base funiq_key (fif_url file)) (\<lambda>download_path.
     bind_op (make_staged_path X base funiq_key (fif_url file)) (\<lambda>staged_path.
     return_op (Ok \<lparr>ii_funiq_key = funiq_key, ii_file = file, ii_download_path = download_path,
       ii_staged_path = staged_path\<rparr>)))"

definition InterOutput_new ::
    "('h, 'f) exec_env \<Rightarrow> string \<Rightarrow> string \<Rightarrow> function_output_file \<Rightarrow> ('h, inter_output, anyhow) op" where
  "InterOutput_new X base funiq_key file =
     bind_op (make_intermediate_path X base funiq_key (fof_url file)) (\<lambda>upload_path.
     bind_op (make_staged_path X base funiq_key (fof_url file)) (\<lambda>staged_path s.
     case xe_random X s of (random_key, s') \<Rightarrow>
       (Ok \<lparr>io_funiq_key = funiq_key, io_file = file, io_upload_path = upload_path,
          io_staged_info = StagedFileInfo_new staged_path random_key \<lparr>tag = replicate FILE_AUTH_TAG_LENGTH 0\<rparr>\<rparr>, s')))"

text \<open>Collecting into a \<^verbatim>\<open>Result\<close> stops at the first error.\<close>

fun collect_op :: "('a \<Rightarrow> ('s, 'b, 'e) op) \<Rightarrow> 'a list \<Rightarrow> ('s, 'b list, 'e) op" where
  "collect_op f [] = return_op (Ok [])"
| "collect_op f (x # xs) = bind_op (f x) (\<lambda>y. bind_op (collect_op f xs) (\<lambda>ys. return_op (Ok (y # ys))))"

fun collect_x :: "('a \<Rightarrow> ('s, 'b) xop) \<Rightarrow> 'a list \<Rightarrow> ('s, 'b list) xop" where
  "collect_x f [] = run_op (return_op (Ok []))"
| "collect_x f (x # xs) = bind_x (f x) (\<lambda>y. bind_x (collect_x f xs) (\<lambda>ys. run_op (return_op (Ok (y # ys)))))"

definition TaskFileManager_new ::
    "('h, 'f) exec_env \<Rightarrow> string \<Rightarrow> string \<Rightarrow> uuid \<Rightarrow> function_input_files \<Rightarrow> function_output_files
     \<Rightarrow> ('h, task_file_manager, anyhow) op" where
  "TaskFileManager_new X inter_base fb tid inputs outputs =
     (let cwd = path_join inter_base (uuid_to_string (xe_uuid X) tid) in
      bind_op (collect_op (\<lambda>(k, f). InterInput_new X (path_join cwd ''inputs'') k f) (xe_iter_inputs X inputs)) (\<lambda>iis.
      bind_op (collect_op (\<lambda>(k, f). InterOutput_new X (path_join cwd ''outputs'') k f) (xe_iter_outputs X outputs)) (\<lambda>ios.
      return_op (Ok \<lparr>inter_inputs = iis, inter_outputs = ios, fusion_base = fb\<rparr>))))"

text \<open>
  The checks of a downloaded AES-GCM file before it is decrypted; the length is
  tested first, so the slice is in range.
\<close>

definition check_aes_file :: "string \<Rightarrow> string \<Rightarrow> string \<Rightarrow> file_auth_tag \<Rightarrow> bytes \<Rightarrow> unit anyhow_result" where
  "check_aes_file length_error tag_error src cmac bs =
     bind_result (ensure (length bs > FILE_AUTH_TAG_LENGTH) (Anyhow length_error [FStr src])) (\<lambda>_.
     ensure (tag cmac = drop (length bs - FILE_AUTH_TAG_LENGTH) bs) (Anyhow tag_error [FStr src]))"

definition to_staged_file_entry :: "('h, 'f) exec_env \<Rightarrow> inter_input \<Rightarrow> ('h, string \<times> staged_file_info, anyhow) op" where
  "to_staged_file_entry X ii =
     (let src = ii_download_path ii; dst = ii_staged_path ii; cmac = fif_cmac (ii_file ii) in
      bind_op
        (case fif_crypto (ii_file ii) of
           TeaclaveFile128 crypto \<Rightarrow>
             bind_op (xe_soft_link X src dst) (\<lambda>_.
             return_op (Ok (StagedFileInfo_new src crypto cmac)))
         | AesGcm128 crypto \<Rightarrow>
             bind_op (xe_read_all_bytes X src) (\<lambda>bs.
             bind_op (return_op (check_aes_file ''AesGcm128 File, invalid length: {:?}''
               ''AesGcm128 File, invalid tag: {:?}'' src cmac bs)) (\<lambda>_.
             bind_op (return_op (AesGcm128Key_decrypt (xe_ring X) crypto bs)) (\<lambda>(_, plain).
             create_with_bytes (xe_pfs X) (xe_random X) dst plain)))
         | AesGcm256 crypto \<Rightarrow>
             bind_op (xe_read_all_bytes X src) (\<lambda>bs.
             bind_op (return_op (check_aes_file ''AesGcm256 File, invalid length: {:?}''
               ''AesGcm256 File, invalid tag: {:?}'' src cmac bs)) (\<lambda>_.
             bind_op (return_op (AesGcm256Key_decrypt (xe_ring X) crypto bs)) (\<lambda>(_, plain).
             create_with_bytes (xe_pfs X) (xe_random X) dst plain)))
         | Raw \<Rightarrow>
             bind_op (xe_read_all_bytes X src) (\<lambda>bs. create_with_bytes (xe_pfs X) (xe_random X) dst bs))
        (\<lambda>info. return_op (Ok (ii_funiq_key ii, info))))"

definition download_inputs :: "('h, 'f) exec_env \<Rightarrow> task_file_manager \<Rightarrow> ('h, unit, anyhow) op" where
  "download_inputs X mgr =
     handle_file_request X
       \<lparr>far_cmd = Download,
        far_info = map (\<lambda>ii. \<lparr>hfi_local = ii_download_path ii, hfi_remote = fif_url (ii_file ii)\<rparr>) (inter_inputs mgr),
        far_fusion_base = fusion_base mgr\<rparr>"

definition convert_to_staged_files :: "('h, 'f) exec_env \<Rightarrow> task_file_manager \<Rightarrow> ('h, staged_files, anyhow) op" where
  "convert_to_staged_files X mgr =
     bind_op (collect_op (to_staged_file_entry X) (inter_inputs mgr)) (\<lambda>kvs. return_op (Ok (fmap_of_list (rev kvs))))"

definition prepare_staged_inputs :: "('h, 'f) exec_env \<Rightarrow> task_file_manager \<Rightarrow> ('h, staged_files, anyhow) op" where
  "prepare_staged_inputs X mgr = bind_op (download_inputs X mgr) (\<lambda>_. convert_to_staged_files X mgr)"

definition prepare_staged_outputs :: "task_file_manager \<Rightarrow> staged_files anyhow_result" where
  "prepare_staged_outputs mgr =
     Ok (fmap_of_list (rev (map (\<lambda>out. (io_funiq_key out, io_staged_info out)) (inter_outputs mgr))))"

definition convert_to_upload_file :: "('h, 'f) exec_env \<Rightarrow> inter_output \<Rightarrow> ('h, file_auth_tag) xop" where
  "convert_to_upload_file X out =
     (case fof_crypto (io_file out) of
        TeaclaveFile128 crypto \<Rightarrow>
          bind_x (convert_file (xe_pfs X) (io_staged_info out) (io_upload_path out) crypto) (\<lambda>outfile.
          run_op (return_op (Ok (sf_cmac outfile))))
      | _ \<Rightarrow> run_op (return_op (Err (Anyhow ''OutputFile: unsupported type'' []))))"

definition convert_staged_files_for_upload :: "('h, 'f) exec_env \<Rightarrow> task_file_manager \<Rightarrow> ('h, outputs_tags) xop" where
  "convert_staged_files_for_upload X mgr =
     bind_x (collect_x (\<lambda>out. bind_x (convert_to_upload_file X out) (\<lambda>cmac. run_op (return_op (Ok (io_funiq_key out, cmac)))))
       (inter_outputs mgr)) (\<lambda>kvs. run_op (return_op (Ok (fmap_of_list (rev kvs)))))"

definition upload :: "('h, 'f) exec_env \<Rightarrow> task_file_manager \<Rightarrow> ('h, unit, anyhow) op" where
  "upload X mgr =
     handle_file_request X
       \<lparr>far_cmd = Upload,
        far_info = map (\<lambda>out. \<lparr>hfi_local = io_upload_path out, hfi_remote = fof_url (io_file out)\<rparr>) (inter_outputs mgr),
        far_fusion_base = fusion_base mgr\<rparr>"

definition upload_outputs :: "('h, 'f) exec_env \<Rightarrow> task_file_manager \<Rightarrow> ('h, outputs_tags) xop" where
  "upload_outputs X mgr =
     bind_x (convert_staged_files_for_upload X mgr) (\<lambda>auth_tags.
     bind_x (run_op (upload X mgr)) (\<lambda>_. run_op (return_op (Ok auth_tags))))"

section \<open>Runtime and worker\<close>

record ('h, 'f) runtime =
  rt_open_input :: "string \<Rightarrow> ('h, 'f, anyhow) op"
  rt_create_output :: "string \<Rightarrow> ('h, 'f, anyhow) op"

definition default_open_input :: "('h, 'f) pfs \<Rightarrow> staged_files \<Rightarrow> string \<Rightarrow> ('h, 'f, anyhow) op" where
  "default_open_input P input_files ident =
     bind_op (return_op (ok_or (Anyhow ''Invalid input file identifier.'' []) (fmlookup input_files ident)))
       (create_readable_io P)"

definition default_create_output :: "('h, 'f) pfs \<Rightarrow> staged_files \<Rightarrow> string \<Rightarrow> ('h, 'f, anyhow) op" where
  "default_create_output P output_files ident =
     bind_op (return_op (ok_or (Anyhow ''Invalid output file identifier'' []) (fmlookup output_files ident)))
       (create_writable_io P)"

definition DefaultRuntime_new :: "('h, 'f) pfs \<Rightarrow> staged_files \<Rightarrow> staged_files \<Rightarrow> ('h, 'f) runtime" where
  "DefaultRuntime_new P input_files output_files =
     \<lparr>rt_open_input = default_open_input P input_files, rt_create_output = default_create_output P output_files\<rparr>"

record staged_function =
  sfn_name :: string
  sfn_arguments :: function_arguments
  sfn_payload :: string
  sfn_input_files :: staged_files
  sfn_output_files :: staged_files
  sfn_executor_type :: executor_type
  sfn_executor :: executor
  sfn_runtime_name :: string

type_synonym ('h, 'f) executor_fn =
  "string \<Rightarrow> function_arguments \<Rightarrow> string \<Rightarrow> ('h, 'f) runtime \<Rightarrow> ('h, string) xop"

text \<open>The functions that were compiled in, by name.\<close>

type_synonym ('h, 'f) builtins = "string \<Rightarrow> (function_arguments \<Rightarrow> ('h, 'f) runtime \<Rightarrow> ('h, string) xop) option"

definition builtin_execute :: "('h, 'f) builtins \<Rightarrow> ('h, 'f) executor_fn" where
  "builtin_execute B name arguments _ rt =
     (case B name of
        Some run \<Rightarrow> run arguments rt
      | None \<Rightarrow> run_op (return_op (Err (Anyhow ''Function not found.'' []))))"

record ('h, 'f) worker =
  wk_runtimes :: "string \<Rightarrow> (staged_files \<Rightarrow> staged_files \<Rightarrow> ('h, 'f) runtime) option"
  wk_executors :: "executor_type \<times> executor \<Rightarrow> ('h, 'f) executor_fn option"

definition Worker_default :: "('h, 'f) pfs \<Rightarrow> ('h, 'f) executor_fn \<Rightarrow> ('h, 'f) builtins \<Rightarrow> ('h, 'f) worker" where
  "Worker_default P mesapy B =
     \<lparr>wk_runtimes = [''default'' \<mapsto> DefaultRuntime_new P],
      wk_executors = [(Python, MesaPy) \<mapsto> mesapy, (Builtin, BuiltinExecutor) \<mapsto> builtin_execute B]\<rparr>"

definition get_runtime :: "('h, 'f) worker \<Rightarrow> string \<Rightarrow> staged_files \<Rightarrow> staged_files \<Rightarrow> ('h, 'f) runtime anyhow_result" where
  "get_runtime w name input_files output_files =
     bind_result (ok_or (Anyhow ''Runtime {} not available.'' [FStr name]) (wk_runtimes w name)) (\<lambda>build_runtime.
     Ok (build_runtime input_files output_files))"

definition get_executor :: "('h, 'f) worker \<Rightarrow> executor_type \<Rightarrow> executor \<Rightarrow> ('h, 'f) executor_fn anyhow_result" where
  "get_executor w t e =
     ok_or (Anyhow ''function not available: {:?}'' [FStr (ExecutorType_to_string t), FStr (Executor_to_string e)])
       (wk_executors w (t, e))"

definition invoke_function :: "('h, 'f) worker \<Rightarrow> staged_function \<Rightarrow> ('h, string) xop" where
  "invoke_function w fn =
     bind_x (run_op (return_op (get_executor w (sfn_executor_type fn) (sfn_executor fn)))) (\<lambda>execute.
     bind_x (run_op (return_op (get_runtime w (sfn_runtime_name fn) (sfn_input_files fn) (sfn_output_files fn)))) (\<lambda>rt.
     execute (sfn_name fn) (sfn_arguments fn) (sfn_payload fn) rt))"

section \<open>Running a task\<close>

definition WORKER_BASE_DIR :: string where
  "WORKER_BASE_DIR = ''/tmp/teaclave_agent/''"

definition prepare_task :: "('h, 'f) exec_env \<Rightarrow> staged_task \<Rightarrow> task_file_manager \<Rightarrow> ('h, staged_function, anyhow) op" where
  "prepare_task X st mgr =
     bind_op (prepare_staged_inputs X mgr) (\<lambda>input_files.
     bind_op (return_op (prepare_staged_outputs mgr)) (\<lambda>output_files.
     return_op (Ok
       \<lparr>sfn_name = st_function_name st, sfn_arguments = st_function_arguments st,
        sfn_payload = map (\<lambda>b. char_of (unat b)) (from_utf8_lossy (st_function_payload st)), sfn_input_files = input_files,
        sfn_output_files = output_files, sfn_executor_type = st_executor_type st,
        sfn_executor = st_executor st, sfn_runtime_name = ''default''\<rparr>)))"

text \<open>\<^verbatim>\<open>invoke_task\<close> after the status update, which \<open>exec_invoke_task\<close> models.\<close>

definition run_task ::
    "('h, 'f) exec_env \<Rightarrow> ('h, 'f) executor_fn \<Rightarrow> ('h, 'f) builtins \<Rightarrow> string \<Rightarrow> staged_task \<Rightarrow> ('h, task_outputs) xop" where
  "run_task X mesapy B fb st =
     bind_x (run_op (TaskFileManager_new X WORKER_BASE_DIR fb (st_task_id st) (st_input_data st) (st_output_data st))) (\<lambda>mgr.
     bind_x (run_op (prepare_task X st mgr)) (\<lambda>invocation.
     bind_x (invoke_function (Worker_default (xe_pfs X) mesapy B) invocation) (\<lambda>summary.
     bind_x (upload_outputs X mgr) (\<lambda>outputs_tag.
     run_op (return_op (Ok \<lparr>return_value = into_bytes summary, tags_map = outputs_tag\<rparr>))))))"

section \<open>Entries of the file tables\<close>

lemma collect_op_Ok:
  "collect_op f xs s = (Ok ys, s') \<Longrightarrow> list_all2 (\<lambda>x y. \<exists>s s'. f x s = (Ok y, s')) xs ys"
  by (induction xs arbitrary: ys s) (auto simp: res_simps)

lemma collect_x_Ok:
  "collect_x f xs s = Some (Ok ys, s') \<Longrightarrow> list_all2 (\<lambda>x y. \<exists>s s'. f x s = Some (Ok y, s')) xs ys"
  by (induction xs arbitrary: ys s) (auto simp: res_simps)

lemma collect_x_returns: "(\<And>x s. f x s \<noteq> None) \<Longrightarrow> collect_x f xs s \<noteq> None"
  by (induction xs arbitrary: s) (simp_all add: run_op_returns bind_x_returns)

text \<open>A table built from another, entry by entry.\<close>

lemma collected_lookup:
  assumes "yields m kvs" and "list_all2 R kvs ys" and "\<And>k a k' b. R (k, a) (k', b) \<Longrightarrow> k' = k"
  shows "fmdom (fmap_of_list (rev ys)) = fmdom m"
    and "fmlookup m n = Some a \<Longrightarrow> \<exists>b. fmlookup (fmap_of_list (rev ys)) n = Some b \<and> R (n, a) (n, b)"
proof -
  have keys: "map fst ys = map fst kvs"
    using assms(2,3) by (induction rule: list_all2_induct) auto
  have dist: "distinct (map fst ys)" using keys assms(1) by (simp add: yields_def)
  then have look: "fmlookup (fmap_of_list (rev ys)) = map_of ys"
    using map_of_inject_set [of "rev ys" ys] by (simp add: fmlookup_of_list flip: rev_map)
  have "dom (map_of ys) = dom (fmlookup m)"
    using keys assms(1) by (metis dom_map_of_conv_image_fst list.set_map yields_def)
  with look show "fmdom (fmap_of_list (rev ys)) = fmdom m"
    by (metis fmdom'_alt_def fmdom'.rep_eq fset_inverse)
  assume "fmlookup m n = Some a"
  then have "map_of kvs n = Some a" using assms(1) by (simp add: yields_def)
  with assms(2) have "\<exists>b. map_of ys n = Some b \<and> R (n, a) (n, b)"
    by (induction rule: list_all2_induct) (auto dest: assms(3) split: if_splits)
  with look show "\<exists>b. fmlookup (fmap_of_list (rev ys)) n = Some b \<and> R (n, a) (n, b)" by simp
qed

lemma InterInput_new_file:
  "InterInput_new X base k f s = (Ok ii, s') \<Longrightarrow> ii_funiq_key ii = k \<and> ii_file ii = f"
  by (auto simp: InterInput_new_def res_simps)

lemma InterOutput_new_file:
  "InterOutput_new X base k f s = (Ok out, s') \<Longrightarrow> io_funiq_key out = k \<and> io_file out = f"
  by (auto simp: InterOutput_new_def res_simps case_prod_beta)

lemma file_manager_files:
  assumes "TaskFileManager_new X base fb tid inputs outputs s = (Ok mgr, s')"
  shows "list_all2 (\<lambda>(k, f) ii. ii_funiq_key ii = k \<and> ii_file ii = f) (xe_iter_inputs X inputs) (inter_inputs mgr)"
    and "list_all2 (\<lambda>(k, f) out. io_funiq_key out = k \<and> io_file out = f) (xe_iter_outputs X outputs) (inter_outputs mgr)"
  using assms unfolding TaskFileManager_new_def Let_def
  by (auto simp: res_simps dest!: collect_op_Ok InterInput_new_file InterOutput_new_file elim!: list_all2_mono)

section \<open>Inputs\<close>

text \<open>
  Authenticity of the AEAD: under a key and a nonce, a buffer that opens and has the
  tag of a sealed message holds that message.
\<close>

definition ring_auth :: "ring \<Rightarrow> bool" where
  "ring_auth rg \<longleftrightarrow>
     (\<forall>alg k iv aad c buf n p c'. open_in_place rg alg k iv aad c = Some (buf, n) \<and>
        seal_in_place_append_tag rg alg k iv aad p = Some c' \<and>
        drop (length c - 16) c = drop (length c' - 16) c' \<longrightarrow> take n buf = p)"

text \<open>What the owner of an input registered: the key, and the tag of the encrypted contents.\<close>

fun owner_sealed :: "ring \<Rightarrow> 'f pfs_view \<Rightarrow> file_crypto \<Rightarrow> bytes \<Rightarrow> file_auth_tag \<Rightarrow> bool" where
  "owner_sealed rg V (AesGcm128 k) p t \<longleftrightarrow> (\<exists>c. AesGcm128Key_encrypt rg k p = Ok (tag t, c))"
| "owner_sealed rg V (AesGcm256 k) p t \<longleftrightarrow> (\<exists>c. AesGcm256Key_encrypt rg k p = Ok (tag t, c))"
| "owner_sealed rg V (TeaclaveFile128 k) p t \<longleftrightarrow> pv_sealed V (file_key k) p (tag t)"
| "owner_sealed rg V Raw p t \<longleftrightarrow> False"

lemma aes_gcm_authentic:
  assumes "ring_auth rg" "aes_gcm_encrypt rg alg k iv p = Ok (t, c)" "aes_gcm_decrypt rg alg k iv bs = Ok (t', plain)"
    "t = drop (length bs - 16) bs"
  shows "plain = p"
proof -
  have "seal_in_place_append_tag rg alg k iv (replicate 8 0) p = Some c" "t = drop (length c - 16) c"
    using assms(2) by (auto simp: aes_gcm_encrypt_def aead_encrypt_def res_simps CMAC_LENGTH_def split: if_splits)
  moreover obtain buf n where "open_in_place rg alg k iv (replicate 8 0) bs = Some (buf, n)" "plain = take n buf"
    using assms(3)
    by (auto simp: aes_gcm_decrypt_def aead_decrypt_def res_simps Let_def split: if_splits)
  ultimately show ?thesis using assms(1,4) unfolding ring_auth_def by metis
qed

lemma staged_entry_key: "to_staged_file_entry X ii s = (Ok (k, info), s') \<Longrightarrow> k = ii_funiq_key ii"
  by (auto simp: to_staged_file_entry_def Let_def res_simps)

lemma aes_entry:
  assumes "bind_op (xe_read_all_bytes X src) (\<lambda>bs. bind_op (return_op (check_aes_file e1 e2 src cmac bs)) (\<lambda>_.
      bind_op (return_op (decrypt bs)) (\<lambda>(_, plain). create_with_bytes P random dst plain))) s = (Ok info, s')"
  obtains bs t plain s1 where "tag cmac = drop (length bs - 16) bs" "decrypt bs = Ok (t, plain)"
    "create_with_bytes P random dst plain s1 = (Ok info, s')"
proof -
  obtain bs s1 t plain where "check_aes_file e1 e2 src cmac bs = Ok ()" "decrypt bs = Ok (t, plain)"
    "create_with_bytes P random dst plain s1 = (Ok info, s')"
    using assms by (auto simp: bind_op_def return_op_def split: prod.splits result.splits)
  then show thesis using that by (simp add: check_aes_file_def res_simps FILE_AUTH_TAG_LENGTH_def)
qed

lemma staged_entry_sealed:
  assumes ok: "pfs_ok (xe_pfs X) V" "ring_auth (xe_ring X)"
    and entry: "to_staged_file_entry X ii s = (Ok (k, info), s')"
    and owner: "owner_sealed (xe_ring X) V (fif_crypto (ii_file ii)) p (fif_cmac (ii_file ii))"
  shows "pv_sealed V (file_key (sf_crypto info)) p (tag (sf_cmac info))"
proof (cases "fif_crypto (ii_file ii)")
  case (AesGcm128 key)
  with entry obtain bs s1 t plain s2 where "tag (fif_cmac (ii_file ii)) = drop (length bs - 16) bs"
    "AesGcm128Key_decrypt (xe_ring X) key bs = Ok (t, plain)"
    and made: "create_with_bytes (xe_pfs X) (xe_random X) (ii_staged_path ii) plain s1 = (Ok info, s2)"
    by (auto simp: to_staged_file_entry_def Let_def bind_op_Ok_iff [of _ "\<lambda>info. return_op (Ok (ii_funiq_key ii, info))"]
        return_op_iff elim!: aes_entry)
  with owner AesGcm128 have "plain = p"
    using aes_gcm_authentic [OF ok(2)] by (auto simp: AesGcm128Key_encrypt_def AesGcm128Key_decrypt_def)
  with create_with_bytes_sealed [OF ok(1) made] show ?thesis by simp
next
  case (AesGcm256 key)
  with entry obtain bs s1 t plain s2 where "tag (fif_cmac (ii_file ii)) = drop (length bs - 16) bs"
    "AesGcm256Key_decrypt (xe_ring X) key bs = Ok (t, plain)"
    and made: "create_with_bytes (xe_pfs X) (xe_random X) (ii_staged_path ii) plain s1 = (Ok info, s2)"
    by (auto simp: to_staged_file_entry_def Let_def bind_op_Ok_iff [of _ "\<lambda>info. return_op (Ok (ii_funiq_key ii, info))"]
        return_op_iff elim!: aes_entry)
  with owner AesGcm256 have "plain = p"
    using aes_gcm_authentic [OF ok(2)] by (auto simp: AesGcm256Key_encrypt_def AesGcm256Key_decrypt_def)
  with create_with_bytes_sealed [OF ok(1) made] show ?thesis by simp
next
  case (TeaclaveFile128 key)
  with entry owner show ?thesis
    by (auto simp: to_staged_file_entry_def Let_def res_simps StagedFileInfo_new_def)
next
  case Raw
  with owner show ?thesis by simp
qed

lemma staged_input:
  assumes mgr: "TaskFileManager_new X base fb tid inputs outputs s0 = (Ok mgr, s1)"
    and "yields inputs (xe_iter_inputs X inputs)" and "fmlookup inputs n = Some file"
    and "prepare_staged_inputs X mgr s2 = (Ok staged, s3)"
  shows "\<exists>info ii s s'. fmlookup staged n = Some info \<and> ii_file ii = file \<and>
    to_staged_file_entry X ii s = (Ok (n, info), s')"
proof -
  let ?R = "\<lambda>(k, f) (k', info). \<exists>ii s s'. ii_funiq_key ii = k \<and> ii_file ii = f \<and>
    to_staged_file_entry X ii s = (Ok (k', info), s')"
  obtain kvs s where kvs: "collect_op (to_staged_file_entry X) (inter_inputs mgr) s = (Ok kvs, s3)"
    and staged: "staged = fmap_of_list (rev kvs)"
    using assms(4) by (auto simp: prepare_staged_inputs_def convert_to_staged_files_def res_simps)
  have "list_all2 ?R (xe_iter_inputs X inputs) kvs"
    using file_manager_files(1) [OF mgr] collect_op_Ok [OF kvs] by (rule list_all2_trans [rotated]) blast
  from collected_lookup(2) [OF assms(2) this _ assms(3)] show ?thesis
    unfolding staged by (fastforce dest: staged_entry_key)
qed

section \<open>Outputs\<close>

lemma uploaded_outputs:
  assumes mgr: "TaskFileManager_new X base fb tid inputs outputs s0 = (Ok mgr, s1)"
    and "yields outputs (xe_iter_outputs X outputs)" and "upload_outputs X mgr s2 = Some (Ok tags, s3)"
  shows "fmdom tags = fmdom outputs"
    and "fmlookup outputs n = Some file \<Longrightarrow> \<exists>t io s s'. fmlookup tags n = Some t \<and> io \<in> set (inter_outputs mgr) \<and>
      io_funiq_key io = n \<and> io_file io = file \<and> convert_to_upload_file X io s = Some (Ok t, s')"
proof -
  let ?Q = "\<lambda>io (k, t). io \<in> set (inter_outputs mgr) \<and> io_funiq_key io = k \<and>
    (\<exists>s s'. convert_to_upload_file X io s = Some (Ok t, s'))"
  let ?R = "\<lambda>(k, f) (k', t). \<exists>io. io_file io = f \<and> k' = k \<and> ?Q io (k, t)"
  obtain kvs s s' where kvs: "collect_x (\<lambda>out. bind_x (convert_to_upload_file X out)
      (\<lambda>cmac. run_op (return_op (Ok (io_funiq_key out, cmac))))) (inter_outputs mgr) s = Some (Ok kvs, s')"
    and tags: "tags = fmap_of_list (rev kvs)"
    using assms(3) by (auto simp: upload_outputs_def convert_staged_files_for_upload_def res_simps)
  have "list_all2 ?Q (inter_outputs mgr) kvs"
    using collect_x_Ok [OF kvs] by (rule list.rel_mono_strong) (auto simp: res_simps)
  with file_manager_files(2) [OF mgr] have R: "list_all2 ?R (xe_iter_outputs X outputs) kvs"
    by (rule list_all2_trans [rotated]) fastforce
  show "fmdom tags = fmdom outputs"
    unfolding tags by (rule collected_lookup(1) [OF assms(2) R]) auto
  assume "fmlookup outputs n = Some file"
  from collected_lookup(2) [OF assms(2) R _ this] show "\<exists>t io s s'. fmlookup tags n = Some t \<and> io \<in> set (inter_outputs mgr) \<and>
      io_funiq_key io = n \<and> io_file io = file \<and> convert_to_upload_file X io s = Some (Ok t, s')"
    unfolding tags by fastforce
qed

lemma staged_output:
  assumes mgr: "TaskFileManager_new X base fb tid inputs outputs s0 = (Ok mgr, s1)"
    and "yields outputs (xe_iter_outputs X outputs)" and "io \<in> set (inter_outputs mgr)"
    and "prepare_staged_outputs mgr = Ok staged"
  shows "fmlookup staged (io_funiq_key io) = Some (io_staged_info io)"
proof -
  have "map io_funiq_key (inter_outputs mgr) = map fst (xe_iter_outputs X outputs)"
    using file_manager_files(2) [OF mgr] by (induction rule: list_all2_induct) auto
  with assms(2) have "distinct (map fst (map (\<lambda>out. (io_funiq_key out, io_staged_info out)) (inter_outputs mgr)))"
    by (simp add: yields_def comp_def)
  moreover from this have "distinct (map fst (rev (map (\<lambda>out. (io_funiq_key out, io_staged_info out)) (inter_outputs mgr))))"
    by (simp flip: rev_map)
  ultimately show ?thesis using assms(3,4)
    by (auto simp: prepare_staged_outputs_def fmlookup_of_list intro!: map_of_is_SomeI)
qed

lemma convert_upload_type: "convert_to_upload_file X io s = Some (Ok t, s') \<Longrightarrow> \<exists>k. fof_crypto (io_file io) = TeaclaveFile128 k"
  by (cases "fof_crypto (io_file io)") (auto simp: convert_to_upload_file_def res_simps)

lemma convert_upload_sealed:
  assumes "pfs_ok (xe_pfs X) V" "convert_to_upload_file X io s = Some (Ok t, s')"
  shows "\<exists>k f s1. fof_crypto (io_file io) = TeaclaveFile128 k \<and>
    pf_open_ex (xe_pfs X) (sf_path (io_staged_info io)) (file_key (sf_crypto (io_staged_info io))) s = (Ok f, s1) \<and>
    pv_sealed V (file_key k) (pv_rest V f) (tag t)"
  using assms(2) convert_file_sealed [OF assms(1)]
  by (fastforce simp: convert_to_upload_file_def res_simps split: file_crypto.splits)

lemma upload_outputs_returns:
  assumes "pfs_ok (xe_pfs X) V"
  shows "upload_outputs X mgr s \<noteq> None"
proof -
  have "convert_to_upload_file X io s \<noteq> None" for io s
    unfolding convert_to_upload_file_def
    by (cases "fof_crypto (io_file io)")
      (simp_all only: file_crypto.case, (intro bind_x_returns run_op_returns convert_file_returns [OF assms])+)
  then show ?thesis
    unfolding upload_outputs_def convert_staged_files_for_upload_def
    by (intro bind_x_returns run_op_returns collect_x_returns) simp_all
qed

section \<open>Workers and paths\<close>

lemma worker_executors:
  assumes "invoke_function (Worker_default P mesapy B) fn s = Some (Ok r, s')"
  shows "(sfn_executor_type fn, sfn_executor fn) \<in> {(Python, MesaPy), (Builtin, BuiltinExecutor)}"
  using assms by (auto simp: invoke_function_def get_executor_def Worker_default_def res_simps ok_or_def split: if_splits)

lemma make_path_in_result:
  "make_path_in X base dir url s = (Ok p, s') \<Longrightarrow> p = path_join (path_join base dir) (the (path_file_name (xe_url_path X url)))"
  by (auto simp: make_path_in_def res_simps Let_def ok_or_def split: option.splits)

lemma file_manager_input:
  assumes "TaskFileManager_new X base fb tid inputs outputs s0 = (Ok mgr, s1)"
    and "yields inputs (xe_iter_inputs X inputs)" and "fmlookup inputs k = Some f"
  shows "\<exists>ii \<in> set (inter_inputs mgr). ii_funiq_key ii = k \<and> ii_file ii = f \<and>
    (let dir = path_join (path_join base (uuid_to_string (xe_uuid X) tid)) ''inputs'';
         name = the (path_file_name (xe_url_path X (fif_url f)))
     in ii_download_path ii = path_join (path_join dir k) name \<and>
        ii_staged_path ii = path_join (path_join dir (k @ ''-staged'')) name)"
proof -
  let ?dir = "path_join (path_join base (uuid_to_string (xe_uuid X) tid)) ''inputs''"
  have "(k, f) \<in> set (xe_iter_inputs X inputs)" using assms(2,3) by (metis map_of_SomeD yields_def)
  moreover obtain s s' where "collect_op (\<lambda>(k, f). InterInput_new X ?dir k f) (xe_iter_inputs X inputs) s = (Ok (inter_inputs mgr), s')"
    using assms(1) by (auto simp: TaskFileManager_new_def Let_def res_simps)
  ultimately obtain ii s s' where "ii \<in> set (inter_inputs mgr)" "InterInput_new X ?dir k f s = (Ok ii, s')"
    by (fastforce dest!: collect_op_Ok simp: list_all2_conv_all_nth in_set_conv_nth)
  then show ?thesis
    by (intro bexI [of _ ii])
      (auto simp: InterInput_new_def make_intermediate_path_def make_staged_path_def res_simps Let_def
        dest!: make_path_in_result)
qed

end
