(* ===== verification/Execution_Properties.thy ===== *)
theory Execution_Properties
  imports Execution
begin

text \<open>
  What running a task on its files guarantees, and a small host on which the hypotheses
  hold: protected files and AES-GCM files of at most 15 bytes whose tag spells their
  contents, and a function that copies its input to its output.
\<close>

section \<open>A host\<close>

definition demo_tag :: "bytes \<Rightarrow> bytes" where
  "demo_tag p = take 16 (of_nat (length p) # p @ replicate 16 0)"

lemma demo_tag_inj:
  assumes "demo_tag p = demo_tag q" "length p \<le> 15" "length q \<le> 15"
  shows "p = q"
proof -
  have "(of_nat (length p) :: byte) = of_nat (length q)" and pq: "take 15 (p @ replicate 16 0) = take 15 (q @ replicate 16 0)"
    using assms(1) by (simp_all add: demo_tag_def numeral_eq_Suc)
  then have "unat (of_nat (length p) :: byte) = unat (of_nat (length q) :: byte)" by simp
  then have len: "length p = length q" using assms(2,3) by (simp add: unat_of_nat)
  then have "take (length p) (take 15 (p @ replicate 16 0)) = take (length q) (take 15 (q @ replicate 16 0))"
    using pq by simp
  then show ?thesis using assms(2,3) by (simp add: take_take min_def)
qed

record demo_file =
  df_path :: string
  df_key :: bytes
  df_data :: bytes
  df_writing :: bool

record demo_host =
  dh_plain :: "(string \<times> bytes) list"
  dh_sealed :: "(string \<times> bytes \<times> bytes) list"
  dh_keys :: nat

definition demo_fail :: "('h, 'a, anyhow) op" where
  "demo_fail s = (Err (Anyhow ''host'' []), s)"

definition demo_pfs :: "(demo_host, demo_file) pfs" where
  "demo_pfs =
     \<lparr>pf_open_ex = (\<lambda>p k s. case map_of (dh_sealed s) p of
        Some (k', c) \<Rightarrow> if k' = k \<and> length c \<le> 15
          then (Ok \<lparr>df_path = p, df_key = k, df_data = c, df_writing = False\<rparr>, s) else demo_fail s
      | None \<Rightarrow> demo_fail s),
      pf_create_ex = (\<lambda>p k s. (Ok \<lparr>df_path = p, df_key = k, df_data = [], df_writing = True\<rparr>, s)),
      pf_read = (\<lambda>n f s. if df_writing f then demo_fail s
        else (Ok (take n (df_data f), f\<lparr>df_data := drop n (df_data f)\<rparr>), s)),
      pf_write = (\<lambda>bs f s. if df_writing f then (Ok (length bs, f\<lparr>df_data := df_data f @ bs\<rparr>), s) else demo_fail s),
      pf_flush = (\<lambda>f s. if df_writing f \<and> length (df_data f) \<le> 15
        then (Ok f, s\<lparr>dh_sealed := (df_path f, df_key f, df_data f) # dh_sealed s\<rparr>) else demo_fail s),
      pf_meta_gmac = (\<lambda>f s. (Ok (demo_tag (df_data f)), s)),
      pf_close = (\<lambda>f s. s)\<rparr>"

definition demo_view :: "demo_file pfs_view" where
  "demo_view =
     \<lparr>pv_key = df_key, pv_rest = df_data, pv_text = df_data,
      pv_sealed = (\<lambda>k p t. length p \<le> 15 \<and> t = demo_tag p)\<rparr>"

lemma demo_pfs_ok: "pfs_ok demo_pfs demo_view"
  unfolding pfs_ok_def demo_pfs_def demo_view_def
  by (auto simp: demo_fail_def dest: demo_tag_inj split: if_splits option.splits)

definition demo_ring :: ring where
  "demo_ring =
     \<lparr>unbound_key = (\<lambda>_ _. True), nonce = (\<lambda>_. True),
      seal_in_place_append_tag = (\<lambda>_ _ _ _ p. if length p \<le> 15 then Some (p @ demo_tag p) else None),
      open_in_place = (\<lambda>_ _ _ _ c. let n = length c - 16 in
        if n \<le> 15 \<and> c = take n c @ demo_tag (take n c) then Some (c, n) else None)\<rparr>"

lemma length_demo_tag [simp]: "length (demo_tag p) = 16"
  by (simp add: demo_tag_def)

lemma demo_ring_auth: "ring_auth demo_ring"
  unfolding ring_auth_def
proof (intro allI impI, elim conjE)
  fix alg k iv aad c buf n p c'
  assume o: "open_in_place demo_ring alg k iv aad c = Some (buf, n)"
    and s: "seal_in_place_append_tag demo_ring alg k iv aad p = Some c'"
    and t: "drop (length c - 16) c = drop (length c' - 16) c'"
  have c: "buf = c" "n = length c - 16" "n \<le> 15" "c = take n c @ demo_tag (take n c)"
    using o by (auto simp: demo_ring_def Let_def split: if_splits)
  have p: "length p \<le> 15" "c' = p @ demo_tag p" using s by (auto simp: demo_ring_def split: if_splits)
  have "drop n c = demo_tag (take n c)" using c(2,4) by (metis append_eq_conv_conj append_take_drop_id same_append_eq)
  with t c(2) p(2) have "demo_tag (take n c) = demo_tag p" by simp
  then show "take n buf = p" using demo_tag_inj c(1,3) p(1) by (metis length_take min.coboundedI2)
qed

definition demo_input :: function_input_file where
  "demo_input = \<lparr>fif_url = ''/in.txt'', fif_cmac = \<lparr>tag = demo_tag [1, 2, 3]\<rparr>,
     fif_crypto = AesGcm128 \<lparr>key128 = replicate 16 7, iv128 = replicate 12 0\<rparr>\<rparr>"

definition demo_output :: function_output_file where
  "demo_output = \<lparr>fof_url = ''/out.txt'', fof_crypto = TeaclaveFile128 \<lparr>file_key = replicate 16 9\<rparr>\<rparr>"

definition demo_env :: "(demo_host, demo_file) exec_env" where
  "demo_env =
     \<lparr>xe_pfs = demo_pfs, xe_ring = demo_ring, xe_uuid = \<lparr>uuid_to_string = (\<lambda>_. ''t''), uuid_parse_str = (\<lambda>_. None)\<rparr>,
      xe_url_path = (\<lambda>u. u), xe_random = (\<lambda>s. (\<lparr>file_key = replicate 16 (of_nat (dh_keys s))\<rparr>, s\<lparr>dh_keys := dh_keys s + 1\<rparr>)),
      xe_exists = (\<lambda>_ _. True), xe_create_dir_all = (\<lambda>_ s. (Ok (), s)), xe_soft_link = (\<lambda>_ _ s. (Ok (), s)),
      xe_read_all_bytes = (\<lambda>p s. case map_of (dh_plain s) p of Some c \<Rightarrow> (Ok c, s) | None \<Rightarrow> demo_fail s),
      xe_request_to_vec = (\<lambda>_. Ok []), xe_ocall = (\<lambda>_ s. ((0, 0), s)),
      xe_iter_inputs = (\<lambda>_. [(''a'', demo_input)]), xe_iter_outputs = (\<lambda>_. [(''b'', demo_output)])\<rparr>"

definition demo_host0 :: demo_host where
  "demo_host0 =
     \<lparr>dh_plain = [(''/tmp/teaclave_agent/t/inputs/a/in.txt'', [1, 2, 3] @ demo_tag [1, 2, 3])], dh_sealed = [], dh_keys = 0\<rparr>"

definition copy_function :: "function_arguments \<Rightarrow> (demo_host, demo_file) runtime \<Rightarrow> (demo_host, string) xop" where
  "copy_function _ rt =
     bind_x (run_op (rt_open_input rt ''a'')) (\<lambda>f.
     bind_x (run_op (pf_read demo_pfs 4096 f)) (\<lambda>(bs, _).
     bind_x (run_op (rt_create_output rt ''b'')) (\<lambda>w.
     bind_x (run_op (pf_write demo_pfs bs w)) (\<lambda>(_, w).
     bind_x (run_op (pf_flush demo_pfs w)) (\<lambda>_.
     run_op (return_op (Ok ''done'')))))))"

definition copy_task :: staged_task where
  "copy_task =
     \<lparr>st_task_id = 1, st_function_id = 2, st_executor = BuiltinExecutor, st_executor_type = Builtin,
      st_function_name = ''copy'', st_function_arguments = fmempty, st_function_payload = [],
      st_input_data = fmupd ''a'' demo_input fmempty, st_output_data = fmupd ''b'' demo_output fmempty\<rparr>"

declare copy_loop.simps [code]

lemma copy_task_runs:
  "\<exists>outs s'. run_task demo_env (\<lambda>_ _ _ _. run_op demo_fail) [''copy'' \<mapsto> copy_function] ''/fusion'' copy_task demo_host0 =
     Some (Ok outs, s') \<and> fmlookup (tags_map outs) ''b'' = Some \<lparr>tag = demo_tag [1, 2, 3]\<rparr>"
proof -
  have "map_option (\<lambda>r. map_ok (\<lambda>outs. fmlookup (tags_map outs) ''b'') (fst r))
      (run_task demo_env (\<lambda>_ _ _ _. run_op demo_fail) [''copy'' \<mapsto> copy_function] ''/fusion'' copy_task demo_host0) =
    Some (Ok (Some \<lparr>tag = demo_tag [1, 2, 3]\<rparr>))" by code_simp
  then show ?thesis by (auto simp: res_simps)
qed

section \<open>Properties\<close>

text \<open>
  C6. Whatever the host does with the files it downloads, stores and hands back, when a
  function opens an input of its task and gets a file, what it reads is what the owner
  of the input encrypted: the contents whose tag the owner registered with the key, for
  both AES-GCM schemes and for protected files.
\<close>

theorem input_reads_are_authentic:
  assumes "pfs_ok (xe_pfs X) V" and "ring_auth (xe_ring X)" and "yields inputs (xe_iter_inputs X inputs)"
    and "TaskFileManager_new X base fb tid inputs outputs s0 = (Ok mgr, s1)"
    and "prepare_staged_inputs X mgr s2 = (Ok staged, s3)"
    and "fmlookup inputs n = Some file" and "owner_sealed (xe_ring X) V (fif_crypto file) p (fif_cmac file)"
    and "rt_open_input (DefaultRuntime_new (xe_pfs X) staged staged_outputs) n s4 = (Ok f, s5)"
  shows "pv_rest V f = p"
proof -
  obtain info ii s s' where info: "fmlookup staged n = Some info" and ii: "ii_file ii = file"
    and entry: "to_staged_file_entry X ii s = (Ok (n, info), s')"
    using staged_input [OF assms(4,3,6,5)] by blast
  have "pv_sealed V (file_key (sf_crypto info)) p (tag (sf_cmac info))"
    using staged_entry_sealed [OF assms(1,2) entry] assms(7) ii by simp
  moreover have "create_readable_io (xe_pfs X) info s4 = (Ok f, s5)"
    using assms(8) info by (simp add: DefaultRuntime_new_def default_open_input_def bind_op_def return_op_def)
  then have "pv_sealed V (file_key (sf_crypto info)) (pv_rest V f) (tag (sf_cmac info))"
    by (rule create_readable_io_sealed [OF assms(1)])
  ultimately show ?thesis using pfs_sealed_unique [OF assms(1)] by blast
qed

lemma is_ok_fst: "is_ok (fst r) \<longleftrightarrow> (\<exists>a s. r = (Ok a, s))"
  by (cases r) (auto simp: is_ok_iff)

lemma demo_yields:
  "yields (fmupd ''a'' demo_input fmempty) (xe_iter_inputs demo_env (fmupd ''a'' demo_input fmempty))"
  "yields (fmupd ''b'' demo_output fmempty) (xe_iter_outputs demo_env (fmupd ''b'' demo_output fmempty))"
  by (auto simp: yields_def demo_env_def)

definition demo_manager :: "(demo_host, task_file_manager, anyhow) op" where
  "demo_manager = TaskFileManager_new demo_env WORKER_BASE_DIR ''/fusion'' 1 (fmupd ''a'' demo_input fmempty)
     (fmupd ''b'' demo_output fmempty)"

lemma demo_reads:
  "\<exists>mgr s1 staged s2 f s3. demo_manager demo_host0 = (Ok mgr, s1) \<and> prepare_staged_inputs demo_env mgr s1 = (Ok staged, s2) \<and>
    rt_open_input (DefaultRuntime_new demo_pfs staged fmempty) ''a'' s2 = (Ok f, s3)"
proof -
  have "is_ok (fst (bind_op demo_manager (\<lambda>mgr. bind_op (prepare_staged_inputs demo_env mgr) (\<lambda>staged.
      rt_open_input (DefaultRuntime_new demo_pfs staged fmempty) ''a'')) demo_host0))" by code_simp
  then show ?thesis unfolding is_ok_fst by (auto simp: res_simps)
qed

theorem input_reads_are_authentic_witness:
  "\<exists>mgr s1 staged s2 f s3. demo_manager demo_host0 = (Ok mgr, s1) \<and> prepare_staged_inputs demo_env mgr s1 = (Ok staged, s2) \<and>
    rt_open_input (DefaultRuntime_new demo_pfs staged fmempty) ''a'' s2 = (Ok f, s3) \<and> pv_rest demo_view f = [1, 2, 3]"
proof -
  have pfs: "pfs_ok (xe_pfs demo_env) demo_view" and ring: "ring_auth (xe_ring demo_env)"
    by (simp_all add: demo_env_def demo_pfs_ok demo_ring_auth)
  have "AesGcm128Key_encrypt demo_ring \<lparr>key128 = replicate 16 7, iv128 = replicate 12 0\<rparr> [1, 2, 3] =
    Ok (demo_tag [1, 2, 3], [1, 2, 3] @ demo_tag [1, 2, 3])" by code_simp
  then have owner: "owner_sealed (xe_ring demo_env) demo_view (fif_crypto demo_input) [1, 2, 3] (fif_cmac demo_input)"
    by (auto simp: demo_input_def demo_env_def)
  obtain mgr s1 staged s2 f s3 where r: "demo_manager demo_host0 = (Ok mgr, s1)"
    "prepare_staged_inputs demo_env mgr s1 = (Ok staged, s2)"
    "rt_open_input (DefaultRuntime_new demo_pfs staged fmempty) ''a'' s2 = (Ok f, s3)"
    using demo_reads by blast
  have op: "rt_open_input (DefaultRuntime_new (xe_pfs demo_env) staged fmempty) ''a'' s2 = (Ok f, s3)"
    using r(3) by (simp add: demo_env_def)
  have "pv_rest demo_view f = [1, 2, 3]"
    by (rule input_reads_are_authentic [OF pfs ring demo_yields(1) r(1) [unfolded demo_manager_def] r(2) _ owner op]) simp
  with r show ?thesis by blast
qed

text \<open>
  C7. Finalizing a task always returns. When it succeeds there is a tag for every output
  and for nothing else, every output has a key for protected files, and the tag stands,
  under the key of the output's owner, for the contents of a file that was opened under the
  key the enclave made for this output. This is what the property above asks of the owner
  of an input, so a task that gets such an output under its tag reads these contents.
\<close>

theorem output_tags_are_authentic:
  assumes "pfs_ok (xe_pfs X) V" and "yields outputs (xe_iter_outputs X outputs)"
    and "TaskFileManager_new X base fb tid inputs outputs s0 = (Ok mgr, s1)" and "prepare_staged_outputs mgr = Ok staged"
  shows "\<exists>r s3. upload_outputs X mgr s2 = Some (r, s3) \<and>
    (\<forall>tags. r = Ok tags \<longrightarrow> fmdom tags = fmdom outputs \<and>
      (\<forall>n out. fmlookup outputs n = Some out \<longrightarrow>
        (\<exists>k t info f s s'. fof_crypto out = TeaclaveFile128 k \<and> fmlookup tags n = Some t \<and>
          fmlookup staged n = Some info \<and> pf_open_ex (xe_pfs X) (sf_path info) (file_key (sf_crypto info)) s = (Ok f, s') \<and>
          pv_sealed V (file_key k) (pv_rest V f) (tag t))))"
proof -
  have "upload_outputs X mgr s2 \<noteq> None" by (rule upload_outputs_returns [OF assms(1)])
  then obtain r s3 where r: "upload_outputs X mgr s2 = Some (r, s3)" by auto
  have "fmdom tags = fmdom outputs \<and>
      (\<forall>n out. fmlookup outputs n = Some out \<longrightarrow>
        (\<exists>k t info f s s'. fof_crypto out = TeaclaveFile128 k \<and> fmlookup tags n = Some t \<and>
          fmlookup staged n = Some info \<and> pf_open_ex (xe_pfs X) (sf_path info) (file_key (sf_crypto info)) s = (Ok f, s') \<and>
          pv_sealed V (file_key k) (pv_rest V f) (tag t)))" if "r = Ok tags" for tags
  proof (intro conjI allI impI)
    note up = uploaded_outputs [OF assms(3,2) r [unfolded that]]
    show "fmdom tags = fmdom outputs" by (rule up(1))
    fix n out assume "fmlookup outputs n = Some out"
    then obtain t io s s' where t: "fmlookup tags n = Some t" and io: "io \<in> set (inter_outputs mgr)" "io_funiq_key io = n"
        "io_file io = out" and c: "convert_to_upload_file X io s = Some (Ok t, s')"
      using up(2) by blast
    from convert_upload_sealed [OF assms(1) c] t io staged_output [OF assms(3,2) io(1) assms(4)]
    show "\<exists>k t info f s s'. fof_crypto out = TeaclaveFile128 k \<and> fmlookup tags n = Some t \<and>
      fmlookup staged n = Some info \<and> pf_open_ex (xe_pfs X) (sf_path info) (file_key (sf_crypto info)) s = (Ok f, s') \<and>
      pv_sealed V (file_key k) (pv_rest V f) (tag t)" by blast
  qed
  with r show ?thesis by blast
qed

lemma demo_writes:
  "\<exists>mgr s1 s2 outs tags s3. demo_manager demo_host0 = (Ok mgr, s1) \<and> prepare_staged_outputs mgr = Ok outs \<and>
    upload_outputs demo_env mgr s2 = Some (Ok tags, s3)"
proof -
  let ?all = "bind_x (run_op demo_manager) (\<lambda>mgr. bind_x (run_op (prepare_staged_inputs demo_env mgr)) (\<lambda>staged.
    bind_x (run_op (return_op (prepare_staged_outputs mgr))) (\<lambda>outs.
    bind_x (copy_function fmempty (DefaultRuntime_new demo_pfs staged outs)) (\<lambda>_. upload_outputs demo_env mgr))))"
  have "map_option (\<lambda>r. is_ok (fst r)) (?all demo_host0) = Some True" by code_simp
  then obtain tags s3 where "?all demo_host0 = Some (Ok tags, s3)" by (auto simp: is_ok_iff)
  then show ?thesis unfolding bind_x_Ok_iff run_op_iff return_op_iff by metis
qed

theorem output_tags_are_authentic_witness:
  "\<exists>mgr s1 s2 outs tags s3 t info f s s'. demo_manager demo_host0 = (Ok mgr, s1) \<and> prepare_staged_outputs mgr = Ok outs \<and>
    upload_outputs demo_env mgr s2 = Some (Ok tags, s3) \<and> fmlookup tags ''b'' = Some t \<and> fmlookup outs ''b'' = Some info \<and>
    pf_open_ex demo_pfs (sf_path info) (file_key (sf_crypto info)) s = (Ok f, s') \<and>
    pv_sealed demo_view (replicate 16 9) (pv_rest demo_view f) (tag t)"
proof -
  have pfs: "pfs_ok (xe_pfs demo_env) demo_view" by (simp add: demo_env_def demo_pfs_ok)
  obtain mgr s1 s2 outs tags s3 where r: "demo_manager demo_host0 = (Ok mgr, s1)" "prepare_staged_outputs mgr = Ok outs"
    "upload_outputs demo_env mgr s2 = Some (Ok tags, s3)" using demo_writes by blast
  have out: "fmlookup (fmupd ''b'' demo_output fmempty) ''b'' = Some demo_output" by simp
  have key: "fof_crypto demo_output = TeaclaveFile128 k \<Longrightarrow> file_key k = replicate 16 9" for k
    by (auto simp: demo_output_def)
  have P: "xe_pfs demo_env = demo_pfs" by (simp add: demo_env_def)
  from output_tags_are_authentic [OF pfs demo_yields(2) r(1) [unfolded demo_manager_def] r(2), of s2, unfolded r(3)] out
  have "\<exists>k t info f s s'. fof_crypto demo_output = TeaclaveFile128 k \<and> fmlookup tags ''b'' = Some t \<and>
      fmlookup outs ''b'' = Some info \<and> pf_open_ex demo_pfs (sf_path info) (file_key (sf_crypto info)) s = (Ok f, s') \<and>
      pv_sealed demo_view (file_key k) (pv_rest demo_view f) (tag t)" unfolding P by blast
  with r key show ?thesis by metis
qed

text \<open>
  C31. A task ends successfully only if its executor fits the type of its function and all its
  outputs are protected files; then exactly the outputs of the task have tags. The
  management service accepts, lets approve and stages other tasks as well.
\<close>

theorem successful_task_is_supported:
  assumes "yields (st_output_data st) (xe_iter_outputs X (st_output_data st))"
    and "run_task X mesapy B fb st s = Some (Ok outs, s')"
  shows "(st_executor_type st, st_executor st) \<in> {(Python, MesaPy), (Builtin, BuiltinExecutor)} \<and>
    (\<forall>n out. fmlookup (st_output_data st) n = Some out \<longrightarrow> (\<exists>k. fof_crypto out = TeaclaveFile128 k)) \<and>
    fmdom (tags_map outs) = fmdom (st_output_data st)"
proof -
  obtain mgr s1 inv s2 summary s3 tags s4 where
    mgr: "TaskFileManager_new X WORKER_BASE_DIR fb (st_task_id st) (st_input_data st) (st_output_data st) s = (Ok mgr, s1)"
    and inv: "prepare_task X st mgr s1 = (Ok inv, s2)"
    and run: "invoke_function (Worker_default (xe_pfs X) mesapy B) inv s2 = Some (Ok summary, s3)"
    and up: "upload_outputs X mgr s3 = Some (Ok tags, s4)" and outs: "tags_map outs = tags"
    using assms(2) unfolding run_task_def by (auto simp: res_simps)
  have "sfn_executor_type inv = st_executor_type st" "sfn_executor inv = st_executor st"
    using inv by (auto simp: prepare_task_def res_simps)
  with worker_executors [OF run] have "(st_executor_type st, st_executor st) \<in> {(Python, MesaPy), (Builtin, BuiltinExecutor)}"
    by simp
  moreover have "\<exists>k. fof_crypto out = TeaclaveFile128 k" if "fmlookup (st_output_data st) n = Some out" for n out
    using uploaded_outputs(2) [OF mgr assms(1) up that] convert_upload_type by fastforce
  ultimately show ?thesis using uploaded_outputs(1) [OF mgr assms(1) up] outs by auto
qed

theorem successful_task_is_supported_witness:
  "\<exists>outs s'. run_task demo_env (\<lambda>_ _ _ _. run_op demo_fail) [''copy'' \<mapsto> copy_function] ''/fusion'' copy_task demo_host0 =
     Some (Ok outs, s') \<and> fmdom (tags_map outs) = {|''b''|}"
proof -
  obtain outs s' where r: "run_task demo_env (\<lambda>_ _ _ _. run_op demo_fail) [''copy'' \<mapsto> copy_function] ''/fusion'' copy_task
      demo_host0 = Some (Ok outs, s')" using copy_task_runs by blast
  have "yields (st_output_data copy_task) (xe_iter_outputs demo_env (st_output_data copy_task))"
    using demo_yields(2) by (simp add: copy_task_def)
  from successful_task_is_supported [OF this r] have "fmdom (tags_map outs) = fmdom (st_output_data copy_task)" by blast
  with r show ?thesis by (auto simp: copy_task_def)
qed

text \<open>
  C32. The staged copy of an input goes to the path to which another input is downloaded, if
  the name of the other one is the name of the first followed by \<^verbatim>\<open>-staged\<close> and their URLs end
  in the same file name. The file manager accepts such inputs.
\<close>

theorem staged_path_overwrites_download:
  assumes "yields inputs (xe_iter_inputs X inputs)"
    and "TaskFileManager_new X base fb tid inputs outputs s0 = (Ok mgr, s1)"
    and "fmlookup inputs k = Some f" and "fmlookup inputs (k @ ''-staged'') = Some g"
    and "path_file_name (xe_url_path X (fif_url f)) = path_file_name (xe_url_path X (fif_url g))"
  shows "\<exists>i \<in> set (inter_inputs mgr). \<exists>j \<in> set (inter_inputs mgr).
    ii_funiq_key i = k \<and> ii_file i = f \<and> ii_funiq_key j = k @ ''-staged'' \<and> ii_file j = g \<and>
    ii_staged_path i = ii_download_path j"
proof -
  obtain i j s si s' sj where i: "i \<in> set (inter_inputs mgr)" "ii_funiq_key i = k" "ii_file i = f"
    and j: "j \<in> set (inter_inputs mgr)" "ii_funiq_key j = k @ ''-staged''" "ii_file j = g"
    and paths: "ii_staged_path i = path_join (path_join (path_join (path_join base (uuid_to_string (xe_uuid X) tid)) ''inputs'') (k @ ''-staged''))
        (the (path_file_name (xe_url_path X (fif_url f))))"
      "ii_download_path j = path_join (path_join (path_join (path_join base (uuid_to_string (xe_uuid X) tid)) ''inputs'') (k @ ''-staged''))
        (the (path_file_name (xe_url_path X (fif_url g))))"
    using file_manager_input [OF assms(2,1,3)] file_manager_input [OF assms(2,1,4)] by fastforce
  with assms(5) show ?thesis by fastforce
qed

theorem staged_path_overwrites_download_witness:
  "\<exists>mgr s1. TaskFileManager_new (demo_env\<lparr>xe_iter_inputs := (\<lambda>_. [(''a'', demo_input), (''a-staged'', demo_input)])\<rparr>)
      WORKER_BASE_DIR ''/fusion'' 1 (fmupd ''a-staged'' demo_input (fmupd ''a'' demo_input fmempty)) fmempty demo_host0 = (Ok mgr, s1) \<and>
    (\<exists>i \<in> set (inter_inputs mgr). \<exists>j \<in> set (inter_inputs mgr).
      ii_funiq_key i = ''a'' \<and> ii_funiq_key j = ''a-staged'' \<and> ii_staged_path i = ii_download_path j)"
proof -
  let ?X = "demo_env\<lparr>xe_iter_inputs := (\<lambda>_. [(''a'', demo_input), (''a-staged'', demo_input)])\<rparr>"
  let ?in = "fmupd ''a-staged'' demo_input (fmupd ''a'' demo_input fmempty)"
  have "is_ok (fst (TaskFileManager_new ?X WORKER_BASE_DIR ''/fusion'' 1 ?in fmempty demo_host0))" by code_simp
  then obtain mgr s1 where mgr: "TaskFileManager_new ?X WORKER_BASE_DIR ''/fusion'' 1 ?in fmempty demo_host0 = (Ok mgr, s1)"
    by (metis is_ok_iff prod.collapse)
  have y: "yields ?in (xe_iter_inputs ?X ?in)" by (auto simp: yields_def)
  have "fmlookup ?in ''a'' = Some demo_input" "fmlookup ?in (''a'' @ ''-staged'') = Some demo_input" by simp_all
  from staged_path_overwrites_download [OF y mgr this] mgr show ?thesis by auto
qed

end
