(* ===== verification/Frontend.thy ===== *)
theory Frontend
  imports Authentication Teaclave_System
begin

text \<open>
  The frontend service, \<^verbatim>\<open>services/frontend/enclave/src/service.rs\<close>: every handler has the
  authentication service check the credential in the metadata of the request,
  and forwards the request with its metadata to the management service.

  The two clients are behind mutexes; the authentication service and the
  management service are the handlers of \<open>Authentication\<close> and \<open>Management\<close>, called
  with the request that the client builds.
\<close>

section \<open>The service\<close>

datatype frontend_error = AuthenticationError | FrontendLockError

fun frontend_error_to_string :: "frontend_error \<Rightarrow> string" where
  "frontend_error_to_string AuthenticationError = ''authentication error''"
| "frontend_error_to_string FrontendLockError = ''lock error''"

definition frontend_error_into :: "frontend_error \<Rightarrow> teaclave_service_response_error" where
  "frontend_error_into e = RequestError (frontend_error_to_string e)"

text \<open>The states of the two services, whether the mutexes of their clients can be locked, and the management client's metadata.\<close>

record ('a, 's) frontend =
  fe_auth :: 'a
  fe_auth_lock :: bool
  fe_mgmt :: 's
  fe_mgmt_lock :: bool
  fe_mgmt_metadata :: metadata

type_synonym 'a authenticator = "user_credential request \<Rightarrow> ('a, bool) service_op"

definition on_auth :: "('a, 'x, 'e) op \<Rightarrow> (('a, 's) frontend, 'x, 'e) op" where
  "on_auth m s = (case m (fe_auth s) of (r, a) \<Rightarrow> (r, s\<lparr>fe_auth := a\<rparr>))"

definition authenticate :: "'a authenticator \<Rightarrow> metadata \<Rightarrow> (('a, 's) frontend, bool, anyhow) op" where
  "authenticate A meta =
     bind_op (return_op (ok_or (Anyhow ''Missing credential'' []) (fmlookup meta ''id''))) (\<lambda>uid.
     bind_op (return_op (ok_or (Anyhow ''Missing credential'' []) (fmlookup meta ''token''))) (\<lambda>token.
     bind_op (\<lambda>s. (ensure (fe_auth_lock s) (Anyhow ''Cannot lock authentication client'' []), s)) (\<lambda>_.
     map_err_op anyhow_from_service (on_auth (A (Request_new \<lparr>cred_id = uid, cred_token = token\<rparr>))))))"

text \<open>\<^verbatim>\<open>authentication_and_forward_to_management!\<close>\<close>

definition forward_to_management ::
    "('m request \<Rightarrow> ('s, 'x) service_op) \<Rightarrow> 'm request \<Rightarrow> (('a, 's) frontend, 'x) service_op" where
  "forward_to_management handler req s =
     (if \<not> fe_mgmt_lock s then (Err (frontend_error_into FrontendLockError), s)
      else
        let meta = fmadd fmempty (metadata req) in
        case handler \<lparr>metadata = meta, message = message req\<rparr> (fe_mgmt s) of (r, m) \<Rightarrow>
          (r, s\<lparr>fe_mgmt := m, fe_mgmt_metadata := fmempty\<rparr>))"

definition authentication_and_forward ::
    "'a authenticator \<Rightarrow> ('m request \<Rightarrow> ('s, 'x) service_op) \<Rightarrow> 'm request \<Rightarrow> (('a, 's) frontend, 'x) service_op" where
  "authentication_and_forward A handler req =
     bind_op (try_op (authenticate A (metadata req))) (\<lambda>r.
     case r of
       Ok True \<Rightarrow> forward_to_management handler req
     | Panic \<Rightarrow> return_op Panic
     | _ \<Rightarrow> return_op (Err (frontend_error_into AuthenticationError)))"

section \<open>Handlers\<close>

definition frontend_register_input_file ::
    "'a authenticator \<Rightarrow> ('s, 'v) storage_client \<Rightarrow> 'v libs \<Rightarrow> uuid \<Rightarrow> register_input_file_request request \<Rightarrow> (('a, 's) frontend, external_id) service_op" where
  "frontend_register_input_file A C L fresh req = authentication_and_forward A (register_input_file C L fresh) req"

definition frontend_update_input_file ::
    "'a authenticator \<Rightarrow> ('s, 'v) storage_client \<Rightarrow> 'v libs \<Rightarrow> uuid \<Rightarrow> update_input_file_request request \<Rightarrow> (('a, 's) frontend, external_id) service_op" where
  "frontend_update_input_file A C L fresh req = authentication_and_forward A (update_input_file C L fresh) req"

definition frontend_register_output_file ::
    "'a authenticator \<Rightarrow> ('s, 'v) storage_client \<Rightarrow> 'v libs \<Rightarrow> uuid \<Rightarrow> register_output_file_request request \<Rightarrow> (('a, 's) frontend, external_id) service_op" where
  "frontend_register_output_file A C L fresh req = authentication_and_forward A (register_output_file C L fresh) req"

definition frontend_update_output_file ::
    "'a authenticator \<Rightarrow> ('s, 'v) storage_client \<Rightarrow> 'v libs \<Rightarrow> uuid \<Rightarrow> update_output_file_request request \<Rightarrow> (('a, 's) frontend, external_id) service_op" where
  "frontend_update_output_file A C L fresh req = authentication_and_forward A (update_output_file C L fresh) req"

definition frontend_register_fusion_output ::
    "'a authenticator \<Rightarrow> ('s, 'v) storage_client \<Rightarrow> 'v libs \<Rightarrow> uuid \<Rightarrow> bytes \<Rightarrow> uuid \<Rightarrow> owner_list request \<Rightarrow> (('a, 's) frontend, external_id) service_op" where
  "frontend_register_fusion_output A C L uu k fresh req = authentication_and_forward A (register_fusion_output C L uu k fresh) req"

definition frontend_register_input_from_output ::
    "'a authenticator \<Rightarrow> ('s, 'v) storage_client \<Rightarrow> 'v libs \<Rightarrow> external_id request \<Rightarrow> (('a, 's) frontend, external_id) service_op" where
  "frontend_register_input_from_output A C L req = authentication_and_forward A (register_input_from_output C L) req"

definition frontend_get_output_file ::
    "'a authenticator \<Rightarrow> ('s, 'v) storage_client \<Rightarrow> 'v libs \<Rightarrow> external_id request \<Rightarrow> (('a, 's) frontend, get_output_file_response) service_op" where
  "frontend_get_output_file A C L req = authentication_and_forward A (get_output_file C L) req"

definition frontend_get_input_file ::
    "'a authenticator \<Rightarrow> ('s, 'v) storage_client \<Rightarrow> 'v libs \<Rightarrow> external_id request \<Rightarrow> (('a, 's) frontend, get_input_file_response) service_op" where
  "frontend_get_input_file A C L req = authentication_and_forward A (get_input_file C L) req"

definition frontend_register_function ::
    "'a authenticator \<Rightarrow> ('s, 'v) storage_client \<Rightarrow> 'v libs \<Rightarrow> uuid \<Rightarrow> register_function_request request \<Rightarrow> (('a, 's) frontend, external_id) service_op" where
  "frontend_register_function A C L fresh req = authentication_and_forward A (register_function C L fresh) req"

definition frontend_get_function ::
    "'a authenticator \<Rightarrow> ('s, 'v) storage_client \<Rightarrow> 'v libs \<Rightarrow> external_id request \<Rightarrow> (('a, 's) frontend, get_function_response) service_op" where
  "frontend_get_function A C L req = authentication_and_forward A (get_function C L) req"

definition frontend_create_task ::
    "'a authenticator \<Rightarrow> ('s, 'v) storage_client \<Rightarrow> 'v libs \<Rightarrow> uuid \<Rightarrow> create_task_request request \<Rightarrow> (('a, 's) frontend, external_id) service_op" where
  "frontend_create_task A C L fresh req = authentication_and_forward A (create_task C L fresh) req"

definition frontend_get_task ::
    "'a authenticator \<Rightarrow> ('s, 'v) storage_client \<Rightarrow> 'v libs \<Rightarrow> external_id request \<Rightarrow> (('a, 's) frontend, get_task_response) service_op" where
  "frontend_get_task A C L req = authentication_and_forward A (get_task C L) req"

definition frontend_assign_data ::
    "'a authenticator \<Rightarrow> ('s, 'v) storage_client \<Rightarrow> 'v libs \<Rightarrow> assign_data_request request \<Rightarrow> (('a, 's) frontend, unit) service_op" where
  "frontend_assign_data A C L req = authentication_and_forward A (assign_data C L) req"

definition frontend_approve_task ::
    "'a authenticator \<Rightarrow> ('s, 'v) storage_client \<Rightarrow> 'v libs \<Rightarrow> external_id request \<Rightarrow> (('a, 's) frontend, unit) service_op" where
  "frontend_approve_task A C L req = authentication_and_forward A (approve_task C L) req"

definition frontend_invoke_task ::
    "'a authenticator \<Rightarrow> ('s, 'v) storage_client \<Rightarrow> 'v libs \<Rightarrow> external_id request \<Rightarrow> (('a, 's) frontend, unit) service_op" where
  "frontend_invoke_task A C L req = authentication_and_forward A (invoke_task C L) req"

text \<open>A request of a user; the other calls are not offered by the frontend.\<close>

fun frontend_call ::
    "'a authenticator \<Rightarrow> ('s, 'v) storage_client \<Rightarrow> 'v libs \<Rightarrow> system_call \<Rightarrow> (('a, 's) frontend, unit) service_op" where
  "frontend_call A C L (RegisterInputFile u r) = void_op (frontend_register_input_file A C L u r)"
| "frontend_call A C L (UpdateInputFile u r) = void_op (frontend_update_input_file A C L u r)"
| "frontend_call A C L (RegisterOutputFile u r) = void_op (frontend_register_output_file A C L u r)"
| "frontend_call A C L (UpdateOutputFile u r) = void_op (frontend_update_output_file A C L u r)"
| "frontend_call A C L (RegisterFusionOutput uu k u r) = void_op (frontend_register_fusion_output A C L uu k u r)"
| "frontend_call A C L (RegisterInputFromOutput r) = void_op (frontend_register_input_from_output A C L r)"
| "frontend_call A C L (GetOutputFile r) = void_op (frontend_get_output_file A C L r)"
| "frontend_call A C L (GetInputFile r) = void_op (frontend_get_input_file A C L r)"
| "frontend_call A C L (RegisterFunction u r) = void_op (frontend_register_function A C L u r)"
| "frontend_call A C L (GetFunction r) = void_op (frontend_get_function A C L r)"
| "frontend_call A C L (CreateTask u r) = void_op (frontend_create_task A C L u r)"
| "frontend_call A C L (GetTask r) = void_op (frontend_get_task A C L r)"
| "frontend_call A C L (AssignDataCall r) = frontend_assign_data A C L r"
| "frontend_call A C L (ApproveTaskCall r) = frontend_approve_task A C L r"
| "frontend_call A C L (InvokeTaskCall r) = frontend_invoke_task A C L r"
| "frontend_call A C L _ = return_op (Err (RequestError ''invalid request''))"

fun call_metadata :: "system_call \<Rightarrow> metadata option" where
  "call_metadata (RegisterInputFile u r) = Some (metadata r)"
| "call_metadata (UpdateInputFile u r) = Some (metadata r)"
| "call_metadata (RegisterOutputFile u r) = Some (metadata r)"
| "call_metadata (UpdateOutputFile u r) = Some (metadata r)"
| "call_metadata (RegisterFusionOutput uu k u r) = Some (metadata r)"
| "call_metadata (RegisterInputFromOutput r) = Some (metadata r)"
| "call_metadata (GetOutputFile r) = Some (metadata r)"
| "call_metadata (GetInputFile r) = Some (metadata r)"
| "call_metadata (RegisterFunction u r) = Some (metadata r)"
| "call_metadata (GetFunction r) = Some (metadata r)"
| "call_metadata (CreateTask u r) = Some (metadata r)"
| "call_metadata (GetTask r) = Some (metadata r)"
| "call_metadata (AssignDataCall r) = Some (metadata r)"
| "call_metadata (ApproveTaskCall r) = Some (metadata r)"
| "call_metadata (InvokeTaskCall r) = Some (metadata r)"
| "call_metadata _ = None"

section \<open>Only authenticated requests are forwarded\<close>

text \<open>The authentication service in state \<open>a\<close> accepts the credential in the metadata.\<close>

definition credential_accepted :: "'a authenticator \<Rightarrow> 'a \<Rightarrow> metadata \<Rightarrow> bool" where
  "credential_accepted A a meta \<longleftrightarrow>
     (\<exists>uid token. fmlookup meta ''id'' = Some uid \<and> fmlookup meta ''token'' = Some token \<and>
        fst (A (Request_new \<lparr>cred_id = uid, cred_token = token\<rparr>) a) = Ok True)"

lemma authenticate_state: "snd (authenticate A meta s) = s\<lparr>fe_auth := fe_auth (snd (authenticate A meta s))\<rparr>"
  by (auto simp: authenticate_def bind_op_def return_op_def map_err_op_def on_auth_def ok_or_def ensure_def
      split: result.splits option.splits prod.splits if_splits)

lemma authenticate_accepted:
  "fst (authenticate A meta s) = Ok True \<longleftrightarrow> fe_auth_lock s \<and> credential_accepted A (fe_auth s) meta"
  by (auto simp: authenticate_def credential_accepted_def bind_op_def return_op_def map_err_op_def on_auth_def ok_or_def ensure_def
      map_err_Ok_iff split: result.splits option.splits prod.splits if_splits)

lemma forward_cases:
  assumes "authentication_and_forward A handler req s = (r, s')"
  obtains (refused) "fe_mgmt s' = fe_mgmt s" "r = Panic \<or> r = Err (frontend_error_into AuthenticationError) \<or> r = Err (frontend_error_into FrontendLockError)"
  | (served) "credential_accepted A (fe_auth s) (metadata req)" "handler req (fe_mgmt s) = (r, fe_mgmt s')"
proof -
  obtain x s1 where s1: "authenticate A (metadata req) s = (x, s1)" by fastforce
  then obtain a where a: "s1 = s\<lparr>fe_auth := a\<rparr>" using authenticate_state [of A "metadata req" s] by (metis snd_conv)
  show thesis
  proof (cases "x = Ok True")
    case True
    then have "credential_accepted A (fe_auth s) (metadata req)" using s1 authenticate_accepted [of A "metadata req" s] by simp
    then show thesis using assms True s1 a that
      by (cases "fe_mgmt_lock s"; cases req)
        (auto simp: authentication_and_forward_def forward_to_management_def bind_op_def try_op_def Let_def split: prod.splits)
  next
    case False
    then show thesis using assms s1 a that(1)
      by (auto simp: authentication_and_forward_def bind_op_def try_op_def return_op_def split: result.splits bool.splits)
  qed
qed

end
