(* ===== verification/Deployment.thy ===== *)
theory Deployment
  imports Frontend Storage_Stack System_Access
begin

text \<open>
  The deployed services together: users reach the management service through the
  frontend, which asks the authentication service; the executors reach the
  scheduler directly; users register and log in at the authentication service.
\<close>

section \<open>Calls through the frontend\<close>

lemma forward_mgmt:
  "fe_mgmt (snd (authentication_and_forward A h req s)) = fe_mgmt s \<or>
    credential_accepted A (fe_auth s) (metadata req) \<and>
    fe_mgmt (snd (authentication_and_forward A h req s)) = snd (h req (fe_mgmt s))"
proof -
  obtain r s' where eq: "authentication_and_forward A h req s = (r, s')" by fastforce
  then show ?thesis by (cases rule: forward_cases) (auto simp: eq)
qed

lemma snd_void_op [simp]: "snd (void_op m s) = snd (m s)"
  by (auto simp: void_op_def bind_op_def return_op_def split: prod.splits result.splits)

lemmas frontend_handler_defs =
  frontend_register_input_file_def frontend_update_input_file_def frontend_register_output_file_def frontend_update_output_file_def frontend_register_fusion_output_def frontend_register_input_from_output_def frontend_get_output_file_def frontend_get_input_file_def frontend_register_function_def frontend_get_function_def frontend_create_task_def frontend_get_task_def frontend_assign_data_def frontend_approve_task_def frontend_invoke_task_def

lemma frontend_call_cases:
  assumes "frontend_call A C L c s = (r, s')"
  obtains (refused) "fe_mgmt s' = fe_mgmt s"
  | (served) meta where "call_metadata c = Some meta" "credential_accepted A (fe_auth s) meta"
      "fe_mgmt s' = snd (system_call_op C L iter c (fe_mgmt s))"
proof -
  have "s' = snd (frontend_call A C L c s)" using assms by simp
  then have "fe_mgmt s' = fe_mgmt s \<or> (\<exists>meta. call_metadata c = Some meta \<and> credential_accepted A (fe_auth s) meta \<and>
      fe_mgmt s' = snd (system_call_op C L iter c (fe_mgmt s)))"
    by (cases c) (simp_all add: frontend_handler_defs return_op_def forward_mgmt)
  then show thesis using that by blast
qed


section \<open>Runs of the deployed services\<close>

text \<open>
  The trace lists the requests that users sent to the frontend, each with the
  time and the state of the authentication service at which it was checked.
\<close>

type_synonym 'a request_trace = "(u64 \<times> 'a \<times> system_call) list"

inductive deployed_run ::
    "('db, 'st) kvdb \<Rightarrow> auth_libs \<Rightarrow> bytes \<Rightarrow> 'v libs \<Rightarrow> tag_iter \<Rightarrow> ('db option, 'v store) frontend \<Rightarrow>
     'db option request_trace \<Rightarrow> ('db option, 'v store) frontend \<Rightarrow> bool"
  for D :: "('db, 'st) kvdb" and AL :: auth_libs and secret :: bytes and L :: "'v libs" and iter :: tag_iter where
  dep_nil: "deployed_run D AL secret L iter s [] s"
| dep_user: "deployed_run D AL secret L iter s tr s' \<Longrightarrow> call_fresh L (fe_mgmt s') c \<Longrightarrow>
    frontend_call (user_authenticate D AL secret now) ideal_client L c s' = (r, s'') \<Longrightarrow>
    deployed_run D AL secret L iter s (tr @ [(now, fe_auth s', c)]) s''"
| dep_executor: "deployed_run D AL secret L iter s tr s' \<Longrightarrow> call_metadata c = None \<Longrightarrow>
    deployed_run D AL secret L iter s tr (s'\<lparr>fe_mgmt := snd (system_call_op ideal_client L iter c (fe_mgmt s'))\<rparr>)"
| dep_register: "deployed_run D AL secret L iter s tr s' \<Longrightarrow>
    deployed_run D AL secret L iter s tr (s'\<lparr>fe_auth := snd (user_register D AL salt req (fe_auth s'))\<rparr>)"
| dep_login: "deployed_run D AL secret L iter s tr s' \<Longrightarrow>
    deployed_run D AL secret L iter s tr (s'\<lparr>fe_auth := snd (user_login D AL secret clock req (fe_auth s'))\<rparr>)"

text \<open>The calls that reached the management service, with the request that was accepted for each.\<close>

definition accepted_in :: "('db, 'st) kvdb \<Rightarrow> auth_libs \<Rightarrow> bytes \<Rightarrow> 'db option request_trace \<Rightarrow> system_call \<Rightarrow> bool" where
  "accepted_in D AL secret tr c \<longleftrightarrow> (\<forall>meta. call_metadata c = Some meta \<longrightarrow>
     (\<exists>now a. (now, a, c) \<in> set tr \<and> credential_accepted (user_authenticate D AL secret now) a meta))"

lemma accepted_in_append: "accepted_in D AL secret tr c \<Longrightarrow> accepted_in D AL secret (tr @ tr') c"
  by (fastforce simp: accepted_in_def)

lemma deployed_calls:
  "deployed_run D AL secret L iter s tr s' \<Longrightarrow>
    \<exists>cs. system_run L iter (fe_mgmt s) cs (fe_mgmt s') \<and> list_all (accepted_in D AL secret tr) cs"
proof (induction rule: deployed_run.induct)
  case (dep_nil s)
  show ?case by (intro exI [of _ "[]"]) (simp add: run_nil)
next
  case (dep_user s tr s' c now r s'')
  then obtain cs where cs: "system_run L iter (fe_mgmt s) cs (fe_mgmt s')" "list_all (accepted_in D AL secret tr) cs" by blast
  then have old: "list_all (accepted_in D AL secret (tr @ [(now, fe_auth s', c)])) cs"
    using accepted_in_append by (fastforce simp: list_all_iff)
  from dep_user(3) show ?case
  proof (cases rule: frontend_call_cases [where iter = iter])
    case refused
    with cs(1) old show ?thesis by auto
  next
    case (served meta)
    then have "system_run L iter (fe_mgmt s) (cs @ [c]) (fe_mgmt s'')"
      using dep_user(2) cs(1) by (intro run_snoc [of _ _ _ _ "fe_mgmt s'"]) (simp_all add: system_step_def)
    moreover have "accepted_in D AL secret (tr @ [(now, fe_auth s', c)]) c"
      using served by (auto simp: accepted_in_def)
    ultimately show ?thesis using old by (intro exI [of _ "cs @ [c]"]) simp
  qed
next
  case (dep_executor s tr s' c)
  then obtain cs where "system_run L iter (fe_mgmt s) cs (fe_mgmt s')" "list_all (accepted_in D AL secret tr) cs" by blast
  moreover have "call_fresh L (fe_mgmt s') c" "accepted_in D AL secret tr c"
    using dep_executor(2) by (cases c; simp add: accepted_in_def)+
  ultimately show ?case
    by (intro exI [of _ "cs @ [c]"]) (auto simp: system_step_def intro: run_snoc)
qed auto

text \<open>
  C2. Consent is authenticated.  When the scheduler hands a task of several participants to an executor, every
  participant has sent an \<^verbatim>\<open>approve_task\<close> request for it through the frontend, with a token that the authentication
  service accepted for that user when the request was checked.\<close>

theorem consent_is_authenticated:
  assumes "libs_ok L" and run: "deployed_run D AL secret L iter s0 tr s" and "fe_mgmt s0 = empty_store"
    and "pull_task ideal_client L (fe_mgmt s) = (Ok st, m')"
  shows "\<exists>ts. holds L (S_task L) (fe_mgmt s) ts \<and> st_task_id st = task_id ts \<and>
    (OwnerList_len (participants ts) \<noteq> 1 \<longrightarrow> (\<forall>u. u |\<in>| participants ts \<longrightarrow>
       (\<exists>now a req token. (now, a, ApproveTaskCall req) \<in> set tr \<and> ext_uuid (message req) = task_id ts \<and>
          fmlookup (metadata req) ''id'' = Some u \<and> fmlookup (metadata req) ''token'' = Some token \<and>
          fst (user_authenticate D AL secret now (Request_new \<lparr>cred_id = u, cred_token = token\<rparr>) a) = Ok True)))"
proof -
  obtain cs where cs: "system_run L iter empty_store cs (fe_mgmt s)" "list_all (accepted_in D AL secret tr) cs"
    using deployed_calls [OF run] assms(3) by auto
  have inv: "store_inv L (fe_mgmt s)" using system_run_inv [OF cs(1) assms(1) empty_store_inv] .
  obtain ts where ts: "holds L (S_task L) (fe_mgmt s) ts" "Staged \<le> status ts" "staged_from L (fe_mgmt s) ts st"
    using pulled_entry [OF assms(1) inv assms(4)] by blast
  have ti: "task_inv ts" using holds_task_inv [OF assms(1) store_inv_kv_inv [OF inv] ts(1)] .
  have "\<exists>now a req token. (now, a, ApproveTaskCall req) \<in> set tr \<and> ext_uuid (message req) = task_id ts \<and>
      fmlookup (metadata req) ''id'' = Some u \<and> fmlookup (metadata req) ''token'' = Some token \<and>
      fst (user_authenticate D AL secret now (Request_new \<lparr>cred_id = u, cred_token = token\<rparr>) a) = Ok True"
    if u: "u |\<in>| approved_users ts" for u
  proof -
    obtain req where req: "ApproveTaskCall req \<in> set cs" "ext_uuid (message req) = task_id ts" "get_request_user_id (metadata req) = Ok u"
      using system_run_approved [OF cs(1) assms(1) empty_store_inv ts(1) u]
      by (auto simp: call_approvals_iff holds_def empty_store_def)
    then have "accepted_in D AL secret tr (ApproveTaskCall req)" using cs(2) by (simp add: list_all_iff)
    then show ?thesis using req(2,3) by (fastforce simp: accepted_in_def credential_accepted_def get_request_user_id_def res_simps)
  qed
  moreover have "st_task_id st = task_id ts" using ts(3) by (auto simp: staged_from_def res_simps)
  ultimately show ?thesis using ts(1) staged_consent [OF ti ts(2)] by (intro exI [of _ ts]) (simp add: OwnerList_len_def)
qed


section \<open>Registration, login and authentication on LevelDB\<close>

text \<open>Every stored user record carries the id under which it is stored.\<close>

definition users_ok :: "auth_libs \<Rightarrow> (bytes \<Rightarrow> bytes option) \<Rightarrow> bool" where
  "users_ok L M \<longleftrightarrow> (\<forall>uid v. M (into_bytes uid) = Some v \<longrightarrow> (\<exists>u. json_from_slice (js_user L) v = Ok u \<and> ui_id u = uid))"


lemma users_ok_no_panic: "users_ok L M \<Longrightarrow> stored_user L M uid \<noteq> Panic"
  by (fastforce simp: users_ok_def stored_user_def split: option.splits)

lemma users_ok_new:
  assumes "users_ok L M" "json_from_slice (js_user L) v = Ok (UserInfo_new L salt uid pw)"
  shows "users_ok L (M(into_bytes uid \<mapsto> v))"
  using assms by (auto simp: users_ok_def UserInfo_new_def)

lemma user_json:
  assumes "auth_libs_ok L"
  obtains v where "json_to_vec (js_user L) u = Ok v" "json_from_slice (js_user L) v = Ok u"
  using assms unfolding auth_libs_ok_def json_ok_def by meson

text \<open>The room that registering a user takes.\<close>

definition user_cost :: "auth_libs \<Rightarrow> bytes \<Rightarrow> string \<Rightarrow> string \<Rightarrow> nat" where
  "user_cost L salt uid pw =
     (case json_to_vec (js_user L) (UserInfo_new L salt uid pw) of Ok v \<Rightarrow> entry_cost (length uid) (length v) | _ \<Rightarrow> 0)"

abbreviation password_request :: "string \<Rightarrow> string \<Rightarrow> user_password_request request" where
  "password_request uid pw \<equiv> Request_new \<lparr>upr_id = uid, upr_password = pw\<rparr>"


lemma register_free:
  assumes L: "auth_libs_ok L" and users: "users_ok L (db_contents E db)" and room: "db_room E (user_cost L salt uid pw + n) db"
    and uid: "uid \<noteq> []" "db_contents E db (into_bytes uid) = None"
  shows "\<exists>db' v. user_register (leveldb_kvdb E) L salt (password_request uid pw) (Some db) = (Ok (), Some db') \<and> db_room E n db' \<and>
    users_ok L (db_contents E db') \<and> db_contents E db' = (db_contents E db)(into_bytes uid \<mapsto> v) \<and>
    json_from_slice (js_user L) v = Ok (UserInfo_new L salt uid pw)"
proof -
  obtain v where v: "json_to_vec (js_user L) (UserInfo_new L salt uid pw) = Ok v" "json_from_slice (js_user L) v = Ok (UserInfo_new L salt uid pw)"
    using user_json [OF L] .
  then have "db_room E (entry_cost (length uid) (length v) + n) db" using room by (simp add: user_cost_def)
  then obtain db' where "user_register (leveldb_kvdb E) L salt (password_request uid pw) (Some db) = (Ok (), Some db')"
    "db_contents E db' = (db_contents E db)(into_bytes uid \<mapsto> v)" "db_room E n db'"
    using ldb.user_register_new [OF v(1) uid] unfolding Request_new_def by blast
  then show ?thesis using v(2) users_ok_new [OF users v(2)] by auto
qed


text \<open>
  C12. Registration never touches an existing user: it succeeds exactly for a non-empty id that is free, and then adds
  one record; otherwise it returns \<^verbatim>\<open>invalid userid\<close> and changes nothing. Every record stays filed under its own id.\<close>

theorem register_keeps_users:
  assumes L: "auth_libs_ok L" and users: "users_ok L (db_contents E db)" and room: "db_room E (user_cost L salt uid pw + n) db"
  shows "\<exists>r db'. user_register (leveldb_kvdb E) L salt (password_request uid pw) (Some db) = (r, Some db') \<and>
    db_room E n db' \<and> users_ok L (db_contents E db') \<and>
    (if uid \<noteq> [] \<and> db_contents E db (into_bytes uid) = None
     then r = Ok () \<and> stored_user L (db_contents E db') uid = Ok (UserInfo_new L salt uid pw) \<and>
       (\<forall>k. k \<noteq> into_bytes uid \<longrightarrow> db_contents E db' k = db_contents E db k)
     else r = Err (auth_error InvalidUserId) \<and> db_contents E db' = db_contents E db)"
proof -
  let ?u = "UserInfo_new L salt uid pw"
  obtain v where v: "json_to_vec (js_user L) ?u = Ok v" "json_from_slice (js_user L) v = Ok ?u" using user_json [OF L] .
  consider "uid = []" | w where "uid \<noteq> []" "db_contents E db (into_bytes uid) = Some w" | "uid \<noteq> []" "db_contents E db (into_bytes uid) = None"
    by fastforce
  then show ?thesis
  proof cases
    case 1
    then show ?thesis using users db_room_mono [OF room]
      by (simp add: user_register_def Request_new_def bind_op_def return_op_def Let_def)
  next
    case 2
    have "json_from_slice (js_user L) w \<noteq> Panic" using users 2(2) by (fastforce simp: users_ok_def)
    then show ?thesis using ldb.user_register_taken [OF v(1) 2(2) db_room_mono [OF room], of fmempty] 2 users
      unfolding Request_new_def by auto
  next
    case 3
    then show ?thesis using register_free [OF L users room] by (fastforce simp: stored_user_def)
  qed
qed


section \<open>Examples\<close>

text \<open>A new database, and two users in it.\<close>

abbreviation "mem \<equiv> memory_env vec_writer"

definition demo_salt :: bytes where "demo_salt = replicate SALT_LEN 7"

lemma demo_user_cost: "user_cost demo_auth demo_salt uid pw = entry_cost (length uid) (2 * length uid + 98)"
proof -
  have "min (length pw) 64 + (64 - length pw) = 64" by (simp add: min_def)
  then show ?thesis
    by (simp add: user_cost_def demo_auth_def user_to_bytes_def frame_def UserInfo_new_def demo_salt_def SALT_LEN_def PASSWORD_DIGEST_LEN_def)
qed

lemma new_memory_room_bytes: "db_room mem 100000 new_memory_db"
proof -
  obtain db where "DB_open mem (memory_files (\<lambda>_. None) []) () = (Ok (), db)" "db_room mem 100000 db"
    using DB_open_new [OF memory_env_ok(1) memory_env_ok(2), of 100000 "\<lambda>_. None"]
    by (auto simp: memory_env_def approx_mem_usage_def MemTable_new_def SkipMap_new_def size_of_SkipMap_def size_of_ptr_def MAX_HEIGHT_def)
  then show ?thesis by (simp add: new_memory_db_def)
qed

lemma users_ok_empty: "users_ok L (\<lambda>_. None)"
  by (simp add: users_ok_def)

lemma demo_user_room:
  assumes "db_room mem (n + 2000) db" "length uid \<le> 100"
  shows "db_room mem (user_cost demo_auth demo_salt uid pw + n) db"
proof (rule db_room_mono)
  show "db_room mem (2000 - user_cost demo_auth demo_salt uid pw + (user_cost demo_auth demo_salt uid pw + n)) db"
    using assms by (simp add: demo_user_cost entry_cost_def size_of_Node_def size_of_ptr_def MAX_HEIGHT_def add.commute)
qed


theorem register_keeps_users_witness:
  "\<exists>db'. user_register (leveldb_kvdb mem) demo_auth demo_salt (password_request ''alice'' ''pw'') (Some new_memory_db) = (Ok (), Some db') \<and>
    stored_user demo_auth (db_contents mem db') ''alice'' = Ok (UserInfo_new demo_auth demo_salt ''alice'' ''pw'')"
proof -
  have "db_room mem (user_cost demo_auth demo_salt ''alice'' ''pw'' + 98000) new_memory_db"
    using new_memory_room_bytes by (intro demo_user_room) simp_all
  from register_keeps_users [OF demo_auth_ok _ this] show ?thesis using new_memory_room(2) users_ok_empty by auto
qed

text \<open>Requests of users whose credentials stay acceptable are all served.\<close>

lemma forward_accepted:
  assumes "fe_auth_lock s" "fe_mgmt_lock s" "credential_accepted A (fe_auth s) (metadata req)"
  shows "\<exists>cred. snd (authentication_and_forward A h req s) =
    s\<lparr>fe_auth := snd (A cred (fe_auth s)), fe_mgmt := snd (h req (fe_mgmt s)), fe_mgmt_metadata := fmempty\<rparr>"
proof -
  obtain uid token where m: "fmlookup (metadata req) ''id'' = Some uid" "fmlookup (metadata req) ''token'' = Some token"
    and ok: "fst (A (Request_new \<lparr>cred_id = uid, cred_token = token\<rparr>) (fe_auth s)) = Ok True"
    using assms(3) by (auto simp: credential_accepted_def)
  have req: "\<lparr>metadata = metadata req, message = message req\<rparr> = req" by (cases req) simp
  obtain a where a: "A (Request_new \<lparr>cred_id = uid, cred_token = token\<rparr>) (fe_auth s) = (Ok True, a)" using ok by (metis prod.collapse)
  then have "authenticate A (metadata req) s = (Ok True, s\<lparr>fe_auth := a\<rparr>)"
    using m assms(1) by (simp add: authenticate_def bind_op_def return_op_def map_err_op_def on_auth_def)
  then show ?thesis using assms(2) a
    by (intro exI [of _ "Request_new \<lparr>cred_id = uid, cred_token = token\<rparr>"])
      (simp add: authentication_and_forward_def forward_to_management_def bind_op_def try_op_def Let_def req case_prod_beta)
qed

lemma frontend_call_accepted:
  assumes "fe_auth_lock s" "fe_mgmt_lock s" "call_metadata c = Some meta" "credential_accepted A (fe_auth s) meta"
  shows "\<exists>cred. snd (frontend_call A C L c s) =
    s\<lparr>fe_auth := snd (A cred (fe_auth s)), fe_mgmt := snd (system_call_op C L iter c (fe_mgmt s)), fe_mgmt_metadata := fmempty\<rparr>"
  using assms by (cases c) (simp_all add: frontend_handler_defs forward_accepted)

lemma deployed_served:
  assumes P: "\<And>a cred. P a \<Longrightarrow> P (snd (user_authenticate D AL secret now cred a))"
    and acc: "\<And>a meta. P a \<Longrightarrow> M meta \<Longrightarrow> credential_accepted (user_authenticate D AL secret now) a meta"
  shows "system_run L iter m cs m' \<Longrightarrow> list_all (\<lambda>c. \<exists>meta. call_metadata c = Some meta \<and> M meta) cs \<Longrightarrow>
    fe_mgmt s = m \<Longrightarrow> P (fe_auth s) \<Longrightarrow> fe_auth_lock s \<Longrightarrow> fe_mgmt_lock s \<Longrightarrow>
    \<exists>tr s'. deployed_run D AL secret L iter s tr s' \<and> fe_mgmt s' = m' \<and> P (fe_auth s') \<and> fe_auth_lock s' \<and> fe_mgmt_lock s'"
proof (induction rule: system_run.induct)
  case (run_nil m)
  then show ?case using dep_nil by blast
next
  case (run_snoc m cs m' c m'')
  then obtain tr s' where s': "deployed_run D AL secret L iter s tr s'" "fe_mgmt s' = m'" "P (fe_auth s')" "fe_auth_lock s'" "fe_mgmt_lock s'"
    by auto
  obtain meta where "call_metadata c = Some meta" "M meta" using run_snoc.prems(1) by auto
  then obtain cred where "snd (frontend_call (user_authenticate D AL secret now) ideal_client L c s') =
      s'\<lparr>fe_auth := snd (user_authenticate D AL secret now cred (fe_auth s')),
        fe_mgmt := snd (system_call_op ideal_client L iter c (fe_mgmt s')), fe_mgmt_metadata := fmempty\<rparr>"
    using frontend_call_accepted [OF s'(4,5) _ acc [OF s'(3)], of c meta ideal_client L iter] by blast
  moreover have "deployed_run D AL secret L iter s (tr @ [(now, fe_auth s', c)])
      (snd (frontend_call (user_authenticate D AL secret now) ideal_client L c s'))"
    using run_snoc.hyps(2) s'(2)
    by (intro dep_user [OF s'(1), where r = "fst (frontend_call (user_authenticate D AL secret now) ideal_client L c s')"])
      (simp_all add: system_step_def)
  moreover have "m'' = snd (system_call_op ideal_client L iter c (fe_mgmt s'))" using run_snoc.hyps(2) s'(2) by (simp add: system_step_def)
  ultimately show ?case using s'(3-5) P by fastforce
qed


lemma deployed_append:
  "deployed_run D AL secret L iter s' tr' s'' \<Longrightarrow> deployed_run D AL secret L iter s tr s' \<Longrightarrow>
    deployed_run D AL secret L iter s (tr @ tr') s''"
proof (induction rule: deployed_run.induct)
  case (dep_user s1 tr1 s2 c now r s3)
  then have "deployed_run D AL secret L iter s ((tr @ tr1) @ [(now, fe_auth s2, c)]) s3"
    using deployed_run.dep_user by blast
  then show ?case by simp
qed (auto intro: deployed_run.intros)

definition demo_users :: "(u32, unit, bytes) db option \<Rightarrow> bool" where
  "demo_users a \<longleftrightarrow> (\<exists>db. a = Some db \<and> db_room mem 0 db \<and> users_ok demo_auth (db_contents mem db) \<and>
     (\<forall>u \<in> {''alice'', ''bob''}. \<exists>v. db_contents mem db (into_bytes u) = Some v))"

lemma demo_users_kept: "demo_users a \<Longrightarrow> demo_users (snd (user_authenticate (leveldb_kvdb mem) demo_auth [] 1000 cred a))"
proof -
  assume "demo_users a"
  then obtain db where db: "a = Some db" "db_room mem 0 db" "users_ok demo_auth (db_contents mem db)"
    "\<forall>u \<in> {''alice'', ''bob''}. \<exists>v. db_contents mem db (into_bytes u) = Some v" by (auto simp: demo_users_def)
  obtain m u t where "cred = \<lparr>metadata = m, message = \<lparr>cred_id = u, cred_token = t\<rparr>\<rparr>"
    by (metis user_credential.cases_scheme request.cases old.unit.exhaust)
  then show ?thesis using ldb.user_authenticate_spec [OF db(2) users_ok_no_panic [OF db(3)], where uid = u and secret = "[]" and now = 1000 and m = m and token = t] db
    by (auto simp: demo_users_def)
qed

lemma demo_users_accepted:
  assumes "demo_users a" "meta \<in> {user_meta ''alice'', user_meta ''bob''}"
  shows "credential_accepted (user_authenticate (leveldb_kvdb mem) demo_auth [] 1000) a meta"
proof -
  obtain u where u: "u \<in> {''alice'', ''bob''}" "meta = user_meta u" using assms(2) by auto
  then obtain db v where db: "a = Some db" "db_room mem 0 db" "users_ok demo_auth (db_contents mem db)" "db_contents mem db (into_bytes u) = Some v"
    using assms(1) unfolding demo_users_def by metis
  then obtain i where i: "stored_user demo_auth (db_contents mem db) u = Ok i" "ui_id i = u"
    by (fastforce simp: users_ok_def stored_user_def)
  have "validate_token demo_auth 1000 i [] (demo_token u)"
    using i(2) by (simp add: validate_token_def demo_auth_def demo_token_def accepts_def JWT_ALG_def)
  moreover have "demo_token u \<noteq> []" by (simp add: demo_token_def claims_token_nonempty)
  moreover have "u \<noteq> []" using u(1) by auto
  ultimately have "accepts_token demo_auth (db_contents mem db) [] 1000 u (demo_token u)"
    using i(1) by (simp add: accepts_token_def)
  then show ?thesis
    using ldb.user_authenticate_spec [OF db(2) users_ok_no_panic [OF db(3)], where uid = u and secret = "[]" and now = 1000 and m = fmempty and token = "demo_token u"]
      db(1) u(2)
    by (auto simp: credential_accepted_def user_meta_def Request_new_def)
qed

lemma demo_run:
  "system_run demo_libs demo_iter empty_store [register_call, create_call, approve_call ''alice'', approve_call ''bob'', invoke_call] demo_s5"
proof -
  have step: "system_run demo_libs demo_iter empty_store (cs @ [c]) s'"
    if "system_run demo_libs demo_iter empty_store cs s" "call_fresh demo_libs s c"
      "snd (system_call_op ideal_client demo_libs demo_iter c s) = s'" for cs s c s'
    using that by (auto simp: system_step_def intro: run_snoc)
  have "call_fresh demo_libs empty_store register_call" by (simp add: register_call_def fresh_uuid_def empty_store_def)
  note r = step [OF run_nil this demo_register]
  have "call_fresh demo_libs demo_s1 create_call"
    by (simp add: create_call_def fresh_uuid_def demo_s1_def demo_kv_put empty_store_def)
  note r = step [OF r this demo_create]
  note r = step [OF r _ demo_approve_alice]
  note r = step [OF step [OF r _ demo_approve_bob] _ demo_invoke]
  then show ?thesis by (simp add: approve_call_def invoke_call_def)
qed

definition demo_frontend :: "((u32, unit, bytes) db option, demo_value store) frontend" where
  "demo_frontend = \<lparr>fe_auth = Some new_memory_db, fe_auth_lock = True, fe_mgmt = empty_store, fe_mgmt_lock = True, fe_mgmt_metadata = fmempty\<rparr>"

lemma demo_registered:
  "\<exists>db2. deployed_run (leveldb_kvdb mem) demo_auth [] demo_libs demo_iter demo_frontend [] (demo_frontend\<lparr>fe_auth := Some db2\<rparr>) \<and> demo_users (Some db2)"
proof -
  let ?D = "leveldb_kvdb mem" and ?reg = "\<lambda>u. user_register (leveldb_kvdb mem) demo_auth demo_salt (password_request u ''pw'')"
  have "db_room mem (user_cost demo_auth demo_salt ''alice'' ''pw'' + 98000) new_memory_db"
    using new_memory_room_bytes by (intro demo_user_room) simp_all
  then obtain db1 v1 where db1: "?reg ''alice'' (Some new_memory_db) = (Ok (), Some db1)" "db_room mem 98000 db1"
    "users_ok demo_auth (db_contents mem db1)" "db_contents mem db1 = [into_bytes ''alice'' \<mapsto> v1]"
    using register_free [OF demo_auth_ok, of mem new_memory_db demo_salt "''alice''" "''pw''" 98000] new_memory_room(2) users_ok_empty by auto
  have "db_room mem (user_cost demo_auth demo_salt ''bob'' ''pw'' + 96000) db1" using db1(2) by (intro demo_user_room) simp_all
  then obtain db2 v2 where db2: "?reg ''bob'' (Some db1) = (Ok (), Some db2)" "db_room mem 96000 db2"
    "users_ok demo_auth (db_contents mem db2)" "db_contents mem db2 = [into_bytes ''alice'' \<mapsto> v1, into_bytes ''bob'' \<mapsto> v2]"
    using register_free [OF demo_auth_ok db1(3), of demo_salt "''bob''" "''pw''" 96000] db1(4) by auto
  have "demo_users (Some db2)" using db2(2-4) db_room_mono [of mem 96000 0 db2] by (auto simp: demo_users_def)
  moreover have "deployed_run ?D demo_auth [] demo_libs demo_iter demo_frontend [] (demo_frontend\<lparr>fe_auth := Some db1\<rparr>)"
    using dep_register [OF dep_nil [of ?D demo_auth "[]" demo_libs demo_iter demo_frontend], of demo_salt "password_request ''alice'' ''pw''"] db1(1)
    by (simp add: demo_frontend_def)
  from dep_register [OF this, of demo_salt "password_request ''bob'' ''pw''"]
  have "deployed_run ?D demo_auth [] demo_libs demo_iter demo_frontend [] (demo_frontend\<lparr>fe_auth := Some db2\<rparr>)"
    using db2(1) by simp
  ultimately show ?thesis by blast
qed

theorem consent_is_authenticated_witness:
  "\<exists>tr s now a req token. deployed_run (leveldb_kvdb mem) demo_auth [] demo_libs demo_iter demo_frontend tr s \<and>
     (now, a, ApproveTaskCall req) \<in> set tr \<and> fmlookup (metadata req) ''id'' = Some ''alice'' \<and>
     fst (user_authenticate (leveldb_kvdb mem) demo_auth [] now (Request_new \<lparr>cred_id = ''alice'', cred_token = token\<rparr>) a) = Ok True"
proof -
  obtain db2 where db2: "deployed_run (leveldb_kvdb mem) demo_auth [] demo_libs demo_iter demo_frontend [] (demo_frontend\<lparr>fe_auth := Some db2\<rparr>)"
    "demo_users (Some db2)" using demo_registered by blast
  have calls: "list_all (\<lambda>c. \<exists>meta. call_metadata c = Some meta \<and> meta \<in> {user_meta ''alice'', user_meta ''bob''})
      [register_call, create_call, approve_call ''alice'', approve_call ''bob'', invoke_call]"
    by (simp add: register_call_def create_call_def approve_call_def invoke_call_def)
  obtain tr s where s: "deployed_run (leveldb_kvdb mem) demo_auth [] demo_libs demo_iter (demo_frontend\<lparr>fe_auth := Some db2\<rparr>) tr s" "fe_mgmt s = demo_s5"
    using deployed_served [where P = demo_users and M = "\<lambda>meta. meta \<in> {user_meta ''alice'', user_meta ''bob''}",
      OF demo_users_kept demo_users_accepted demo_run calls, where s = "demo_frontend\<lparr>fe_auth := Some db2\<rparr>"] db2(2)
    by (auto simp: demo_frontend_def)
  from deployed_append [OF s(1) db2(1)]
  have run: "deployed_run (leveldb_kvdb mem) demo_auth [] demo_libs demo_iter demo_frontend tr s" by simp
  have "holds demo_libs (S_task demo_libs) demo_s5 (demo_task {|''alice'', ''bob''|} Staged)"
    unfolding demo_s5_def by (rule holds_put_same [OF demo_impls(5)])
  moreover from consent_is_authenticated [OF demo_libs_ok run, unfolded s(2), OF _ demo_pull]
  obtain ts where ts: "holds demo_libs (S_task demo_libs) demo_s5 ts" "st_task_id demo_staged = task_id ts"
    "OwnerList_len (participants ts) \<noteq> 1 \<Longrightarrow> \<forall>u. u |\<in>| participants ts \<longrightarrow>
       (\<exists>now a req token. (now, a, ApproveTaskCall req) \<in> set tr \<and> ext_uuid (message req) = task_id ts \<and>
          fmlookup (metadata req) ''id'' = Some u \<and> fmlookup (metadata req) ''token'' = Some token \<and>
          fst (user_authenticate (leveldb_kvdb mem) demo_auth [] now (Request_new \<lparr>cred_id = u, cred_token = token\<rparr>) a) = Ok True)"
    by (auto simp: demo_frontend_def)
  ultimately have "ts = demo_task {|''alice'', ''bob''|} Staged"
    using holds_unique [OF demo_impls(5) ts(1)] by (simp add: demo_staged_def)
  then have "OwnerList_len (participants ts) \<noteq> 1" "''alice'' |\<in>| participants ts"
    by (simp_all add: OwnerList_len_def fcard_finsert_if)
  with ts(3) run show ?thesis by blast
qed

end
