(* ===== verification/Acs_Python.thy ===== *)
theory Acs_Python
  imports Prelude
begin

text \<open>
  The part of Python 2 that the access control engine evaluates: the expressions
  of the shipped model (names, attributes, calls, \<^verbatim>\<open>or\<close> and \<^verbatim>\<open><=\<close>), the list and
  string displays that the Rust side sends, and what can be built from the same
  tokens. Text that uses anything else has the outcome \<open>Outside\<close>: nothing is
  said about it. An exception is \<open>Raise\<close>, whichever it is, because every entry
  point of the engine catches all of them alike.
\<close>

section \<open>Outcomes\<close>

datatype 'a py = Value 'a | Raise | Outside

fun bind_py :: "'a py \<Rightarrow> ('a \<Rightarrow> 'b py) \<Rightarrow> 'b py" where
  "bind_py (Value a) f = f a"
| "bind_py Raise f = Raise"
| "bind_py Outside f = Outside"

fun traverse_py :: "('a \<Rightarrow> 'b py) \<Rightarrow> 'a list \<Rightarrow> 'b list py" where
  "traverse_py f [] = Value []"
| "traverse_py f (x # xs) = bind_py (f x) (\<lambda>y. bind_py (traverse_py f xs) (\<lambda>ys. Value (y # ys)))"

lemma bind_py_Value_iff: "bind_py m f = Value b \<longleftrightarrow> (\<exists>a. m = Value a \<and> f a = Value b)"
  by (cases m) auto

lemma bind_py_cong [fundef_cong]:
  "m = m' \<Longrightarrow> (\<And>a. m' = Value a \<Longrightarrow> f a = f' a) \<Longrightarrow> bind_py m f = bind_py m' f'"
  by (cases m') auto

lemma traverse_py_cong [fundef_cong]:
  "xs = ys \<Longrightarrow> (\<And>x. x \<in> set ys \<Longrightarrow> f x = g x) \<Longrightarrow> traverse_py f xs = traverse_py g ys"
  by (induction ys arbitrary: xs) auto

section \<open>Tokens\<close>

datatype token = TName string | TStr string | TLpar | TRpar | TLsq | TRsq | TComma | TDot | TLe | TOr | TAnd

definition ALPHA :: "char list" where
  "ALPHA = ''abcdefghijklmnopqrstuvwxyzABCDEFGHIJKLMNOPQRSTUVWXYZ''"

definition DIGIT :: "char list" where
  "DIGIT = ''0123456789''"

definition ident_start :: "char \<Rightarrow> bool" where
  "ident_start c \<longleftrightarrow> c = CHR ''_'' \<or> c \<in> set ALPHA"

definition ident_char :: "char \<Rightarrow> bool" where
  "ident_char c \<longleftrightarrow> c = CHR ''_'' \<or> c \<in> set ALPHA \<or> c \<in> set DIGIT"

definition py_keywords :: "string list" where
  "py_keywords = [''as'', ''assert'', ''break'', ''class'', ''continue'', ''def'', ''del'', ''elif'', ''else'', ''except'',
     ''exec'', ''finally'', ''for'', ''from'', ''global'', ''if'', ''import'', ''in'', ''is'', ''lambda'', ''not'', ''pass'',
     ''print'', ''raise'', ''return'', ''try'', ''while'', ''with'', ''yield'']"

definition word_token :: "string \<Rightarrow> token py" where
  "word_token w =
     (if w = ''or'' then Value TOr else if w = ''and'' then Value TAnd
      else if w \<in> set py_keywords then Outside else Value (TName w))"

definition squote :: char where "squote = CHR 0x27"
definition dquote :: char where "dquote = CHR 0x22"
definition backslash :: char where "backslash = CHR 0x5C"
definition nl :: char where "nl = CHR 0x0A"
definition cr :: char where "cr = CHR 0x0D"
definition tab :: char where "tab = CHR 0x09"

text \<open>
  The body of a string literal after its opening quote, with the text behind the
  closing one. A line break before the closing quote is a syntax error; an escape
  sequence is outside.
\<close>

fun string_body :: "char \<Rightarrow> string \<Rightarrow> (string \<times> string) py" where
  "string_body q [] = Raise"
| "string_body q (c # cs) =
     (if c = q then Value ([], cs)
      else if c = nl \<or> c = cr then Raise
      else if c = backslash then Outside
      else bind_py (string_body q cs) (\<lambda>(s, r). Value (c # s, r)))"

lemma string_body_length: "string_body q cs = Value (s, r) \<Longrightarrow> length r < length cs"
proof (induction q cs arbitrary: s r rule: string_body.induct)
  case (2 q c cs)
  then show ?case by (fastforce split: if_splits simp: bind_py_Value_iff)
qed simp

text \<open>A word right before a quote is the prefix of a literal, three quotes open a long one; both are outside.\<close>

function py_lex :: "string \<Rightarrow> token list py" where
  "py_lex [] = Value []"
| "py_lex (c # cs) =
     (let simple = (\<lambda>t. bind_py (py_lex cs) (\<lambda>ts. Value (t # ts))) in
      if c = CHR '' '' \<or> c = tab then py_lex cs
      else if c = CHR ''('' then simple TLpar
      else if c = CHR '')'' then simple TRpar
      else if c = CHR ''['' then simple TLsq
      else if c = CHR '']'' then simple TRsq
      else if c = CHR '','' then simple TComma
      else if c = CHR ''.'' then simple TDot
      else if c = CHR ''<'' then
        (case cs of d # ds \<Rightarrow> if d = CHR ''='' then bind_py (py_lex ds) (\<lambda>ts. Value (TLe # ts)) else Outside | [] \<Rightarrow> Outside)
      else if c = squote \<or> c = dquote then
        (if take 2 cs = [c, c] then Outside
         else bind_py (string_body c cs) (\<lambda>(s, r). bind_py (py_lex r) (\<lambda>ts. Value (TStr s # ts))))
      else if ident_start c then
        (let w = takeWhile ident_char cs; r = dropWhile ident_char cs in
         if r \<noteq> [] \<and> (hd r = squote \<or> hd r = dquote) then Outside
         else bind_py (word_token (c # w)) (\<lambda>t. bind_py (py_lex r) (\<lambda>ts. Value (t # ts))))
      else Outside)"
  by pat_completeness auto
termination
  by (relation "measure length") (auto dest: string_body_length simp: le_imp_less_Suc length_dropWhile_le)

section \<open>Expressions\<close>

datatype py_expr =
    EName string
  | EStr string
  | EList "py_expr list"
  | EAttr py_expr string
  | ECall py_expr "py_expr list"
  | ELe py_expr py_expr
  | EAnd py_expr py_expr
  | EOr py_expr py_expr

text \<open>
  Recursive descent by the precedence levels of the grammar: disjunctions,
  conjunctions, comparisons, primaries with their trailers, and the arguments up
  to a closing bracket. The number bounds the depth; a text that needs more, or
  that does not derive, is outside.
\<close>

datatype goal = GOr | GAnd | GCmp | GPrim | GTrailers py_expr | GArgs token

primrec derive :: "nat \<Rightarrow> goal \<Rightarrow> token list \<Rightarrow> (py_expr list \<times> token list) option" where
  "derive 0 g ts = None"
| "derive (Suc n) g ts = (case g of
     GOr \<Rightarrow> (case derive n GAnd ts of
       Some ([e], TOr # r) \<Rightarrow> (case derive n GOr r of Some ([e'], r') \<Rightarrow> Some ([EOr e e'], r') | _ \<Rightarrow> None)
     | res \<Rightarrow> res)
   | GAnd \<Rightarrow> (case derive n GCmp ts of
       Some ([e], TAnd # r) \<Rightarrow> (case derive n GAnd r of Some ([e'], r') \<Rightarrow> Some ([EAnd e e'], r') | _ \<Rightarrow> None)
     | res \<Rightarrow> res)
   | GCmp \<Rightarrow> (case derive n GPrim ts of
       Some ([e], TLe # r) \<Rightarrow> (case derive n GPrim r of
         Some ([e'], r') \<Rightarrow> if r' \<noteq> [] \<and> hd r' = TLe then None else Some ([ELe e e'], r')
       | _ \<Rightarrow> None)
     | res \<Rightarrow> res)
   | GPrim \<Rightarrow> (case ts of
       TName x # r \<Rightarrow> derive n (GTrailers (EName x)) r
     | TStr s # r \<Rightarrow> (case r of TStr _ # _ \<Rightarrow> None | _ \<Rightarrow> derive n (GTrailers (EStr s)) r)
     | TLsq # r \<Rightarrow> (case derive n (GArgs TRsq) r of Some (es, r') \<Rightarrow> derive n (GTrailers (EList es)) r' | None \<Rightarrow> None)
     | TLpar # r \<Rightarrow> (case derive n GOr r of Some ([e], TRpar # r') \<Rightarrow> derive n (GTrailers e) r' | _ \<Rightarrow> None)
     | _ \<Rightarrow> None)
   | GTrailers e \<Rightarrow> (case ts of
       TDot # r \<Rightarrow> (case r of TName a # r' \<Rightarrow> derive n (GTrailers (EAttr e a)) r' | _ \<Rightarrow> None)
     | TLpar # r \<Rightarrow> (case derive n (GArgs TRpar) r of Some (es, r') \<Rightarrow> derive n (GTrailers (ECall e es)) r' | None \<Rightarrow> None)
     | TLsq # _ \<Rightarrow> None
     | _ \<Rightarrow> Some ([e], ts))
   | GArgs close \<Rightarrow>
       (if ts \<noteq> [] \<and> hd ts = close then Some ([], tl ts)
        else case derive n GOr ts of
          Some ([e], t # r) \<Rightarrow>
            (if t = close then Some ([e], r)
             else if t = TComma then (case derive n (GArgs close) r of Some (es, r') \<Rightarrow> Some (e # es, r') | None \<Rightarrow> None)
             else None)
        | _ \<Rightarrow> None))"

definition py_compile :: "string \<Rightarrow> py_expr py" where
  "py_compile text = bind_py (py_lex text) (\<lambda>ts.
     case derive (8 * length ts + 8) GOr ts of Some ([e], []) \<Rightarrow> Value e | _ \<Rightarrow> Outside)"

section \<open>Values\<close>

text \<open>
  A term of the model is its arity and its facts, a request its attributes, and a
  query result the list its generator will yield.
\<close>

datatype py_value =
    PyNone
  | PyBool bool
  | PyStr string
  | PyList "py_value list"
  | PyTuple "py_value list"
  | PyPlaceholder
  | PyRequest "(string \<times> py_value) list"
  | PyTerm nat "py_value list list"
  | PyQuery "py_value list"

fun truth :: "py_value \<Rightarrow> bool" where
  "truth PyNone = False"
| "truth (PyBool b) = b"
| "truth (PyStr s) = (s \<noteq> [])"
| "truth (PyList xs) = (xs \<noteq> [])"
| "truth (PyTuple xs) = (xs \<noteq> [])"
| "truth _ = True"

fun hashable :: "py_value \<Rightarrow> bool" where
  "hashable (PyList _) = False"
| "hashable (PyTuple xs) = list_all hashable xs"
| "hashable _ = True"

text \<open>What a sequence or a generator iterates over; a value that is neither raises.\<close>

fun items_of :: "py_value \<Rightarrow> py_value list py" where
  "items_of (PyStr s) = Value (map (\<lambda>c. PyStr [c]) s)"
| "items_of (PyList xs) = Value xs"
| "items_of (PyTuple xs) = Value xs"
| "items_of (PyQuery xs) = Value xs"
| "items_of _ = Raise"

definition set_of :: "py_value \<Rightarrow> py_value set py" where
  "set_of v = bind_py (items_of v) (\<lambda>xs. if list_all hashable xs then Value (set xs) else Raise)"

text \<open>The length is taken of a sequence only, not of a generator.\<close>

fun seq_items :: "py_value \<Rightarrow> py_value list py" where
  "seq_items (PyQuery _) = Raise"
| "seq_items v = items_of v"

end
