(* ===== verification/Acs_Engine.thy ===== *)
theory Acs_Engine
  imports Acs_Python "HOL-Library.AList"
begin

text \<open>
  The access control engine, \<^verbatim>\<open>acs_engine.py\<close>: its parser combinators, the grammar
  of a model, terms with their facts, and the evaluation of requests.

  A \<^verbatim>\<open>Stream\<close> is the rest of its text and its position; a parser is a value of
  \<open>parser\<close> with one constructor per class, and \<open>call\<close> is \<^verbatim>\<open>__call__\<close>. The depth
  argument of \<open>call\<close> is the number of nested calls the interpreter still allows:
  the recursion of \<^verbatim>\<open>Rep\<close> runs into that limit on an inner parser that consumes
  nothing. The texts of error messages are left out.
\<close>

section \<open>Terms and their facts\<close>

record acs_term =
  term_arity :: nat
  term_facts :: "py_value list list"

definition Term_new :: "nat \<Rightarrow> acs_term" where
  "Term_new arity = \<lparr>term_arity = arity, term_facts = []\<rparr>"

definition add_fact :: "py_value \<Rightarrow> acs_term \<Rightarrow> acs_term py" where
  "add_fact fct t =
     bind_py (seq_items fct) (\<lambda>xs.
     if length xs \<noteq> term_arity t \<or> \<not> list_all hashable xs then Raise
     else Value (t\<lparr>term_facts := List.insert xs (term_facts t)\<rparr>))"

definition matches :: "py_value list \<Rightarrow> py_value list \<Rightarrow> bool" where
  "matches args fct \<longleftrightarrow> list_all (\<lambda>(a, b). b = PyPlaceholder \<or> a = b) (zip fct args)"

definition picked :: "py_value list \<Rightarrow> py_value list \<Rightarrow> py_value list" where
  "picked args fct = map fst (filter (\<lambda>(a, b). b = PyPlaceholder) (zip fct args))"

definition term_call :: "nat \<Rightarrow> py_value list list \<Rightarrow> py_value list \<Rightarrow> py_value py" where
  "term_call arity facts args =
     (if length args \<noteq> arity then Raise
      else
        let n_placeholders = length (filter (\<lambda>a. a = PyPlaceholder) args) in
        if n_placeholders = 0
        then Value (PyBool (list_ex (\<lambda>fct. list_all (\<lambda>(a, b). a = b) (zip fct args)) facts))
        else Value (PyQuery (map (\<lambda>fct. let rns = picked args fct in
               if n_placeholders = 1 then hd rns else PyTuple rns) (filter (matches args) facts))))"

text \<open>\<^verbatim>\<open>QueryResult.__le__\<close>\<close>

definition query_le :: "py_value list \<Rightarrow> py_value \<Rightarrow> py_value py" where
  "query_le xs v = bind_py (set_of (PyQuery xs)) (\<lambda>A. bind_py (set_of v) (\<lambda>B. Value (PyBool (A \<subseteq> B))))"

section \<open>Evaluation\<close>

text \<open>A name that is not in the environment is looked up among the globals and built-ins of the interpreter.\<close>

fun py_eval :: "(string \<times> py_value) list \<Rightarrow> py_expr \<Rightarrow> py_value py" where
  "py_eval env (EName x) = (case map_of env x of Some v \<Rightarrow> Value v | None \<Rightarrow> Outside)"
| "py_eval env (EStr s) = Value (PyStr s)"
| "py_eval env (EList es) = bind_py (traverse_py (py_eval env) es) (\<lambda>vs. Value (PyList vs))"
| "py_eval env (EAttr e a) = bind_py (py_eval env e) (\<lambda>v. case v of
     PyRequest attrs \<Rightarrow> (case map_of attrs a of Some w \<Rightarrow> Value w | None \<Rightarrow> Outside)
   | _ \<Rightarrow> Outside)"
| "py_eval env (ECall e es) = bind_py (py_eval env e) (\<lambda>f. bind_py (traverse_py (py_eval env) es) (\<lambda>args.
     case f of PyTerm arity facts \<Rightarrow> term_call arity facts args | _ \<Rightarrow> Raise))"
| "py_eval env (ELe e e') = bind_py (py_eval env e) (\<lambda>v. bind_py (py_eval env e') (\<lambda>w.
     case v of PyQuery xs \<Rightarrow> query_le xs w | _ \<Rightarrow> Outside))"
| "py_eval env (EAnd e e') = bind_py (py_eval env e) (\<lambda>v. if truth v then py_eval env e' else Value v)"
| "py_eval env (EOr e e') = bind_py (py_eval env e) (\<lambda>v. if truth v then Value v else py_eval env e')"

section \<open>Streams\<close>

record stream =
  st_rest :: string
  st_pos :: nat

definition WHITESPACES :: "char list" where
  "WHITESPACES = [CHR '' '', tab, cr]"

definition advance :: "nat \<Rightarrow> stream \<Rightarrow> stream" where
  "advance n s = \<lparr>st_rest = drop n (st_rest s), st_pos = st_pos s + n\<rparr>"

definition skip_whitespace :: "stream \<Rightarrow> stream" where
  "skip_whitespace s = advance (length (takeWhile (\<lambda>c. c \<in> set WHITESPACES) (st_rest s))) s"

definition stream_end :: "stream \<Rightarrow> bool" where
  "stream_end s \<longleftrightarrow> st_rest s = []"

definition is_prefix :: "string \<Rightarrow> string \<Rightarrow> bool" where
  "is_prefix p s \<longleftrightarrow> take (length p) s = p"

definition accept_strlit :: "string \<Rightarrow> stream \<Rightarrow> stream option" where
  "accept_strlit lit s =
     (let s' = skip_whitespace s;
          match_pos = length (takeWhile (\<lambda>c. c \<in> set WHITESPACES) lit);
          string = drop match_pos lit in
      if st_pos s' < match_pos then None
      else if is_prefix string (st_rest s') then Some (advance (length string) s')
      else None)"

section \<open>Parsers\<close>

datatype payload =
    PlNone
  | PlStr string
  | PlCode py_expr
  | PlList "payload list"
  | PlPair payload payload
  | PlLeft payload
  | PlRight payload

text \<open>A matcher returns the object it recognised and the number of characters it took.\<close>

type_synonym matcher = "string \<Rightarrow> (payload \<times> nat) option py"

datatype parser =
    Optional parser
  | StrLiteral string
  | CustomMatcher matcher
  | Concat parser parser
  | Or parser parser
  | Rep parser
  | Apply parser "payload \<Rightarrow> payload py"
  | Ignore parser

definition accept_matcher :: "matcher \<Rightarrow> stream \<Rightarrow> (payload \<times> stream) option py" where
  "accept_matcher m s =
     (let s' = skip_whitespace s in
      bind_py (m (st_rest s')) (\<lambda>r. Value (case r of None \<Rightarrow> None | Some (obj, n) \<Rightarrow> Some (obj, advance n s'))))"

datatype pstate = Success stream payload | Failure

fun fmap_state :: "(payload \<Rightarrow> payload py) \<Rightarrow> pstate \<Rightarrow> pstate py" where
  "fmap_state f (Success s p) = bind_py (f p) (\<lambda>p'. Value (Success s p'))"
| "fmap_state f Failure = Value Failure"

fun is_Ignore :: "parser \<Rightarrow> bool" where
  "is_Ignore (Ignore _) = True"
| "is_Ignore _ = False"

primrec call :: "nat \<Rightarrow> parser \<Rightarrow> stream \<Rightarrow> pstate py" where
  "call 0 p s = Raise"
| "call (Suc d) p s = (case p of
     Optional q \<Rightarrow> bind_py (call d q s) (\<lambda>st. case st of
         Success s' x \<Rightarrow> Value (Success s' (PlLeft x)) | Failure \<Rightarrow> Value (Success s (PlRight PlNone)))
   | StrLiteral lit \<Rightarrow>
       (if stream_end s then Value Failure
        else Value (case accept_strlit lit s of Some s' \<Rightarrow> Success s' (PlStr lit) | None \<Rightarrow> Failure))
   | CustomMatcher m \<Rightarrow> bind_py (accept_matcher m s) (\<lambda>r.
       Value (case r of Some (obj, s') \<Rightarrow> Success s' obj | None \<Rightarrow> Failure))
   | Concat p1 p2 \<Rightarrow> bind_py (call d p1 s) (\<lambda>st. case st of
         Failure \<Rightarrow> Value Failure
       | Success s1 x1 \<Rightarrow> bind_py (call d p2 s1) (\<lambda>st'. Value (case st' of
             Failure \<Rightarrow> Failure
           | Success s2 x2 \<Rightarrow> Success s2 (if is_Ignore p1 then x2 else if is_Ignore p2 then x1 else PlPair x1 x2))))
   | Or p1 p2 \<Rightarrow> bind_py (call d p1 s) (\<lambda>st. case st of
         Success s' x \<Rightarrow> Value (Success s' (PlLeft x))
       | Failure \<Rightarrow> bind_py (call d p2 s) (fmap_state (\<lambda>x. Value (PlRight x))))
   | Rep q \<Rightarrow> bind_py (call d q s) (\<lambda>st. case st of
         Failure \<Rightarrow> Value (Success s (PlList []))
       | Success s1 x \<Rightarrow> bind_py (call d p s1) (\<lambda>st'. case st' of
             Success s2 (PlList xs) \<Rightarrow> Value (Success s2 (PlList (x # xs)))
           | Success s2 _ \<Rightarrow> Raise
           | Failure \<Rightarrow> Value (Success s1 (PlList [x]))))
   | Apply q f \<Rightarrow> bind_py (call d q s) (fmap_state f)
   | Ignore q \<Rightarrow> call d q s)"

definition p_add :: "parser \<Rightarrow> parser \<Rightarrow> parser" where
  "p_add p q = (if is_Ignore p \<and> is_Ignore q then Ignore (Concat p q) else Concat p q)"

definition parse_from :: "nat \<Rightarrow> parser \<Rightarrow> stream \<Rightarrow> payload py" where
  "parse_from d p s = bind_py (call d p s) (\<lambda>st. case st of
     Failure \<Rightarrow> Raise
   | Success s' x \<Rightarrow> if stream_end s' then Value x else Raise)"

section \<open>The grammar of a model\<close>

fun flatten :: "payload \<Rightarrow> payload list" where
  "flatten (PlPair a b) = flatten a @ flatten b"
| "flatten x = [x]"

definition rep_with_sep :: "parser \<Rightarrow> parser \<Rightarrow> parser" where
  "rep_with_sep to_rep sep =
     (let sep = (if is_Ignore sep then sep else Ignore sep) in
      Apply (p_add to_rep (Rep (p_add sep to_rep)))
        (\<lambda>x. case x of PlPair a (PlList xs) \<Rightarrow> Value (PlList (a # xs)) | _ \<Rightarrow> Raise))"

definition identifier_matcher :: matcher where
  "identifier_matcher text = Value (case text of
     [] \<Rightarrow> None
   | first # r \<Rightarrow>
       if first \<noteq> CHR ''_'' \<and> first \<notin> set ALPHA then None
       else let w = first # takeWhile ident_char r in Some (PlStr w, length w))"

definition pyparser_matcher :: matcher where
  "pyparser_matcher text =
     (let line = takeWhile (\<lambda>c. c \<noteq> nl) text in
      if line = text then Value None
      else case py_compile line of
        Value e \<Rightarrow> Value (Some (PlCode e, length line))
      | Raise \<Rightarrow> Value None
      | Outside \<Rightarrow> Outside)"

definition Equal :: parser where "Equal = Ignore (StrLiteral ''='')"
definition Comma :: parser where "Comma = Ignore (StrLiteral '','')"
definition NewLine :: parser where "NewLine = Ignore (Rep (StrLiteral [nl]))"
definition Identifier :: parser where "Identifier = CustomMatcher identifier_matcher"
definition IdTuple :: parser where "IdTuple = rep_with_sep Identifier Comma"
definition Definition :: parser where "Definition = p_add (p_add (p_add Identifier Equal) IdTuple) NewLine"
definition PyExpr :: parser where "PyExpr = CustomMatcher pyparser_matcher"
definition Matcher :: parser where "Matcher = p_add (p_add (p_add Identifier Equal) PyExpr) NewLine"

definition RequestDefHeader :: parser where "RequestDefHeader = p_add (StrLiteral ''[requests]'') NewLine"
definition TermDefHeader :: parser where "TermDefHeader = p_add (StrLiteral ''[terms]'') NewLine"
definition MatchersHeader :: parser where "MatchersHeader = p_add (StrLiteral ''[matchers]'') NewLine"

definition RequestDefSec :: parser where "RequestDefSec = p_add (Ignore RequestDefHeader) (Rep Definition)"
definition TermDefSec :: parser where "TermDefSec = p_add (Ignore TermDefHeader) (Rep Definition)"
definition MatchersSec :: parser where "MatchersSec = p_add (Ignore MatchersHeader) (Rep Matcher)"

definition ModelDef :: parser where
  "ModelDef = Apply (p_add (p_add RequestDefSec TermDefSec) MatchersSec) (\<lambda>x. Value (PlList (flatten x)))"

subsection \<open>Preparing the text\<close>

fun join_lines :: "string \<Rightarrow> string" where
  "join_lines [] = []"
| "join_lines (c # cs) =
     (if c = backslash \<and> cs \<noteq> [] \<and> hd cs = nl then join_lines (tl cs) else c # join_lines cs)"

text \<open>\<^verbatim>\<open>str.splitlines\<close> ends a line at a line feed, a carriage return or the two together.\<close>

fun splitlines :: "string \<Rightarrow> string list" where
  "splitlines [] = []"
| "splitlines (c # cs) =
     (if c = nl then [] # splitlines cs
      else if c = cr then [] # splitlines (if cs \<noteq> [] \<and> hd cs = nl then tl cs else cs)
      else case splitlines cs of [] \<Rightarrow> [[c]] | l # ls \<Rightarrow>
        (if cs \<noteq> [] \<and> (hd cs = nl \<or> hd cs = cr) then [c] # ls else (c # l) # ls))"

fun join_with :: "char \<Rightarrow> string list \<Rightarrow> string" where
  "join_with c [] = []"
| "join_with c [l] = l"
| "join_with c (l # ls) = l @ c # join_with c ls"

definition strip :: "string \<Rightarrow> string" where
  "strip s = (let ws = (\<lambda>c. c \<in> set [CHR '' '', tab, nl, cr, CHR 0x0B, CHR 0x0C]) in
     rev (dropWhile ws (rev (dropWhile ws s))))"

definition preprocess :: "string \<Rightarrow> string" where
  "preprocess conf =
     strip (join_with nl (map (takeWhile (\<lambda>c. c \<noteq> CHR ''#'')) (splitlines (join_lines conf)))) @ [nl]"

definition parse_model :: "nat \<Rightarrow> string \<Rightarrow> payload py" where
  "parse_model d text = parse_from d ModelDef \<lparr>st_rest = preprocess text, st_pos = 0\<rparr>"

section \<open>Models\<close>

record perm_model =
  request_template :: "(string \<times> string list) list"
  term_knowledge_base :: "(string \<times> acs_term) list"
  matchers :: "(string \<times> py_expr) list"

text \<open>A dictionary is an association list with distinct keys; a later binding replaces an earlier one.\<close>

definition dict_of :: "('k \<times> 'v) list \<Rightarrow> ('k \<times> 'v) list" where
  "dict_of kvs = fold (\<lambda>(k, v). AList.update k v) kvs []"

fun entry_of :: "payload \<Rightarrow> (string \<times> payload) py" where
  "entry_of (PlPair (PlStr k) x) = Value (k, x)"
| "entry_of _ = Raise"

fun name_of :: "payload \<Rightarrow> string py" where
  "name_of (PlStr s) = Value s"
| "name_of _ = Raise"

fun names_of :: "string \<times> payload \<Rightarrow> (string \<times> string list) py" where
  "names_of (k, PlList xs) = bind_py (traverse_py name_of xs) (\<lambda>ns. Value (k, ns))"
| "names_of _ = Raise"

fun code_of :: "string \<times> payload \<Rightarrow> (string \<times> py_expr) py" where
  "code_of (k, PlCode e) = Value (k, e)"
| "code_of _ = Raise"

fun Model_new :: "payload \<Rightarrow> perm_model py" where
  "Model_new (PlList [PlList request_def, PlList term_def, PlList matcher_def]) =
     bind_py (traverse_py entry_of request_def) (\<lambda>rs. bind_py (traverse_py names_of rs) (\<lambda>rs.
     bind_py (traverse_py entry_of term_def) (\<lambda>ts. bind_py (traverse_py names_of ts) (\<lambda>ts.
     bind_py (traverse_py entry_of matcher_def) (\<lambda>ms. bind_py (traverse_py code_of ms) (\<lambda>ms.
     let rs = dict_of rs; ts = dict_of ts; ms = dict_of ms in
     if list_ex (\<lambda>k. k \<in> set (map fst ts)) (map fst rs) then Raise
     else if \<not> list_all (\<lambda>k. k \<in> set (map fst ms)) (map fst rs) then Raise
     else if \<not> list_all (\<lambda>k. k \<in> set (map fst rs)) (map fst ms) then Raise
     else Value \<lparr>request_template = rs,
                 term_knowledge_base = map (\<lambda>(k, tpl). (k, Term_new (length tpl))) ts,
                 matchers = ms\<rparr>))))))"
| "Model_new _ = Raise"

definition add_term_item :: "string \<Rightarrow> py_value \<Rightarrow> perm_model \<Rightarrow> perm_model py" where
  "add_term_item term_name fct m = (case map_of (term_knowledge_base m) term_name of
     None \<Rightarrow> Raise
   | Some t \<Rightarrow> bind_py (add_fact fct t) (\<lambda>t'.
       Value (m\<lparr>term_knowledge_base := AList.update term_name t' (term_knowledge_base m)\<rparr>)))"

text \<open>\<^verbatim>\<open>Request.__init__\<close>: later attributes replace earlier ones of the same name.\<close>

definition Request_init :: "string list \<Rightarrow> py_value \<Rightarrow> py_value py" where
  "Request_init attrs content = bind_py (seq_items content) (\<lambda>vals.
     if length attrs \<noteq> length vals then Raise else Value (PyRequest (rev (zip attrs vals))))"

definition enforcer_env :: "perm_model \<Rightarrow> string \<Rightarrow> py_value \<Rightarrow> (string \<times> py_value) list" where
  "enforcer_env m request_type request =
     map (\<lambda>(k, t). (k, PyTerm (term_arity t) (term_facts t))) (term_knowledge_base m) @
     [(''X'', PyNone), (''_'', PyPlaceholder), (''null'', PyNone), (''false'', PyBool False), (''true'', PyBool True),
      (request_type, request)]"

definition enforce :: "perm_model \<Rightarrow> string \<Rightarrow> py_value \<Rightarrow> py_value py" where
  "enforce m request_type content =
     (case (map_of (request_template m) request_type, map_of (matchers m) request_type) of
        (Some tpl, Some matcher) \<Rightarrow> bind_py (Request_init tpl content) (\<lambda>request.
          py_eval (enforcer_env m request_type request) matcher)
      | _ \<Rightarrow> Raise)"

section \<open>Entry points\<close>

text \<open>
  The entry points are called through the foreign function interface, which turns
  the returned object into a 32-bit integer by the function \<open>conv\<close>. Each of them
  catches every exception and returns -1 for it.
\<close>

definition except_minus_one :: "'a py \<Rightarrow> ('a \<Rightarrow> 'b) \<Rightarrow> 'b \<Rightarrow> 'b option" where
  "except_minus_one r f err = (case r of Value a \<Rightarrow> Some (f a) | Raise \<Rightarrow> Some err | Outside \<Rightarrow> None)"

definition acs_setup_model :: "nat \<Rightarrow> string \<Rightarrow> perm_model option \<Rightarrow> (32 word \<times> perm_model option) option" where
  "acs_setup_model d conf g =
     except_minus_one (bind_py (parse_model d conf) Model_new) (\<lambda>m. (0, Some m)) (- 1, g)"

definition acs_enforce_request :: "(py_value \<Rightarrow> 32 word) \<Rightarrow> string \<Rightarrow> string \<Rightarrow> perm_model option \<Rightarrow> 32 word option" where
  "acs_enforce_request conv request_type request_content g =
     except_minus_one
       (bind_py (py_compile request_content) (\<lambda>e. bind_py (py_eval [] e) (\<lambda>content.
        case g of None \<Rightarrow> Raise | Some m \<Rightarrow> enforce m request_type content)))
       conv (- 1)"

definition acs_announce_fact :: "string \<Rightarrow> string \<Rightarrow> perm_model option \<Rightarrow> (32 word \<times> perm_model option) option" where
  "acs_announce_fact term_type term_fact g =
     except_minus_one
       (bind_py (py_compile term_fact) (\<lambda>e. bind_py (py_eval [] e) (\<lambda>fct.
        case g of None \<Rightarrow> Raise | Some m \<Rightarrow> add_term_item term_type fct m)))
       (\<lambda>m. (0, Some m)) (- 1, g)"

end
