(* ===== verification/Acs_Grammar.thy ===== *)
theory Acs_Grammar
  imports Acs_Engine
begin

text \<open>
  What the lexer and the parser of the access control engine do with a text that
  was printed from its meaning: tokens are read back from their spelling, and the
  sections of a model from their entries. The bounds are the nesting depths of the
  calls. From this the model that the repository ships is read.
\<close>

section \<open>Spelling of tokens\<close>

fun spell :: "token \<Rightarrow> string" where
  "spell (TName w) = w"
| "spell (TStr s) = squote # s @ [squote]"
| "spell TLpar = ''(''"
| "spell TRpar = '')''"
| "spell TLsq = ''[''"
| "spell TRsq = '']''"
| "spell TComma = '',''"
| "spell TDot = ''.''"
| "spell TLe = ''<=''"
| "spell TOr = ''or''"
| "spell TAnd = ''and''"

text \<open>A string that can be quoted without an escape sequence.\<close>

definition plain :: "string \<Rightarrow> bool" where
  "plain s \<longleftrightarrow> list_all (\<lambda>c. c \<noteq> squote \<and> c \<noteq> backslash \<and> c \<noteq> nl \<and> c \<noteq> cr) s"

definition is_identifier :: "string \<Rightarrow> bool" where
  "is_identifier w \<longleftrightarrow> w \<noteq> [] \<and> ident_start (hd w) \<and> list_all ident_char (tl w)"

fun token_ok :: "token \<Rightarrow> bool" where
  "token_ok (TName w) = (is_identifier w \<and> w \<notin> set (''or'' # ''and'' # py_keywords))"
| "token_ok (TStr s) = plain s"
| "token_ok _ = True"

fun wordlike :: "token \<Rightarrow> bool" where
  "wordlike (TName _) = True"
| "wordlike (TStr _) = True"
| "wordlike TOr = True"
| "wordlike TAnd = True"
| "wordlike _ = False"

text \<open>Every token with the number of blanks behind it.\<close>

definition text_of :: "(token \<times> nat) list \<Rightarrow> string" where
  "text_of ps = concat (map (\<lambda>(t, n). spell t @ replicate n (CHR '' '')) ps)"

fun spaced :: "(token \<times> nat) list \<Rightarrow> bool" where
  "spaced [] = True"
| "spaced [p] = True"
| "spaced ((t, n) # (t', m) # ps) = ((n = 0 \<and> wordlike t \<longrightarrow> \<not> wordlike t') \<and> spaced ((t', m) # ps))"

definition ends_word :: "string \<Rightarrow> bool" where
  "ends_word r \<longleftrightarrow> r = [] \<or> (\<not> ident_char (hd r) \<and> hd r \<noteq> squote \<and> hd r \<noteq> dquote)"

declare py_lex.simps(2) [simp del]

abbreviation then_lex :: "token \<Rightarrow> string \<Rightarrow> token list py" where
  "then_lex t r \<equiv> bind_py (py_lex r) (\<lambda>ts. Value (t # ts))"

lemma lex_punctuation [simp]:
  "py_lex (CHR '' '' # r) = py_lex r"
  "py_lex (CHR ''('' # r) = then_lex TLpar r"
  "py_lex (CHR '')'' # r) = then_lex TRpar r"
  "py_lex (CHR ''['' # r) = then_lex TLsq r"
  "py_lex (CHR '']'' # r) = then_lex TRsq r"
  "py_lex (CHR '','' # r) = then_lex TComma r"
  "py_lex (CHR ''.'' # r) = then_lex TDot r"
  "py_lex (CHR ''<'' # CHR ''='' # r) = then_lex TLe r"
  by (simp_all add: py_lex.simps(2) tab_def)

lemma string_body_plain: "plain s \<Longrightarrow> string_body squote (s @ squote # r) = Value (s, r)"
  by (induction s) (auto simp: plain_def)

lemma lex_blanks: "py_lex (replicate n (CHR '' '') @ r) = py_lex r"
  by (induction n) simp_all

lemma ident_start_other:
  assumes "ident_start c"
  shows "ident_char c" "c \<noteq> CHR '' ''" "c \<noteq> tab" "c \<notin> set ''()[],.<''" "c \<noteq> squote" "c \<noteq> dquote"
  using assms by (auto simp: ident_start_def ident_char_def ALPHA_def tab_def squote_def dquote_def)

lemma takeWhile_ends:
  "list_all P w \<Longrightarrow> r = [] \<or> \<not> P (hd r) \<Longrightarrow> takeWhile P (w @ r) = w \<and> dropWhile P (w @ r) = r"
  by (induction w) (cases r, auto)+

lemma lex_identifier:
  assumes "is_identifier w" "ends_word r"
  shows "py_lex (w @ r) = bind_py (word_token w) (\<lambda>t. bind_py (py_lex r) (\<lambda>ts. Value (t # ts)))"
proof -
  obtain c v where w: "w = c # v" "ident_start c" "list_all ident_char v"
    using assms(1) by (cases w) (auto simp: is_identifier_def)
  have "takeWhile ident_char (v @ r) = v" "dropWhile ident_char (v @ r) = r"
    using takeWhile_ends [OF w(3)] assms(2) by (auto simp: ends_word_def)
  then show ?thesis using assms(2) ident_start_other [OF w(2)] w(2)
    by (auto simp: w(1) ends_word_def py_lex.simps(2) Let_def)
qed

lemma lex_string: "plain s \<Longrightarrow> r = [] \<or> hd r \<noteq> squote \<Longrightarrow>
    py_lex (squote # s @ squote # r) = bind_py (py_lex r) (\<lambda>ts. Value (TStr s # ts))"
proof -
  assume s: "plain s" and r: "r = [] \<or> hd r \<noteq> squote"
  have "take 2 (s @ squote # r) \<noteq> [squote, squote]"
    using s r by (cases s; cases r) (auto simp: plain_def)
  then show ?thesis using string_body_plain [OF s, of r]
    by (simp add: py_lex.simps(2) squote_def tab_def)
qed

lemma lex_token:
  assumes "token_ok t" "wordlike t \<longrightarrow> ends_word r"
  shows "py_lex (spell t @ r) = bind_py (py_lex r) (\<lambda>ts. Value (t # ts))"
proof (cases t)
  case (TName w)
  then show ?thesis using assms lex_identifier [of w r] by (simp add: word_token_def)
next
  case (TStr s)
  then show ?thesis using assms lex_string [of s r] by (auto simp: ends_word_def)
next
  case TOr
  have "is_identifier ''or''" by code_simp
  then show ?thesis using TOr assms lex_identifier [of "''or''" r] by (simp add: word_token_def)
next
  case TAnd
  have "is_identifier ''and''" by code_simp
  then show ?thesis using TAnd assms lex_identifier [of "''and''" r] by (simp add: word_token_def)
qed simp_all

lemma spell_starts:
  assumes "token_ok t" "\<not> wordlike t"
  shows "ends_word (spell t @ r)"
  using assms by (cases t) (simp_all add: ends_word_def ident_char_def ALPHA_def DIGIT_def squote_def dquote_def)

lemma ends_word_blank: "ends_word (CHR '' '' # r)"
  by (simp add: ends_word_def ident_char_def ALPHA_def DIGIT_def squote_def dquote_def)

lemma py_lex_text: "list_all (\<lambda>(t, n). token_ok t) ps \<Longrightarrow> spaced ps \<Longrightarrow> py_lex (text_of ps) = Value (map fst ps)"
proof (induction ps rule: spaced.induct)
  case (3 t n t' m ps)
  have "wordlike t \<longrightarrow> ends_word (replicate n (CHR '' '') @ text_of ((t', m) # ps))"
    using 3(2,3) ends_word_blank spell_starts by (cases n) (auto simp: text_of_def)
  from lex_token [OF _ this] 3 show ?case by (simp add: text_of_def lex_blanks)
next
  case (2 p)
  obtain t n where p: "p = (t, n)" by fastforce
  have "wordlike t \<longrightarrow> ends_word (replicate n (CHR '' ''))"
    using ends_word_blank by (cases n) (auto simp: ends_word_def)
  from lex_token [OF _ this] 2 show ?case using lex_blanks [of n "[]"] by (simp add: text_of_def p)
qed (simp add: text_of_def)

section \<open>Parsers on a text\<close>

text \<open>With depth \<open>n\<close> or more, the parser takes the text to the rest \<open>r\<close>, or fails on it, from any position.\<close>

definition reads :: "nat \<Rightarrow> parser \<Rightarrow> string \<Rightarrow> string \<Rightarrow> payload \<Rightarrow> bool" where
  "reads n p t r x \<longleftrightarrow> (\<forall>d pos. n \<le> d \<longrightarrow>
     (\<exists>pos'. call d p \<lparr>st_rest = t, st_pos = pos\<rparr> = Value (Success \<lparr>st_rest = r, st_pos = pos'\<rparr> x)))"

definition stops :: "nat \<Rightarrow> parser \<Rightarrow> string \<Rightarrow> bool" where
  "stops n p t \<longleftrightarrow> (\<forall>d pos. n \<le> d \<longrightarrow> call d p \<lparr>st_rest = t, st_pos = pos\<rparr> = Value Failure)"

lemma readsI:
  assumes "\<And>d pos. n \<le> d \<Longrightarrow> \<exists>pos'. call (Suc d) p \<lparr>st_rest = t, st_pos = pos\<rparr> = Value (Success \<lparr>st_rest = r, st_pos = pos'\<rparr> x)"
  shows "reads (Suc n) p t r x"
  unfolding reads_def using assms by (metis Suc_le_D Suc_le_mono)

lemma stopsI:
  assumes "\<And>d pos. n \<le> d \<Longrightarrow> call (Suc d) p \<lparr>st_rest = t, st_pos = pos\<rparr> = Value Failure"
  shows "stops (Suc n) p t"
  unfolding stops_def using assms by (metis Suc_le_D Suc_le_mono)

lemma readsE:
  assumes "reads n p t r x" "n \<le> d"
  obtains pos' where "call d p \<lparr>st_rest = t, st_pos = pos\<rparr> = Value (Success \<lparr>st_rest = r, st_pos = pos'\<rparr> x)"
  using assms unfolding reads_def by blast

lemma reads_Concat:
  assumes "reads n p t t1 x1" "reads m q t1 t2 x2"
  shows "reads (Suc (max n m)) (Concat p q) t t2 (if is_Ignore p then x2 else if is_Ignore q then x1 else PlPair x1 x2)"
proof (rule readsI)
  fix d pos assume "max n m \<le> d"
  then have d: "n \<le> d" "m \<le> d" by auto
  obtain p1 where "call d p \<lparr>st_rest = t, st_pos = pos\<rparr> = Value (Success \<lparr>st_rest = t1, st_pos = p1\<rparr> x1)"
    using readsE [OF assms(1) d(1)] .
  moreover obtain p2 where "call d q \<lparr>st_rest = t1, st_pos = p1\<rparr> = Value (Success \<lparr>st_rest = t2, st_pos = p2\<rparr> x2)"
    using readsE [OF assms(2) d(2)] .
  ultimately show "\<exists>pos'. call (Suc d) (Concat p q) \<lparr>st_rest = t, st_pos = pos\<rparr> =
      Value (Success \<lparr>st_rest = t2, st_pos = pos'\<rparr> (if is_Ignore p then x2 else if is_Ignore q then x1 else PlPair x1 x2))"
    by simp
qed

lemma stops_Concat: "stops n p t \<Longrightarrow> stops (Suc n) (Concat p q) t"
  by (rule stopsI) (simp add: stops_def)

lemma reads_Rep_nil: "stops n p t \<Longrightarrow> reads (Suc n) (Rep p) t t (PlList [])"
  by (rule readsI) (simp add: stops_def)

lemma reads_Rep_Cons:
  assumes "reads n p t t1 x" "reads m (Rep p) t1 t2 (PlList xs)"
  shows "reads (Suc (max n m)) (Rep p) t t2 (PlList (x # xs))"
proof (rule readsI)
  fix d pos assume "max n m \<le> d"
  then have d: "n \<le> d" "m \<le> d" by auto
  obtain p1 where "call d p \<lparr>st_rest = t, st_pos = pos\<rparr> = Value (Success \<lparr>st_rest = t1, st_pos = p1\<rparr> x)"
    using readsE [OF assms(1) d(1)] .
  moreover obtain p2 where "call d (Rep p) \<lparr>st_rest = t1, st_pos = p1\<rparr> = Value (Success \<lparr>st_rest = t2, st_pos = p2\<rparr> (PlList xs))"
    using readsE [OF assms(2) d(2)] .
  ultimately show "\<exists>pos'. call (Suc d) (Rep p) \<lparr>st_rest = t, st_pos = pos\<rparr> = Value (Success \<lparr>st_rest = t2, st_pos = pos'\<rparr> (PlList (x # xs)))"
    by simp
qed

lemma reads_Apply: "reads n p t r x \<Longrightarrow> f x = Value y \<Longrightarrow> reads (Suc n) (Apply p f) t r y"
proof (rule readsI)
  fix d pos assume x: "reads n p t r x" "f x = Value y" "n \<le> d"
  obtain p1 where "call d p \<lparr>st_rest = t, st_pos = pos\<rparr> = Value (Success \<lparr>st_rest = r, st_pos = p1\<rparr> x)"
    using readsE [OF x(1,3)] .
  then show "\<exists>pos'. call (Suc d) (Apply p f) \<lparr>st_rest = t, st_pos = pos\<rparr> = Value (Success \<lparr>st_rest = r, st_pos = pos'\<rparr> y)"
    using x(2) by simp
qed

lemma stops_Apply: "stops n p t \<Longrightarrow> stops (Suc n) (Apply p f) t"
  by (rule stopsI) (simp add: stops_def)

lemma reads_Ignore: "reads n p t r x \<Longrightarrow> reads (Suc n) (Ignore p) t r x"
  by (rule readsI) (simp add: reads_def)

lemma stops_Ignore: "stops n p t \<Longrightarrow> stops (Suc n) (Ignore p) t"
  by (rule stopsI) (simp add: stops_def)

lemma reads_mono: "reads n p t r x \<Longrightarrow> n \<le> m \<Longrightarrow> reads m p t r x"
  by (simp add: reads_def)

lemma stops_mono: "stops n p t \<Longrightarrow> n \<le> m \<Longrightarrow> stops m p t"
  by (simp add: stops_def)

definition blank :: "char \<Rightarrow> bool" where
  "blank = (\<lambda>c. c \<in> set WHITESPACES)"

lemma skip_whitespace_text: "skip_whitespace \<lparr>st_rest = t, st_pos = pos\<rparr> =
    \<lparr>st_rest = dropWhile blank t, st_pos = pos + length (takeWhile blank t)\<rparr>"
  by (simp add: skip_whitespace_def advance_def dropWhile_eq_drop blank_def)

lemma accept_strlit_text:
  "lit \<noteq> [] \<Longrightarrow> \<not> blank (hd lit) \<Longrightarrow> accept_strlit lit \<lparr>st_rest = t, st_pos = pos\<rparr> =
     (if is_prefix lit (dropWhile blank t)
      then Some (advance (length lit) (skip_whitespace \<lparr>st_rest = t, st_pos = pos\<rparr>)) else None)"
  by (cases lit) (simp_all add: accept_strlit_def skip_whitespace_text blank_def)

lemma reads_StrLiteral:
  assumes "lit \<noteq> []" "\<not> blank (hd lit)" "dropWhile blank t = lit @ r"
  shows "reads (Suc 0) (StrLiteral lit) t r (PlStr lit)"
proof -
  have "t \<noteq> []" using assms by auto
  then have "\<exists>pos'. call (Suc d) (StrLiteral lit) \<lparr>st_rest = t, st_pos = pos\<rparr> = Value (Success \<lparr>st_rest = r, st_pos = pos'\<rparr> (PlStr lit))" for d pos
    using assms(3) accept_strlit_text [OF assms(1,2), of t pos]
    by (simp add: stream_end_def is_prefix_def skip_whitespace_text advance_def)
  then show ?thesis using readsI [of 0] by simp
qed

lemma stops_StrLiteral:
  "lit \<noteq> [] \<Longrightarrow> \<not> blank (hd lit) \<Longrightarrow> \<not> is_prefix lit (dropWhile blank t) \<Longrightarrow> stops (Suc 0) (StrLiteral lit) t"
  using stopsI [of 0 "StrLiteral lit" t] by (simp add: accept_strlit_text)

lemma reads_CustomMatcher:
  assumes "m (dropWhile blank t) = Value (Some (x, k))" "drop k (dropWhile blank t) = r"
  shows "reads (Suc 0) (CustomMatcher m) t r x"
  using readsI [of 0 "CustomMatcher m" t r x] assms by (simp add: accept_matcher_def skip_whitespace_text advance_def)

lemma stops_CustomMatcher: "m (dropWhile blank t) = Value None \<Longrightarrow> stops (Suc 0) (CustomMatcher m) t"
  using stopsI [of 0 "CustomMatcher m" t] by (simp add: accept_matcher_def skip_whitespace_text)

section \<open>The sections of a model\<close>

definition fresh_line :: "string \<Rightarrow> bool" where
  "fresh_line r \<longleftrightarrow> r = [] \<or> \<not> blank (hd r) \<and> hd r \<noteq> nl"

lemma blank_simps [simp]:
  "blank (CHR '' '')" "\<not> blank nl" "\<not> blank (CHR '','')" "\<not> blank (CHR ''='')" "\<not> blank (CHR ''['')"
  by (simp_all add: blank_def WHITESPACES_def nl_def tab_def cr_def)

lemma dropWhile_blank_id [simp]: "t = [] \<or> \<not> blank (hd t) \<Longrightarrow> dropWhile blank t = t"
  by (cases t) auto

lemma reads_newlines: "fresh_line r \<Longrightarrow> reads (k + 2) (Rep (StrLiteral [nl])) (replicate k nl @ r) r (PlList (replicate k (PlStr [nl])))"
proof (induction k)
  case 0
  then have "stops (Suc 0) (StrLiteral [nl]) r"
    by (cases r) (auto simp: fresh_line_def is_prefix_def intro!: stops_StrLiteral)
  from reads_Rep_nil [OF this] show ?case by (simp add: numeral_2_eq_2)
next
  case (Suc k)
  have "reads (Suc 0) (StrLiteral [nl]) (replicate (Suc k) nl @ r) (replicate k nl @ r) (PlStr [nl])"
    by (rule reads_StrLiteral) simp_all
  from reads_Rep_Cons [OF this Suc.IH [OF Suc.prems]] show ?case by simp
qed

lemma reads_NewLine: "fresh_line r \<Longrightarrow> reads (k + 3) NewLine (replicate k nl @ r) r (PlList (replicate k (PlStr [nl])))"
  unfolding NewLine_def using reads_Ignore [OF reads_newlines] by (simp add: numeral_3_eq_3 numeral_2_eq_2)

lemmas reads_NewLine_Suc = reads_NewLine [of _ "Suc k" for k, unfolded replicate_Suc append_Cons]

lemma ident_start_not_blank: "ident_start c \<Longrightarrow> \<not> blank c"
  by (auto simp: ident_start_def ALPHA_def blank_def WHITESPACES_def tab_def cr_def)

lemma reads_Identifier:
  assumes "is_identifier w" "r = [] \<or> \<not> ident_char (hd r)"
  shows "reads (Suc 0) Identifier (w @ r) r (PlStr w)" "reads (Suc 0) Identifier (CHR '' '' # w @ r) r (PlStr w)"
proof -
  obtain c v where w: "w = c # v" "ident_start c" "list_all ident_char v"
    using assms(1) by (cases w) (auto simp: is_identifier_def)
  have tw: "takeWhile ident_char (v @ r) = v" using takeWhile_ends [OF w(3) assms(2)] by simp
  have dw: "dropWhile blank (w @ r) = w @ r" using w(1) ident_start_not_blank [OF w(2)] by simp
  have m: "identifier_matcher (w @ r) = Value (Some (PlStr w, length w))"
    using w(2) tw by (auto simp: identifier_matcher_def w(1) ident_start_def Let_def)
  show "reads (Suc 0) Identifier (w @ r) r (PlStr w)" "reads (Suc 0) Identifier (CHR '' '' # w @ r) r (PlStr w)"
    unfolding Identifier_def using dw m by (simp_all add: reads_CustomMatcher [where k = "length w"])
qed

lemma stops_Identifier: "t = [] \<or> \<not> blank (hd t) \<and> \<not> ident_start (hd t) \<Longrightarrow> stops (Suc 0) Identifier t"
  unfolding Identifier_def
  by (rule stops_CustomMatcher) (cases t, auto simp: identifier_matcher_def ident_start_def)

lemma reads_punctuation:
  "reads 2 Equal (CHR '' '' # CHR ''='' # r) r (PlStr ''='')" "reads 2 Comma (CHR '','' # r) r (PlStr '','')"
  using reads_Ignore [OF reads_StrLiteral [of "''=''" "CHR '' '' # CHR ''='' # r" r]]
    reads_Ignore [OF reads_StrLiteral [of "'',''" "CHR '','' # r" r]]
  by (simp_all add: Equal_def Comma_def numeral_2_eq_2)

definition attrs_text :: "string list \<Rightarrow> string" where
  "attrs_text as = hd as @ concat (map (\<lambda>b. '', '' @ b) (tl as))"

lemma newline_ends [simp]: "\<not> ident_char nl" "\<not> ident_char (CHR '','')" "\<not> ident_char (CHR '' '')"
  by (code_simp, code_simp, code_simp)

lemma reads_more_names:
  "list_all is_identifier as \<Longrightarrow> reads (length as + 4) (Rep (Concat Comma Identifier))
     (concat (map (\<lambda>b. '', '' @ b) as) @ nl # r) (nl # r) (PlList (map PlStr as))"
proof (induction as)
  case Nil
  have "stops (Suc 0) (StrLiteral '','') (nl # r)"
    by (rule stops_StrLiteral) (simp_all add: is_prefix_def, simp add: nl_def)
  from reads_Rep_nil [OF stops_Concat [OF stops_Ignore [OF this]]] show ?case
    by (simp add: Comma_def numeral_eq_Suc)
next
  case (Cons a as)
  let ?r = "concat (map (\<lambda>b. '', '' @ b) as) @ nl # r"
  have "?r = [] \<or> \<not> ident_char (hd ?r)" by (cases as) simp_all
  then have a: "reads (Suc 0) Identifier (CHR '' '' # a @ ?r) ?r (PlStr a)" using reads_Identifier(2) Cons.prems by simp
  have "reads 3 (Concat Comma Identifier) ('', '' @ a @ ?r) ?r (PlStr a)"
    using reads_Concat [OF reads_punctuation(2) a] by (simp add: Comma_def numeral_eq_Suc)
  from reads_Rep_Cons [OF this Cons.IH] Cons.prems show ?case by simp
qed

lemma reads_IdTuple:
  assumes "as \<noteq> []" "list_all is_identifier as"
  shows "reads (length as + 5) IdTuple (CHR '' '' # attrs_text as @ nl # r) (nl # r) (PlList (map PlStr as))"
proof -
  obtain a bs where as: "as = a # bs" using assms(1) by (cases as) auto
  let ?r = "concat (map (\<lambda>b. '', '' @ b) bs) @ nl # r"
  have "?r = [] \<or> \<not> ident_char (hd ?r)" by (cases bs) simp_all
  then have a: "reads (Suc 0) Identifier (CHR '' '' # a @ ?r) ?r (PlStr a)" using reads_Identifier(2) assms(2) as by simp
  have "reads (length bs + 5) (Concat Identifier (Rep (Concat Comma Identifier))) (CHR '' '' # a @ ?r) (nl # r)
      (PlPair (PlStr a) (PlList (map PlStr bs)))"
    using reads_Concat [OF a reads_more_names] assms(2) as by (simp add: Identifier_def numeral_eq_Suc)
  from reads_Apply [OF this] show ?thesis
    by (simp add: IdTuple_def rep_with_sep_def Comma_def p_add_def Identifier_def attrs_text_def as)
qed

text \<open>An entry of a section is printed with a number of empty lines behind it.\<close>

fun def_text :: "string \<times> string list \<times> nat \<Rightarrow> string" where
  "def_text (n, as, k) = n @ '' = '' @ attrs_text as @ replicate (Suc k) nl"

text \<open>A matcher is printed from the blanks before its expression and a text of the expression.\<close>

record match_entry =
  me_name :: string
  me_blanks :: nat
  me_text :: string
  me_code :: py_expr
  me_lines :: nat

definition match_text :: "match_entry \<Rightarrow> string" where
  "match_text m = me_name m @ '' ='' @ replicate (me_blanks m) (CHR '' '') @ me_text m @ replicate (Suc (me_lines m)) nl"

fun def_ok :: "nat \<Rightarrow> string \<times> string list \<times> nat \<Rightarrow> bool" where
  "def_ok N (n, as, k) = (is_identifier n \<and> as \<noteq> [] \<and> list_all is_identifier as \<and> length as + k + 8 \<le> N)"

definition match_ok :: "nat \<Rightarrow> match_entry \<Rightarrow> bool" where
  "match_ok N m \<longleftrightarrow> is_identifier (me_name m) \<and> me_text m \<noteq> [] \<and> \<not> blank (hd (me_text m)) \<and> nl \<notin> set (me_text m) \<and>
     py_compile (me_text m) = Value (me_code m) \<and> me_lines m + 8 \<le> N"

fun def_payload :: "string \<times> string list \<times> nat \<Rightarrow> payload" where
  "def_payload (n, as, k) = PlPair (PlStr n) (PlList (map PlStr as))"

definition match_payload :: "match_entry \<Rightarrow> payload" where
  "match_payload m = PlPair (PlStr (me_name m)) (PlCode (me_code m))"

lemma reads_name:
  assumes "is_identifier n"
  shows "reads 3 (Concat Identifier Equal) (n @ CHR '' '' # CHR ''='' # r) r (PlStr n)"
  using reads_Concat [OF reads_Identifier(1) [OF assms] reads_punctuation(1), of r]
  by (simp add: Identifier_def Equal_def numeral_eq_Suc)

lemma reads_Definition:
  assumes "def_ok N e" "fresh_line r"
  shows "reads N Definition (def_text e @ r) r (def_payload e)"
proof -
  obtain n as k where e: "e = (n, as, k)" by (cases e)
  have "reads (Suc (max (Suc (max 3 (length as + 5))) (Suc k + 3)))
      (Concat (Concat (Concat Identifier Equal) IdTuple) NewLine) (def_text e @ r) r (def_payload e)"
    using reads_Concat [OF reads_Concat [OF reads_name reads_IdTuple] reads_NewLine_Suc [OF assms(2)], of n as k]
      assms(1) by (simp add: e IdTuple_def rep_with_sep_def NewLine_def)
  then show ?thesis using assms(1)
    by (auto simp: e Definition_def p_add_def Identifier_def Equal_def IdTuple_def rep_with_sep_def NewLine_def elim!: reads_mono)
qed

lemma dropWhile_blanks: "dropWhile blank (replicate b (CHR '' '') @ t) = dropWhile blank t"
  by (induction b) simp_all

lemma reads_PyExpr:
  assumes "t \<noteq> []" "\<not> blank (hd t)" "nl \<notin> set t" "py_compile t = Value e"
  shows "reads (Suc 0) PyExpr (replicate b (CHR '' '') @ t @ nl # r) (nl # r) (PlCode e)"
proof -
  have "takeWhile (\<lambda>c. c \<noteq> nl) (t @ nl # r) = t"
    using assms(3) by (auto simp: takeWhile_append)
  then have "pyparser_matcher (t @ nl # r) = Value (Some (PlCode e, length t))"
    using assms(4) by (simp add: pyparser_matcher_def)
  then show ?thesis unfolding PyExpr_def using assms(1,2)
    by (intro reads_CustomMatcher [where k = "length t"]) (simp_all add: dropWhile_blanks)
qed

lemma reads_Matcher:
  assumes "match_ok N m" "fresh_line r"
  shows "reads N Matcher (match_text m @ r) r (match_payload m)"
proof -
  have "reads (Suc (max (Suc (max 3 (Suc 0))) (Suc (me_lines m) + 3)))
      (Concat (Concat (Concat Identifier Equal) PyExpr) NewLine) (match_text m @ r) r (match_payload m)"
    using reads_Concat [OF reads_Concat [OF reads_name reads_PyExpr] reads_NewLine_Suc [OF assms(2)],
        of "me_name m" "me_text m" "me_code m" "me_lines m" "me_blanks m"]
      assms(1) by (simp add: match_ok_def match_text_def match_payload_def PyExpr_def NewLine_def)
  then show ?thesis using assms(1)
    by (auto simp: match_ok_def Matcher_def p_add_def Identifier_def Equal_def PyExpr_def NewLine_def elim!: reads_mono)
qed

lemma stops_entry:
  assumes "t = [] \<or> hd t = CHR ''[''"
  shows "stops 4 Definition t" "stops 4 Matcher t"
proof -
  have "\<not> ident_start (CHR ''['')" by code_simp
  with assms have "stops (Suc 0) Identifier t" by (intro stops_Identifier) auto
  then have "stops 4 (Concat (Concat (Concat Identifier Equal) p) NewLine) t" for p
    by (simp add: numeral_eq_Suc stops_Concat)
  then show "stops 4 Definition t" "stops 4 Matcher t"
    by (simp_all add: Definition_def Matcher_def p_add_def Identifier_def Equal_def IdTuple_def rep_with_sep_def PyExpr_def)
qed

lemma reads_entries:
  assumes "\<And>e r. e \<in> set es \<Longrightarrow> fresh_line r \<Longrightarrow> reads N p (f e @ r) r (g e)"
    and "\<And>e r. e \<in> set es \<Longrightarrow> fresh_line (f e @ r)" and "stops N p r" "fresh_line r"
  shows "reads (length es + Suc N) (Rep p) (concat (map f es) @ r) r (PlList (map g es))"
  using assms
proof (induction es)
  case Nil
  then show ?case using reads_Rep_nil by simp
next
  case (Cons e es)
  have "fresh_line (concat (map f es) @ r)"
    using Cons.prems(2,4) by (cases es) auto
  then have "reads N p (f e @ concat (map f es) @ r) (concat (map f es) @ r) (g e)" using Cons.prems(1) by simp
  from reads_Rep_Cons [OF this Cons.IH] Cons.prems show ?case by simp
qed

lemma reads_header:
  assumes "hd lit = CHR ''[''" "lit \<noteq> []" "fresh_line r"
  shows "reads (k + 6) (Ignore (p_add (StrLiteral lit) NewLine)) (lit @ replicate (Suc k) nl @ r) r (PlStr lit)"
proof -
  have "reads (Suc 0) (StrLiteral lit) (lit @ replicate (Suc k) nl @ r) (replicate (Suc k) nl @ r) (PlStr lit)"
    using assms by (intro reads_StrLiteral) auto
  from reads_Ignore [OF reads_Concat [OF this reads_NewLine [OF assms(3)]]] show ?thesis
    by (simp add: p_add_def NewLine_def numeral_eq_Suc)
qed

section \<open>The whole model\<close>

text \<open>A model is printed from its three sections, each with the number of empty lines behind its header.\<close>

definition section_text :: "string \<Rightarrow> ('e \<Rightarrow> string) \<Rightarrow> nat \<times> 'e list \<Rightarrow> string" where
  "section_text header f sec = header @ replicate (Suc (fst sec)) nl @ concat (map f (snd sec))"

definition model_text ::
    "nat \<times> (string \<times> string list \<times> nat) list \<Rightarrow> nat \<times> (string \<times> string list \<times> nat) list \<Rightarrow> nat \<times> match_entry list \<Rightarrow> string" where
  "model_text rs ts ms =
     section_text ''[requests]'' def_text rs @ section_text ''[terms]'' def_text ts @ section_text ''[matchers]'' match_text ms"

definition section_ok :: "nat \<Rightarrow> nat \<Rightarrow> ('e \<Rightarrow> bool) \<Rightarrow> nat \<times> 'e list \<Rightarrow> bool" where
  "section_ok M N ok sec \<longleftrightarrow> fst sec \<le> N \<and> length (snd sec) \<le> M \<and> list_all ok (snd sec)"

lemma ident_start_nl [simp]: "\<not> ident_start nl"
  by code_simp

lemma fresh_entry: "def_ok N e \<Longrightarrow> fresh_line (def_text e @ r)" "match_ok N m \<Longrightarrow> fresh_line (match_text m @ r)"
  using ident_start_not_blank
  by (cases e, auto simp: fresh_line_def is_identifier_def match_ok_def match_text_def neq_Nil_conv)

lemma reads_section:
  assumes "section_ok M N ok sec" "hd header = CHR ''[''" "header \<noteq> []" "t = [] \<or> hd t = CHR ''[''" "stops N p t"
    and entry: "\<And>e r. ok e \<Longrightarrow> fresh_line r \<Longrightarrow> reads N p (f e @ r) r (g e)" "\<And>e r. ok e \<Longrightarrow> fresh_line (f e @ r)"
  shows "reads (M + N + 7) (p_add (Ignore (p_add (StrLiteral header) NewLine)) (Rep p)) (section_text header f sec @ t) t (PlList (map g (snd sec)))"
proof -
  have t: "fresh_line t" using assms(4) by (auto simp: fresh_line_def nl_def blank_def WHITESPACES_def tab_def cr_def)
  have es: "reads (length (snd sec) + Suc N) (Rep p) (concat (map f (snd sec)) @ t) t (PlList (map g (snd sec)))"
    using assms(1) by (intro reads_entries entry assms(5) t) (auto simp: section_ok_def list_all_iff)
  have "fresh_line (concat (map f (snd sec)) @ t)"
    using entry(2) assms(1) t by (cases "snd sec") (auto simp: section_ok_def)
  from reads_Concat [OF reads_header [OF assms(2,3) this] es, of "fst sec"] show ?thesis
    using assms(1) by (auto simp: section_ok_def p_add_def section_text_def elim!: reads_mono)
qed

lemma section_starts: "hd header = CHR ''['' \<Longrightarrow> header \<noteq> [] \<Longrightarrow> hd (section_text header f sec @ r) = CHR ''[''"
  by (cases header) (simp_all add: section_text_def)

lemma reads_model:
  assumes "section_ok M N (def_ok N) rs" "section_ok M N (def_ok N) ts" "section_ok M N (match_ok N) ms" "8 \<le> N"
  shows "reads (M + N + 10) ModelDef (model_text rs ts ms) []
    (PlList [PlList (map def_payload (snd rs)), PlList (map def_payload (snd ts)), PlList (map match_payload (snd ms))])"
proof -
  let ?ms = "section_text ''[matchers]'' match_text ms" and ?ts = "section_text ''[terms]'' def_text ts"
  note sec = reads_section [OF _ _ _ _ stops_mono [OF stops_entry(1)] reads_Definition fresh_entry(1)]
  have r: "reads (M + N + 7) RequestDefSec (section_text ''[requests]'' def_text rs @ ?ts @ ?ms) (?ts @ ?ms) (PlList (map def_payload (snd rs)))"
    unfolding RequestDefSec_def RequestDefHeader_def using assms(1,4) by (intro sec) (auto simp: section_text_def)
  have t: "reads (M + N + 7) TermDefSec (?ts @ ?ms) ?ms (PlList (map def_payload (snd ts)))"
    unfolding TermDefSec_def TermDefHeader_def using assms(2,4) by (intro sec) (auto simp: section_text_def)
  have m: "reads (M + N + 7) MatchersSec (?ms @ []) [] (PlList (map match_payload (snd ms)))"
    unfolding MatchersSec_def MatchersHeader_def using assms(3,4)
    by (intro reads_section [OF _ _ _ _ stops_mono [OF stops_entry(2)] reads_Matcher fresh_entry(2)]) (auto simp: section_text_def)
  have i: "\<not> is_Ignore RequestDefSec" "\<not> is_Ignore TermDefSec" "\<not> is_Ignore MatchersSec"
    by (simp_all add: RequestDefSec_def TermDefSec_def MatchersSec_def p_add_def)
  from reads_Apply [OF reads_Concat [OF reads_Concat [OF r t] m [unfolded append_Nil2]]] i show ?thesis
    by (simp add: ModelDef_def p_add_def model_text_def numeral_eq_Suc)
qed

lemma parse_reads:
  assumes "reads n p t [] x" "n \<le> d"
  shows "parse_from d p \<lparr>st_rest = t, st_pos = pos\<rparr> = Value x"
proof -
  obtain pos' where "call d p \<lparr>st_rest = t, st_pos = pos\<rparr> = Value (Success \<lparr>st_rest = [], st_pos = pos'\<rparr> x)"
    using readsE [OF assms] .
  then show ?thesis by (simp add: parse_from_def stream_end_def)
qed

lemma parse_model_text:
  assumes "preprocess text = model_text rs ts ms" "8 \<le> N" "M + N + 10 \<le> d"
    and "section_ok M N (def_ok N) rs" "section_ok M N (def_ok N) ts" "section_ok M N (match_ok N) ms"
  shows "parse_model d text =
    Value (PlList [PlList (map def_payload (snd rs)), PlList (map def_payload (snd ts)), PlList (map match_payload (snd ms))])"
  using parse_reads [OF reads_model [OF assms(4-6,2)] assms(3)] by (simp add: parse_model_def assms(1))

text \<open>
  C22. A model is read back from its text.  When the text of a model, after continued lines are joined and comments
  removed, is printed from three sections of entries, then the parser returns exactly these entries, for every
  recursion limit that admits the number of entries and of empty lines.\<close>

theorem model_round_trip:
  assumes "preprocess text = model_text rs ts ms" "8 \<le> N" "M + N + 10 \<le> d"
    and "section_ok M N (def_ok N) rs" "section_ok M N (def_ok N) ts" "section_ok M N (match_ok N) ms"
  shows "parse_model d text =
    Value (PlList [PlList (map def_payload (snd rs)), PlList (map def_payload (snd ts)), PlList (map match_payload (snd ms))])"
  by (rule parse_model_text [OF assms])

section \<open>The shipped model\<close>

text \<open>The lines of \<^verbatim>\<open>model.conf\<close>.\<close>

definition MODEL_LINES :: "string list" where
  "MODEL_LINES =
     [''[requests]'',
      ''user_access_data = usr, data'',
      ''user_access_function = usr, function'',
      ''user_access_task = usr, task'',
      [],
      ''task_access_function = task, function'',
      ''task_access_data = task, data'',
      [],
      ''[terms]'',
      ''data_owner = data, usr'',
      ''function_owner = function, usr'',
      ''is_public_function = function'',
      ''task_participant = task, usr'',
      [],
      ''[matchers]'',
      ''user_access_data = data_owner(user_access_data.data, user_access_data.usr)'',
      [],
      ''user_access_function = '' @ [backslash],
      ''    is_public_function(user_access_function.function) or '' @ [backslash],
      ''    function_owner(user_access_function.function, user_access_function.usr)'',
      [],
      ''user_access_task = task_participant(user_access_task.task, user_access_task.usr)'',
      [],
      ''task_access_function = '' @ [backslash],
      ''    is_public_function(task_access_function.function) or '' @ [backslash],
      ''    function_owner(task_access_function.function, _) <= task_participant(task_access_function.task, _)'',
      [],
      ''task_access_data = data_owner(task_access_data.data, _) <= task_participant(task_access_data.task, _)'']"

definition MODEL_TEXT :: string where
  "MODEL_TEXT = join_with nl MODEL_LINES"

abbreviation "attr r a \<equiv> EAttr (EName r) a"

definition shipped_model :: perm_model where
  "shipped_model =
     \<lparr>request_template =
        [(''user_access_data'', [''usr'', ''data'']),
         (''user_access_function'', [''usr'', ''function'']),
         (''user_access_task'', [''usr'', ''task'']),
         (''task_access_function'', [''task'', ''function'']),
         (''task_access_data'', [''task'', ''data''])],
      term_knowledge_base =
        [(''data_owner'', Term_new 2), (''function_owner'', Term_new 2),
         (''is_public_function'', Term_new 1), (''task_participant'', Term_new 2)],
      matchers =
        [(''user_access_data'',
          ECall (EName ''data_owner'') [attr ''user_access_data'' ''data'', attr ''user_access_data'' ''usr'']),
         (''user_access_function'',
          EOr (ECall (EName ''is_public_function'') [attr ''user_access_function'' ''function''])
            (ECall (EName ''function_owner'') [attr ''user_access_function'' ''function'', attr ''user_access_function'' ''usr''])),
         (''user_access_task'',
          ECall (EName ''task_participant'') [attr ''user_access_task'' ''task'', attr ''user_access_task'' ''usr'']),
         (''task_access_function'',
          EOr (ECall (EName ''is_public_function'') [attr ''task_access_function'' ''function''])
            (ELe (ECall (EName ''function_owner'') [attr ''task_access_function'' ''function'', EName ''_''])
              (ECall (EName ''task_participant'') [attr ''task_access_function'' ''task'', EName ''_'']))),
         (''task_access_data'',
          ELe (ECall (EName ''data_owner'') [attr ''task_access_data'' ''data'', EName ''_''])
            (ECall (EName ''task_participant'') [attr ''task_access_data'' ''task'', EName ''_'']))]\<rparr>"

definition shipped_requests :: "(string \<times> string list \<times> nat) list" where
  "shipped_requests =
     [(''user_access_data'', [''usr'', ''data''], 0), (''user_access_function'', [''usr'', ''function''], 0),
      (''user_access_task'', [''usr'', ''task''], 1), (''task_access_function'', [''task'', ''function''], 0),
      (''task_access_data'', [''task'', ''data''], 1)]"

definition shipped_terms :: "(string \<times> string list \<times> nat) list" where
  "shipped_terms =
     [(''data_owner'', [''data'', ''usr''], 0), (''function_owner'', [''function'', ''usr''], 0),
      (''is_public_function'', [''function''], 0), (''task_participant'', [''task'', ''usr''], 1)]"

text \<open>The expressions as tokens with the blanks behind them.\<close>

definition call_tokens :: "string \<Rightarrow> string \<Rightarrow> string \<Rightarrow> (token \<times> nat) list" where
  "call_tokens f r a = [(TName f, 0), (TLpar, 0), (TName r, 0), (TDot, 0), (TName a, 0)]"

definition shipped_tokens :: "(string \<times> nat \<times> (token \<times> nat) list \<times> nat) list" where
  "shipped_tokens =
     [(''user_access_data'', 1, call_tokens ''data_owner'' ''user_access_data'' ''data'' @
        [(TComma, 1), (TName ''user_access_data'', 0), (TDot, 0), (TName ''usr'', 0), (TRpar, 0)], 1),
      (''user_access_function'', 5, call_tokens ''is_public_function'' ''user_access_function'' ''function'' @ [(TRpar, 1), (TOr, 5)] @
        call_tokens ''function_owner'' ''user_access_function'' ''function'' @
        [(TComma, 1), (TName ''user_access_function'', 0), (TDot, 0), (TName ''usr'', 0), (TRpar, 0)], 1),
      (''user_access_task'', 1, call_tokens ''task_participant'' ''user_access_task'' ''task'' @
        [(TComma, 1), (TName ''user_access_task'', 0), (TDot, 0), (TName ''usr'', 0), (TRpar, 0)], 1),
      (''task_access_function'', 5, call_tokens ''is_public_function'' ''task_access_function'' ''function'' @ [(TRpar, 1), (TOr, 5)] @
        call_tokens ''function_owner'' ''task_access_function'' ''function'' @ [(TComma, 1), (TName ''_'', 0), (TRpar, 1), (TLe, 1)] @
        call_tokens ''task_participant'' ''task_access_function'' ''task'' @ [(TComma, 1), (TName ''_'', 0), (TRpar, 0)], 1),
      (''task_access_data'', 1, call_tokens ''data_owner'' ''task_access_data'' ''data'' @ [(TComma, 1), (TName ''_'', 0), (TRpar, 1), (TLe, 1)] @
        call_tokens ''task_participant'' ''task_access_data'' ''task'' @ [(TComma, 1), (TName ''_'', 0), (TRpar, 0)], 0)]"

definition shipped_matchers :: "match_entry list" where
  "shipped_matchers = map (\<lambda>((n, b, ps, k), (_, e)).
     \<lparr>me_name = n, me_blanks = b, me_text = text_of ps, me_code = e, me_lines = k\<rparr>) (zip shipped_tokens (matchers shipped_model))"

subsection \<open>Lines\<close>

definition unlines :: "string list \<Rightarrow> string" where
  "unlines ls = concat (map (\<lambda>l. l @ [nl]) ls)"

definition clean :: "string \<Rightarrow> bool" where
  "clean l \<longleftrightarrow> list_all (\<lambda>c. c \<noteq> backslash \<and> c \<noteq> nl \<and> c \<noteq> cr \<and> c \<noteq> CHR ''#'') l"

text \<open>A line that ends in a backslash is continued by the next one.\<close>

fun continue :: "string list \<Rightarrow> string list" where
  "continue [] = []"
| "continue [l] = [l]"
| "continue (l # l' # ls) =
     (if l \<noteq> [] \<and> last l = backslash
      then (case continue (l' # ls) of [] \<Rightarrow> [butlast l] | m # ms \<Rightarrow> (butlast l @ m) # ms)
      else l # continue (l' # ls))"

definition clean_part :: "string \<Rightarrow> bool" where
  "clean_part l \<longleftrightarrow> clean (if l \<noteq> [] \<and> last l = backslash then butlast l else l)"

lemma join_lines_clean: "clean l \<Longrightarrow> join_lines (l @ r) = l @ join_lines r"
  by (induction l) (auto simp: clean_def)

lemma nl_simps [simp]: "nl \<noteq> backslash" "nl \<noteq> cr" "nl \<noteq> CHR ''#''" "backslash \<noteq> nl"
  by (simp_all add: nl_def backslash_def cr_def)

lemma continue_ne: "ls \<noteq> [] \<Longrightarrow> continue ls \<noteq> []"
  by (induction ls rule: continue.induct) (auto split: list.splits)

lemma join_with_Cons: "ls \<noteq> [] \<Longrightarrow> join_with c (l # ls) = l @ c # join_with c ls"
  by (cases ls) simp_all

lemma join_with_hd: "join_with c ((w @ m) # ms) = w @ join_with c (m # ms)"
  by (cases ms) simp_all

lemma join_lines_lines:
  "list_all clean_part ls \<Longrightarrow> ls = [] \<or> clean (last ls) \<Longrightarrow> join_lines (join_with nl ls) = join_with nl (continue ls)"
proof (induction ls rule: continue.induct)
  case (3 l l' ls)
  obtain m ms where m: "continue (l' # ls) = m # ms" using continue_ne [of "l' # ls"] by (cases "continue (l' # ls)") auto
  show ?case
  proof (cases "l \<noteq> [] \<and> last l = backslash")
    case True
    then have l: "clean (butlast l)" "l = butlast l @ [backslash]"
      using 3(3) append_butlast_last_id [of l] by (simp_all add: clean_part_def)
    have "join_lines (join_with nl (l # l' # ls)) = join_lines (butlast l @ backslash # nl # join_with nl (l' # ls))"
      using l(2) by (metis append_Cons append_Nil append_assoc join_with.simps(3))
    also have "\<dots> = butlast l @ join_with nl (m # ms)" using join_lines_clean [OF l(1)] 3(1) [OF True] 3(3,4) m by simp
    finally show ?thesis using True m by (simp add: join_with_hd)
  next
    case False
    then have "clean l" using 3(3) by (auto simp: clean_part_def)
    then show ?thesis using False 3 m by (auto simp: join_lines_clean join_with_Cons)
  qed
next
  case (2 l)
  then show ?case using join_lines_clean [of l "[]"] by simp
qed simp

lemma splitlines_line: "clean l \<Longrightarrow> splitlines (l @ nl # r) = l # splitlines r"
proof (induction l)
  case (Cons c l)
  then have "splitlines (l @ nl # r) = l # splitlines r" by (simp add: clean_def)
  moreover have "c \<noteq> nl" "c \<noteq> cr" "l \<noteq> [] \<Longrightarrow> hd l \<noteq> nl \<and> hd l \<noteq> cr"
    using Cons.prems by (cases l; simp add: clean_def)+
  ultimately show ?case using splitlines.simps(2) [of c "l @ nl # r"] by (cases "l = []") (simp_all del: splitlines.simps)
qed simp

lemma splitlines_last: "clean l \<Longrightarrow> l \<noteq> [] \<Longrightarrow> splitlines l = [l]"
proof (induction l)
  case (Cons c l)
  moreover have "c \<noteq> nl" "c \<noteq> cr" "l \<noteq> [] \<Longrightarrow> hd l \<noteq> nl \<and> hd l \<noteq> cr" "clean l"
    using Cons.prems by (cases l; simp add: clean_def)+
  ultimately show ?case using splitlines.simps(2) [of c l] by (cases "l = []") (simp_all del: splitlines.simps add: splitlines.simps(1))
qed simp

lemma splitlines_lines: "list_all clean ls \<Longrightarrow> ls = [] \<or> last ls \<noteq> [] \<Longrightarrow> splitlines (join_with nl ls) = ls"
proof (induction nl ls rule: join_with.induct)
  case (2 l)
  then show ?case by (simp add: splitlines_last)
next
  case (3 l l' ls)
  then show ?case by (simp add: splitlines_line del: splitlines.simps(2))
qed simp

lemma no_comments: "list_all clean ls \<Longrightarrow> map (takeWhile (\<lambda>c. c \<noteq> CHR ''#'')) ls = ls"
  by (induction ls) (auto simp: clean_def list_all_iff takeWhile_eq_all_conv)

lemma unlines_join: "ls \<noteq> [] \<Longrightarrow> join_with nl ls @ [nl] = unlines ls"
  by (induction nl ls rule: join_with.induct) (simp_all add: unlines_def)

text \<open>Text that neither starts nor ends in white space is not changed by stripping.\<close>

lemma strip_id: "s \<noteq> [] \<Longrightarrow> hd s = CHR ''['' \<Longrightarrow> last s = CHR '')'' \<Longrightarrow> strip s = s"
proof -
  let ?ws = "\<lambda>c. c \<in> set [CHR '' '', tab, nl, cr, CHR 0x0B, CHR 0x0C]"
  assume s: "s \<noteq> []" "hd s = CHR ''[''" "last s = CHR '')''"
  have "\<not> ?ws (CHR ''['')" "\<not> ?ws (CHR '')'')" by (simp_all add: tab_def nl_def cr_def)
  then have "dropWhile ?ws s = s" "dropWhile ?ws (rev s) = rev s"
    using s hd_rev [of s] dropWhile_eq_self_iff [of ?ws s] dropWhile_eq_self_iff [of ?ws "rev s"] by metis+
  then show "strip s = s" unfolding strip_def Let_def by simp
qed

lemma join_with_ends:
  "ls \<noteq> [] \<Longrightarrow> last ls \<noteq> [] \<Longrightarrow> join_with c ls \<noteq> [] \<and> last (join_with c ls) = last (last ls)"
proof (induction c ls rule: join_with.induct)
  case (3 c l l' ls)
  then show ?case by (cases "ls = []") simp_all
qed simp_all

lemma preprocess_lines:
  assumes "list_all clean_part ls" "ls \<noteq> []" "clean (last ls)" "list_all clean (continue ls)" "last (continue ls) \<noteq> []"
    and "hd (continue ls) \<noteq> []" "hd (hd (continue ls)) = CHR ''[''" "last (last (continue ls)) = CHR '')''"
  shows "preprocess (join_with nl ls) = unlines (continue ls)"
proof -
  let ?t = "join_with nl (continue ls)"
  have ne: "continue ls \<noteq> []" using continue_ne assms(2) by blast
  have "hd ?t = CHR ''[''" using ne assms(6,7) by (cases "continue ls"; cases "tl (continue ls)") auto
  moreover have "?t \<noteq> []" "last ?t = CHR '')''" using join_with_ends [OF ne assms(5), of nl] assms(8) by auto
  ultimately have "strip ?t = ?t" by (intro strip_id)
  then show ?thesis using ne assms
    by (simp add: preprocess_def join_lines_lines splitlines_lines no_comments unlines_join)
qed

text \<open>The lines of the shipped model, with the continued ones joined.\<close>

definition def_lines :: "string \<times> string list \<times> nat \<Rightarrow> string list" where
  "def_lines e = (case e of (n, as, k) \<Rightarrow> (n @ '' = '' @ attrs_text as) # replicate k [])"

definition match_lines :: "match_entry \<Rightarrow> string list" where
  "match_lines m = (me_name m @ '' ='' @ replicate (me_blanks m) (CHR '' '') @ me_text m) # replicate (me_lines m) []"

lemma unlines_append: "unlines (ls @ ms) = unlines ls @ unlines ms" "unlines (replicate k []) = replicate k nl"
  "unlines (l # ls) = l @ nl # unlines ls"
  by (induction k) (simp_all add: unlines_def)

lemma unlines_concat:
  "(\<And>e. unlines (g e) = f e) \<Longrightarrow> unlines (concat (map g es)) = concat (map f es)"
  by (induction es) (simp_all add: unlines_append, simp add: unlines_def)

lemma section_lines:
  assumes "\<And>e. unlines (g e) = f e"
  shows "section_text header f (k, es) = unlines (header # replicate k [] @ concat (map g es))"
  using unlines_concat [of g f es, OF assms] by (simp add: section_text_def unlines_append)

lemma entry_lines: "unlines (def_lines e) = def_text e" "unlines (match_lines m) = match_text m"
  by (cases e) (simp_all add: def_lines_def match_lines_def match_text_def unlines_append)

definition shipped_lines :: "string list" where
  "shipped_lines =
     ''[requests]'' # concat (map def_lines shipped_requests) @ ''[terms]'' # concat (map def_lines shipped_terms) @
     ''[matchers]'' # concat (map match_lines shipped_matchers)"

lemma unlines_shipped: "model_text (0, shipped_requests) (0, shipped_terms) (0, shipped_matchers) = unlines shipped_lines"
  by (simp add: model_text_def shipped_lines_def section_lines [of def_lines def_text, OF entry_lines(1)]
      section_lines [of match_lines match_text, OF entry_lines(2)] unlines_append)

lemma shipped_continue: "continue MODEL_LINES = shipped_lines"
  by code_simp

lemma shipped_clean: "list_all clean_part MODEL_LINES" "list_all clean shipped_lines" "clean (last MODEL_LINES)"
  by (code_simp, code_simp, code_simp)

lemma shipped_ends: "MODEL_LINES \<noteq> []" "last shipped_lines \<noteq> []" "hd shipped_lines \<noteq> []" "hd (hd shipped_lines) = CHR ''[''"
  "last (last shipped_lines) = CHR '')''"
  by (code_simp, code_simp, code_simp, code_simp, code_simp)

lemma shipped_text: "preprocess MODEL_TEXT = model_text (0, shipped_requests) (0, shipped_terms) (0, shipped_matchers)"
  unfolding MODEL_TEXT_def unlines_shipped using shipped_clean shipped_ends
  by (subst preprocess_lines) (simp_all add: shipped_continue)

subsection \<open>Reading it\<close>

lemma compile_text:
  assumes "list_all (\<lambda>(t, n). token_ok t) ps" "spaced ps" "derive (8 * length ps + 8) GOr (map fst ps) = Some ([e], [])"
  shows "py_compile (text_of ps) = Value e"
  using assms py_lex_text [of ps] by (simp add: py_compile_def)

definition compiles :: "(string \<times> nat \<times> (token \<times> nat) list \<times> nat) \<times> (string \<times> py_expr) \<Rightarrow> bool" where
  "compiles = (\<lambda>((n, b, ps, k), (n', e)). list_all (\<lambda>(t, n). token_ok t) ps \<and> spaced ps \<and>
     derive (8 * length ps + 8) GOr (map fst ps) = Some ([e], []))"

definition printable :: "match_entry \<Rightarrow> bool" where
  "printable m \<longleftrightarrow> is_identifier (me_name m) \<and> me_text m \<noteq> [] \<and> \<not> blank (hd (me_text m)) \<and> nl \<notin> set (me_text m) \<and> me_lines m + 8 \<le> 11"

lemma shipped_compiles: "list_all compiles (zip shipped_tokens (matchers shipped_model))"
  by code_simp

lemma shipped_printable: "list_all printable shipped_matchers"
  by code_simp

lemma shipped_match_ok: "list_all (match_ok 11) shipped_matchers"
proof -
  have "py_compile (me_text m) = Value (me_code m)" if "m \<in> set shipped_matchers" for m
    using that shipped_compiles compile_text
    by (fastforce simp: shipped_matchers_def compiles_def list_all_iff)
  with shipped_printable show ?thesis by (auto simp: match_ok_def printable_def list_all_iff)
qed

lemma shipped_def_ok: "list_all (def_ok 11) shipped_requests" "list_all (def_ok 11) shipped_terms"
  by (code_simp, code_simp)

lemma shipped_length: "length shipped_requests = 5" "length shipped_terms = 4" "length shipped_matchers = 5"
  by (code_simp, code_simp, code_simp)

definition shipped_payload :: payload where
  "shipped_payload = PlList [PlList (map def_payload shipped_requests), PlList (map def_payload shipped_terms),
     PlList (map match_payload shipped_matchers)]"

lemma shipped_sections:
  "section_ok 5 11 (def_ok 11) (0, shipped_requests)" "section_ok 5 11 (def_ok 11) (0, shipped_terms)"
  "section_ok 5 11 (match_ok 11) (0, shipped_matchers)"
  by (simp_all add: section_ok_def shipped_length shipped_def_ok shipped_match_ok)

lemma shipped_parse: "26 \<le> d \<Longrightarrow> parse_model d MODEL_TEXT = Value shipped_payload"
  using parse_model_text [OF shipped_text, of 11 5 d] shipped_sections by (simp add: shipped_payload_def)

theorem model_round_trip_witness:
  "parse_model 26 MODEL_TEXT = Value (PlList [PlList (map def_payload shipped_requests), PlList (map def_payload shipped_terms),
     PlList (map match_payload shipped_matchers)])"
  using model_round_trip [OF shipped_text, of 11 5 26] shipped_sections by simp

lemma shipped_Model: "Model_new shipped_payload = Value shipped_model"
  by code_simp

lemma setup_shipped: "26 \<le> d \<Longrightarrow> acs_setup_model d MODEL_TEXT g = Some (0, Some shipped_model)"
  by (simp add: acs_setup_model_def shipped_parse shipped_Model except_minus_one_def)

end
