(* ===== verification/Access_Control.thy ===== *)
theory Access_Control
  imports Acs_Grammar Storage_Client
begin

text \<open>
  The access control service: the requests that the Rust side marshals into
  Python text (\<^verbatim>\<open>acs.rs\<close>) and the four handlers (\<^verbatim>\<open>service.rs\<close>), on the engine of
  \<open>Acs_Engine\<close>.

  The outcome \<open>None\<close> of an operation means that the text leaves the modelled part
  of Python. The parameter \<open>conv\<close> is the conversion of a returned Python object to
  a C integer by the foreign function interface; the code relies on booleans
  becoming 0 and 1.
\<close>

section \<open>Marshalling\<close>

datatype EnforceRequest =
    UserAccessData string string
  | UserAccessFunction string string
  | UserAccessTask string string
  | TaskAccessFunction string string
  | TaskAccessData string string

datatype access_control_terms =
    DataOwner string string
  | FunctionOwner string string
  | IsPublicFunction string
  | TaskParticipant string string

definition marshal_string :: "string \<Rightarrow> string" where
  "marshal_string s = squote # s @ [squote]"

definition marshal1 :: "string \<Rightarrow> string" where
  "marshal1 t = ''['' @ marshal_string t @ '']''"

definition marshal2 :: "string \<Rightarrow> string \<Rightarrow> string" where
  "marshal2 u v = ''['' @ marshal_string u @ '','' @ marshal_string v @ '']''"

fun request_text :: "EnforceRequest \<Rightarrow> string \<times> string" where
  "request_text (UserAccessData usr data) = (''user_access_data'', marshal2 usr data)"
| "request_text (UserAccessFunction usr function) = (''user_access_function'', marshal2 usr function)"
| "request_text (UserAccessTask usr task) = (''user_access_task'', marshal2 usr task)"
| "request_text (TaskAccessFunction task function) = (''task_access_function'', marshal2 task function)"
| "request_text (TaskAccessData task data) = (''task_access_data'', marshal2 task data)"

fun term_text :: "access_control_terms \<Rightarrow> string \<times> string" where
  "term_text (DataOwner data usr) = (''data_owner'', marshal2 data usr)"
| "term_text (FunctionOwner function usr) = (''function_owner'', marshal2 function usr)"
| "term_text (IsPublicFunction function) = (''is_public_function'', marshal1 function)"
| "term_text (TaskParticipant task usr) = (''task_participant'', marshal2 task usr)"

text \<open>\<^verbatim>\<open>CString::new\<close> refuses a text with a zero byte.\<close>

definition CString_new :: "string \<Rightarrow> string anyhow_result" where
  "CString_new s = (if CHR 0x00 \<in> set s then Err (Anyhow ''nul byte found in provided data at position: {}'' []) else Ok s)"

section \<open>The engine behind its lock\<close>

text \<open>The global model of the interpreter, and whether the mutex around it can be taken.\<close>

record acs =
  acs_lock :: bool
  acs_engine :: "perm_model option"

definition enforce_request :: "(py_value \<Rightarrow> 32 word) \<Rightarrow> EnforceRequest \<Rightarrow> acs \<Rightarrow> bool anyhow_result option" where
  "enforce_request conv request s = (case request_text request of (request_type, request_content) \<Rightarrow>
     case bind_result (CString_new request_type) (\<lambda>t. bind_result (CString_new request_content) (\<lambda>c. Ok (t, c))) of
       Ok (t, c) \<Rightarrow>
         if \<not> acs_lock s then Some (Err (Anyhow ''failed to accquire lock'' []))
         else (case acs_enforce_request conv t c (acs_engine s) of
           None \<Rightarrow> None
         | Some py_ret \<Rightarrow> Some (if py_ret = 0 then Ok False else if py_ret = 1 then Ok True else Err (Anyhow ''mesapy error'' [])))
     | Err e \<Rightarrow> Some (Err e)
     | Panic \<Rightarrow> Some Panic)"

definition announce_fact :: "access_control_terms \<Rightarrow> acs \<Rightarrow> (unit anyhow_result \<times> acs) option" where
  "announce_fact t s = (case term_text t of (term_type, term_fact) \<Rightarrow>
     case bind_result (CString_new term_type) (\<lambda>t. bind_result (CString_new term_fact) (\<lambda>c. Ok (t, c))) of
       Ok (t, c) \<Rightarrow> (case acs_announce_fact t c (acs_engine s) of
           None \<Rightarrow> None
         | Some (py_ret, g) \<Rightarrow>
             Some (if py_ret \<noteq> 0 then Err (Anyhow ''mesapy error'' []) else Ok (), s\<lparr>acs_engine := g\<rparr>))
     | Err e \<Rightarrow> Some (Err e, s)
     | Panic \<Rightarrow> Some (Panic, s))"

fun announce_facts :: "access_control_terms list \<Rightarrow> acs \<Rightarrow> (unit anyhow_result \<times> acs) option" where
  "announce_facts [] s = Some (Ok (), s)"
| "announce_facts (t # ts) s = (case announce_fact t s of
     None \<Rightarrow> None
   | Some (Ok _, s') \<Rightarrow> announce_facts ts s'
   | Some (r, s') \<Rightarrow> Some (r, s'))"

definition mock_data :: "access_control_terms list" where
  "mock_data =
     [DataOwner ''mock_data'' ''mock_user_a'',
      DataOwner ''mock_data'' ''mock_user_b'',
      DataOwner ''mock_data'' ''mock_user_c'',
      FunctionOwner ''mock_private_function'' ''mock_private_function_owner'',
      FunctionOwner ''mock_public_function'' ''mock_public_function_owner'',
      IsPublicFunction ''mock_public_function'',
      TaskParticipant ''mock_task'' ''mock_participant_a'',
      TaskParticipant ''mock_task'' ''mock_participant_b'',
      TaskParticipant ''mock_staged_task'' ''mock_staged_participant_a'',
      TaskParticipant ''mock_staged_task'' ''mock_staged_participant_b'',
      FunctionOwner ''mock_staged_allowed_private_function'' ''mock_staged_participant_a'',
      FunctionOwner ''mock_staged_disallowed_private_function'' ''mock_staged_non_participant'',
      IsPublicFunction ''mock_staged_public_function'',
      DataOwner ''mock_staged_allowed_data1'' ''mock_staged_participant_a'',
      DataOwner ''mock_staged_allowed_data2'' ''mock_staged_participant_b'',
      DataOwner ''mock_staged_allowed_data3'' ''mock_staged_participant_a'',
      DataOwner ''mock_staged_allowed_data3'' ''mock_staged_participant_b'',
      DataOwner ''mock_staged_disallowed_data1'' ''mock_staged_non_participant'',
      DataOwner ''mock_staged_disallowed_data2'' ''mock_staged_participant_a'',
      DataOwner ''mock_staged_disallowed_data2'' ''mock_staged_non_participant'']"

definition init_mock_data :: "acs \<Rightarrow> (unit anyhow_result \<times> acs) option" where
  "init_mock_data = announce_facts mock_data"

text \<open>Starting the engine, in a build of the test mode or not, with the recursion limit \<open>d\<close> of the interpreter.\<close>

definition init_acs :: "bool \<Rightarrow> nat \<Rightarrow> acs \<Rightarrow> (unit anyhow_result \<times> acs) option" where
  "init_acs test_mode d s = (case (unwrap (CString_new MODEL_TEXT) :: string anyhow_result) of
     Ok text \<Rightarrow> (case acs_setup_model d text (acs_engine s) of
         None \<Rightarrow> None
       | Some (ec, g) \<Rightarrow>
           if ec \<noteq> 0 then Some (Err (Anyhow ''failed to init mesapy'' []), s\<lparr>acs_engine := g\<rparr>)
           else if test_mode then init_mock_data (s\<lparr>acs_engine := g\<rparr>)
           else Some (Ok (), s\<lparr>acs_engine := g\<rparr>))
   | _ \<Rightarrow> Some (Panic, s))"

section \<open>Handlers\<close>

datatype access_control_error = AccessControlError

fun access_control_error_to_string :: "access_control_error \<Rightarrow> string" where
  "access_control_error_to_string AccessControlError = ''access control error''"

definition access_control_error_into :: "access_control_error \<Rightarrow> teaclave_service_response_error" where
  "access_control_error_into e = RequestError (access_control_error_to_string e)"

record authorize_data_request =
  ad_subject_user_id :: string
  ad_object_data_id :: string

record authorize_function_request =
  af_subject_user_id :: string
  af_object_function_id :: string

record authorize_task_request =
  at_subject_user_id :: string
  at_object_task_id :: string

record authorize_staged_task_request =
  as_subject_task_id :: string
  as_object_function_id :: string
  as_object_input_data_id_list :: "string list"
  as_object_output_data_id_list :: "string list"

definition answer :: "bool anyhow_result option \<Rightarrow> bool service_result option" where
  "answer r = map_option (map_err (\<lambda>_. access_control_error_into AccessControlError)) r"

definition authorize_data :: "(py_value \<Rightarrow> 32 word) \<Rightarrow> authorize_data_request request \<Rightarrow> acs \<Rightarrow> bool service_result option" where
  "authorize_data conv req s =
     answer (enforce_request conv (UserAccessData (ad_subject_user_id (message req)) (ad_object_data_id (message req))) s)"

definition authorize_function :: "(py_value \<Rightarrow> 32 word) \<Rightarrow> authorize_function_request request \<Rightarrow> acs \<Rightarrow> bool service_result option" where
  "authorize_function conv req s =
     answer (enforce_request conv (UserAccessFunction (af_subject_user_id (message req)) (af_object_function_id (message req))) s)"

definition authorize_task :: "(py_value \<Rightarrow> 32 word) \<Rightarrow> authorize_task_request request \<Rightarrow> acs \<Rightarrow> bool service_result option" where
  "authorize_task conv req s =
     answer (enforce_request conv (UserAccessTask (at_subject_user_id (message req)) (at_object_task_id (message req))) s)"

text \<open>The loop over the data of a staged task: it ends at the first refusal or error.\<close>

fun authorize_data_list :: "(py_value \<Rightarrow> 32 word) \<Rightarrow> string \<Rightarrow> string list \<Rightarrow> acs \<Rightarrow> bool service_result option" where
  "authorize_data_list conv task [] s = Some (Ok True)"
| "authorize_data_list conv task (d # ds) s = (case answer (enforce_request conv (TaskAccessData task d) s) of
     Some (Ok True) \<Rightarrow> authorize_data_list conv task ds s
   | r \<Rightarrow> r)"

definition authorize_staged_task :: "(py_value \<Rightarrow> 32 word) \<Rightarrow> authorize_staged_task_request request \<Rightarrow> acs \<Rightarrow> bool service_result option" where
  "authorize_staged_task conv req s =
     (let r = message req; task = as_subject_task_id r in
      case answer (enforce_request conv (TaskAccessFunction task (as_object_function_id r)) s) of
        Some (Ok True) \<Rightarrow>
          (case authorize_data_list conv task (as_object_input_data_id_list r) s of
             Some (Ok True) \<Rightarrow> authorize_data_list conv task (as_object_output_data_id_list r) s
           | res \<Rightarrow> res)
      | res \<Rightarrow> res)"

section \<open>What the engine sees of a request\<close>

text \<open>An identifier that needs no escaping in a Python string literal.\<close>

definition plain_id :: "string \<Rightarrow> bool" where
  "plain_id s \<longleftrightarrow> plain s \<and> CHR 0x00 \<notin> set s"

lemma marshal_text:
  "marshal1 u = text_of [(TLsq, 0), (TStr u, 0), (TRsq, 0)]"
  "marshal2 u v = text_of [(TLsq, 0), (TStr u, 0), (TComma, 0), (TStr v, 0), (TRsq, 0)]"
  by (simp_all add: marshal1_def marshal2_def marshal_string_def text_of_def)

lemma compile_marshal1: "plain u \<Longrightarrow> py_compile (marshal1 u) = Value (EList [EStr u])"
  unfolding marshal_text by (rule compile_text) (simp_all add: numeral_eq_Suc)

lemma compile_marshal2: "plain u \<Longrightarrow> plain v \<Longrightarrow> py_compile (marshal2 u v) = Value (EList [EStr u, EStr v])"
  unfolding marshal_text by (rule compile_text) (simp_all add: numeral_eq_Suc)

lemma CString_plain: "CHR 0x00 \<notin> set s \<Longrightarrow> CString_new s = Ok s"
  by (simp add: CString_new_def)

lemma CString_marshal:
  "plain_id u \<Longrightarrow> CString_new (marshal1 u) = Ok (marshal1 u)"
  "plain_id u \<Longrightarrow> plain_id v \<Longrightarrow> CString_new (marshal2 u v) = Ok (marshal2 u v)"
  by (simp_all add: CString_new_def plain_id_def marshal1_def marshal2_def marshal_string_def squote_def)

lemma CString_types [simp]:
  "CString_new ''user_access_data'' = Ok ''user_access_data''"
  "CString_new ''user_access_function'' = Ok ''user_access_function''"
  "CString_new ''user_access_task'' = Ok ''user_access_task''"
  "CString_new ''task_access_function'' = Ok ''task_access_function''"
  "CString_new ''task_access_data'' = Ok ''task_access_data''"
  "CString_new ''data_owner'' = Ok ''data_owner''"
  "CString_new ''function_owner'' = Ok ''function_owner''"
  "CString_new ''is_public_function'' = Ok ''is_public_function''"
  "CString_new ''task_participant'' = Ok ''task_participant''"
  by (simp_all add: CString_new_def)

section \<open>The policy\<close>

text \<open>The facts of a term of the model, as a set of the announced terms.\<close>

definition str2 :: "string \<Rightarrow> string \<Rightarrow> py_value list" where
  "str2 a b = [PyStr a, PyStr b]"

record fact_lists =
  fl_data_owner :: "py_value list list"
  fl_function_owner :: "py_value list list"
  fl_is_public_function :: "py_value list list"
  fl_task_participant :: "py_value list list"

definition model_with :: "fact_lists \<Rightarrow> perm_model" where
  "model_with fl = shipped_model\<lparr>term_knowledge_base :=
     [(''data_owner'', \<lparr>term_arity = 2, term_facts = fl_data_owner fl\<rparr>),
      (''function_owner'', \<lparr>term_arity = 2, term_facts = fl_function_owner fl\<rparr>),
      (''is_public_function'', \<lparr>term_arity = 1, term_facts = fl_is_public_function fl\<rparr>),
      (''task_participant'', \<lparr>term_arity = 2, term_facts = fl_task_participant fl\<rparr>)]\<rparr>"

definition lists_for :: "access_control_terms set \<Rightarrow> fact_lists \<Rightarrow> bool" where
  "lists_for F fl \<longleftrightarrow>
     set (fl_data_owner fl) = {str2 d u |d u. DataOwner d u \<in> F} \<and>
     set (fl_function_owner fl) = {str2 f u |f u. FunctionOwner f u \<in> F} \<and>
     set (fl_is_public_function fl) = {[PyStr f] |f. IsPublicFunction f \<in> F} \<and>
     set (fl_task_participant fl) = {str2 t u |t u. TaskParticipant t u \<in> F}"

definition knows :: "access_control_terms set \<Rightarrow> acs \<Rightarrow> bool" where
  "knows F s \<longleftrightarrow> acs_lock s \<and> (\<exists>fl. acs_engine s = Some (model_with fl) \<and> lists_for F fl)"

lemma shipped_is_empty: "shipped_model = model_with \<lparr>fl_data_owner = [], fl_function_owner = [], fl_is_public_function = [], fl_task_participant = []\<rparr>"
  by (simp add: model_with_def shipped_model_def Term_new_def)

fun plain_term :: "access_control_terms \<Rightarrow> bool" where
  "plain_term (DataOwner d u) = (plain_id d \<and> plain_id u)"
| "plain_term (FunctionOwner f u) = (plain_id f \<and> plain_id u)"
| "plain_term (IsPublicFunction f) = plain_id f"
| "plain_term (TaskParticipant t u) = (plain_id t \<and> plain_id u)"

lemma announce_plain:
  assumes "knows F s" "plain_term t"
  shows "\<exists>s'. announce_fact t s = Some (Ok (), s') \<and> knows (insert t F) s'"
proof -
  obtain fl where fl: "acs_lock s" "acs_engine s = Some (model_with fl)" "lists_for F fl"
    using assms(1) by (auto simp: knows_def)
  note defs = announce_fact_def CString_marshal acs_announce_fact_def except_minus_one_def add_term_item_def model_with_def add_fact_def
    compile_marshal1 compile_marshal2 plain_id_def fl(2)
  show ?thesis
  proof (cases t)
    case (DataOwner d u)
    then show ?thesis using assms(2) fl(1,3)
      by (auto simp: defs knows_def lists_for_def str2_def intro!: exI [of _ "fl\<lparr>fl_data_owner := List.insert [PyStr d, PyStr u] (fl_data_owner fl)\<rparr>"])
  next
    case (FunctionOwner f u)
    then show ?thesis using assms(2) fl(1,3)
      by (auto simp: defs knows_def lists_for_def str2_def intro!: exI [of _ "fl\<lparr>fl_function_owner := List.insert [PyStr f, PyStr u] (fl_function_owner fl)\<rparr>"])
  next
    case (IsPublicFunction f)
    then show ?thesis using assms(2) fl(1,3)
      by (auto simp: defs knows_def lists_for_def str2_def intro!: exI [of _ "fl\<lparr>fl_is_public_function := List.insert [PyStr f] (fl_is_public_function fl)\<rparr>"])
  next
    case (TaskParticipant t u)
    then show ?thesis using assms(2) fl(1,3)
      by (auto simp: defs knows_def lists_for_def str2_def intro!: exI [of _ "fl\<lparr>fl_task_participant := List.insert [PyStr t, PyStr u] (fl_task_participant fl)\<rparr>"])
  qed
qed

lemma announce_all:
  "knows F s \<Longrightarrow> list_all plain_term ts \<Longrightarrow> \<exists>s'. announce_facts ts s = Some (Ok (), s') \<and> knows (F \<union> set ts) s'"
proof (induction ts arbitrary: F s)
  case (Cons t ts)
  then obtain s1 where s1: "announce_fact t s = Some (Ok (), s1)" "knows (insert t F) s1"
    using announce_plain by fastforce
  with Cons.IH [OF s1(2)] Cons.prems show ?case by auto
qed simp

lemma pair_match: "list_all (\<lambda>(x, y). x = y) (zip (str2 a' b') [PyStr a, PyStr b]) \<longleftrightarrow> a' = a \<and> b' = b"
  by (auto simp: str2_def)

lemma pair_test:
  assumes "set fs = {str2 a b |a b. P a b}"
  shows "term_call 2 fs [PyStr a, PyStr b] = Value (PyBool (P a b))"
proof -
  let ?m = "\<lambda>f. list_all (\<lambda>(x, y). x = y) (zip f [PyStr a, PyStr b])"
  have "list_ex ?m fs \<longleftrightarrow> (\<exists>f. (\<exists>a b. f = str2 a b \<and> P a b) \<and> ?m f)"
    by (simp add: list_ex_iff Bex_def assms)
  also have "\<dots> \<longleftrightarrow> (\<exists>a' b'. P a' b' \<and> ?m (str2 a' b'))" by blast
  also have "\<dots> \<longleftrightarrow> P a b" by (simp only: pair_match) simp
  finally show ?thesis by (simp add: term_call_def)
qed

lemma single_test:
  assumes "set fs = {[PyStr a] |a. P a}"
  shows "term_call (Suc 0) fs [PyStr a] = Value (PyBool (P a))"
proof -
  have "list_ex (\<lambda>f. list_all (\<lambda>(x, y). x = y) (zip f [PyStr a])) fs \<longleftrightarrow> P a"
    unfolding list_ex_iff assms by auto
  then show ?thesis by (simp add: term_call_def)
qed

lemma pair_query:
  assumes "set fs = {str2 a b |a b. P a b}"
  obtains qs where "term_call 2 fs [PyStr a, PyPlaceholder] = Value (PyQuery qs)" "set qs = {PyStr b |b. P a b}"
proof -
  let ?args = "[PyStr a, PyPlaceholder]"
  let ?qs = "map (\<lambda>f. hd (picked ?args f)) (filter (matches ?args) fs)"
  have f: "matches ?args (str2 a' b) \<longleftrightarrow> a' = a" "hd (picked ?args (str2 a' b)) = PyStr b" for a' b
    by (auto simp: matches_def picked_def str2_def)
  have "term_call 2 fs ?args = Value (PyQuery ?qs)" by (simp add: term_call_def)
  moreover have "set ?qs = (\<lambda>f. hd (picked ?args f)) ` {f. (\<exists>a b. f = str2 a b \<and> P a b) \<and> matches ?args f}"
    by (simp add: assms)
  moreover have "{f. (\<exists>a b. f = str2 a b \<and> P a b) \<and> matches ?args f} = str2 a ` {b. P a b}"
    by (auto simp: f(1))
  ultimately have "term_call 2 fs ?args = Value (PyQuery ?qs)" "set ?qs = {PyStr b |b. P a b}"
    using f(2) by (simp_all only: image_image setcompr_eq_image)
  then show thesis by (rule that)
qed

lemma query_le_strings:
  "set xs = {PyStr b |b. P b} \<Longrightarrow> set ys = {PyStr b |b. Q b} \<Longrightarrow> query_le xs (PyQuery ys) = Value (PyBool (\<forall>b. P b \<longrightarrow> Q b))"
  by (auto simp: query_le_def set_of_def list_all_iff subset_eq)

text \<open>The decision that the shipped policy states over the announced terms.\<close>

fun policy :: "access_control_terms set \<Rightarrow> EnforceRequest \<Rightarrow> bool" where
  "policy F (UserAccessData u d) \<longleftrightarrow> DataOwner d u \<in> F"
| "policy F (UserAccessFunction u f) \<longleftrightarrow> IsPublicFunction f \<in> F \<or> FunctionOwner f u \<in> F"
| "policy F (UserAccessTask u t) \<longleftrightarrow> TaskParticipant t u \<in> F"
| "policy F (TaskAccessFunction t f) \<longleftrightarrow> IsPublicFunction f \<in> F \<or> (\<forall>u. FunctionOwner f u \<in> F \<longrightarrow> TaskParticipant t u \<in> F)"
| "policy F (TaskAccessData t d) \<longleftrightarrow> (\<forall>u. DataOwner d u \<in> F \<longrightarrow> TaskParticipant t u \<in> F)"

fun request_args :: "EnforceRequest \<Rightarrow> string \<times> string" where
  "request_args (UserAccessData a b) = (a, b)"
| "request_args (UserAccessFunction a b) = (a, b)"
| "request_args (UserAccessTask a b) = (a, b)"
| "request_args (TaskAccessFunction a b) = (a, b)"
| "request_args (TaskAccessData a b) = (a, b)"

lemma request_text_marshal: "snd (request_text r) = (case request_args r of (a, b) \<Rightarrow> marshal2 a b)"
  by (cases r) simp_all

lemma env_lookup:
  "map_of (enforcer_env (model_with fl) rt req) ''data_owner'' = Some (PyTerm 2 (fl_data_owner fl))"
  "map_of (enforcer_env (model_with fl) rt req) ''function_owner'' = Some (PyTerm 2 (fl_function_owner fl))"
  "map_of (enforcer_env (model_with fl) rt req) ''is_public_function'' = Some (PyTerm (Suc 0) (fl_is_public_function fl))"
  "map_of (enforcer_env (model_with fl) rt req) ''task_participant'' = Some (PyTerm 2 (fl_task_participant fl))"
  "map_of (enforcer_env (model_with fl) rt req) ''_'' = Some PyPlaceholder"
  by (simp_all add: enforcer_env_def model_with_def)

lemma env_request:
  "map_of (enforcer_env (model_with fl) ''user_access_data'' req) ''user_access_data'' = Some req"
  "map_of (enforcer_env (model_with fl) ''user_access_function'' req) ''user_access_function'' = Some req"
  "map_of (enforcer_env (model_with fl) ''user_access_task'' req) ''user_access_task'' = Some req"
  "map_of (enforcer_env (model_with fl) ''task_access_function'' req) ''task_access_function'' = Some req"
  "map_of (enforcer_env (model_with fl) ''task_access_data'' req) ''task_access_data'' = Some req"
  by (simp_all add: enforcer_env_def model_with_def)

lemma template_lookup:
  "map_of (request_template (model_with fl)) ''user_access_data'' = Some [''usr'', ''data'']"
  "map_of (request_template (model_with fl)) ''user_access_function'' = Some [''usr'', ''function'']"
  "map_of (request_template (model_with fl)) ''user_access_task'' = Some [''usr'', ''task'']"
  "map_of (request_template (model_with fl)) ''task_access_function'' = Some [''task'', ''function'']"
  "map_of (request_template (model_with fl)) ''task_access_data'' = Some [''task'', ''data'']"
  by (simp_all add: model_with_def shipped_model_def)

lemma matcher_lookup:
  "map_of (matchers (model_with fl)) ''user_access_data'' =
     Some (ECall (EName ''data_owner'') [attr ''user_access_data'' ''data'', attr ''user_access_data'' ''usr''])"
  "map_of (matchers (model_with fl)) ''user_access_function'' =
     Some (EOr (ECall (EName ''is_public_function'') [attr ''user_access_function'' ''function''])
       (ECall (EName ''function_owner'') [attr ''user_access_function'' ''function'', attr ''user_access_function'' ''usr'']))"
  "map_of (matchers (model_with fl)) ''user_access_task'' =
     Some (ECall (EName ''task_participant'') [attr ''user_access_task'' ''task'', attr ''user_access_task'' ''usr''])"
  "map_of (matchers (model_with fl)) ''task_access_function'' =
     Some (EOr (ECall (EName ''is_public_function'') [attr ''task_access_function'' ''function''])
       (ELe (ECall (EName ''function_owner'') [attr ''task_access_function'' ''function'', EName ''_''])
         (ECall (EName ''task_participant'') [attr ''task_access_function'' ''task'', EName ''_''])))"
  "map_of (matchers (model_with fl)) ''task_access_data'' =
     Some (ELe (ECall (EName ''data_owner'') [attr ''task_access_data'' ''data'', EName ''_''])
       (ECall (EName ''task_participant'') [attr ''task_access_data'' ''task'', EName ''_'']))"
  by (simp_all add: model_with_def shipped_model_def)

lemma enforce_policy:
  assumes "lists_for F fl" "request_args r = (a, b)"
  shows "enforce (model_with fl) (fst (request_text r)) (PyList [PyStr a, PyStr b]) = Value (PyBool (policy F r))"
proof -
  have l: "set (fl_data_owner fl) = {str2 d u |d u. DataOwner d u \<in> F}" "set (fl_function_owner fl) = {str2 f u |f u. FunctionOwner f u \<in> F}"
    "set (fl_is_public_function fl) = {[PyStr f] |f. IsPublicFunction f \<in> F}" "set (fl_task_participant fl) = {str2 t u |t u. TaskParticipant t u \<in> F}"
    using assms(1) by (simp_all add: lists_for_def)
  note defs = enforce_def Request_init_def env_lookup env_request template_lookup matcher_lookup pair_test [OF l(1)] pair_test [OF l(2)]
    single_test [OF l(3)] pair_test [OF l(4)]
  show ?thesis
  proof (cases r)
    case (TaskAccessFunction t f)
    obtain xs where xs: "term_call 2 (fl_function_owner fl) [PyStr f, PyPlaceholder] = Value (PyQuery xs)" "set xs = {PyStr u |u. FunctionOwner f u \<in> F}"
      using pair_query [OF l(2)] .
    obtain ys where ys: "term_call 2 (fl_task_participant fl) [PyStr t, PyPlaceholder] = Value (PyQuery ys)" "set ys = {PyStr u |u. TaskParticipant t u \<in> F}"
      using pair_query [OF l(4)] .
    show ?thesis using TaskAccessFunction assms(2) xs(1) ys(1) query_le_strings [OF xs(2) ys(2)] by (simp add: defs)
  next
    case (TaskAccessData t d)
    obtain xs where xs: "term_call 2 (fl_data_owner fl) [PyStr d, PyPlaceholder] = Value (PyQuery xs)" "set xs = {PyStr u |u. DataOwner d u \<in> F}"
      using pair_query [OF l(1)] .
    obtain ys where ys: "term_call 2 (fl_task_participant fl) [PyStr t, PyPlaceholder] = Value (PyQuery ys)" "set ys = {PyStr u |u. TaskParticipant t u \<in> F}"
      using pair_query [OF l(4)] .
    show ?thesis using TaskAccessData assms(2) xs(1) ys(1) query_le_strings [OF xs(2) ys(2)] by (simp add: defs)
  qed (use assms(2) in \<open>simp_all add: defs\<close>)
qed

lemma request_types: "CString_new (fst (request_text r)) = Ok (fst (request_text r))"
  by (cases r) simp_all

lemma enforce_text:
  assumes "knows F s" "\<And>b. conv (PyBool b) = of_bool b" "CString_new (snd (request_text r)) = Ok c"
    and "py_compile c = Value e" "py_eval [] e = Value (PyList [PyStr a, PyStr b])"
    and "fst (request_text r) = fst (request_text r')" "request_args r' = (a, b)"
  shows "enforce_request conv r s = Some (Ok (policy F r'))"
proof -
  obtain fl where fl: "acs_lock s" "acs_engine s = Some (model_with fl)" "lists_for F fl"
    using assms(1) by (auto simp: knows_def)
  have "enforce (model_with fl) (fst (request_text r)) (PyList [PyStr a, PyStr b]) = Value (PyBool (policy F r'))"
    using enforce_policy [OF fl(3) assms(7)] assms(6) by simp
  then have "acs_enforce_request conv (fst (request_text r)) c (acs_engine s) = Some (of_bool (policy F r'))"
    by (simp add: acs_enforce_request_def assms(2,4,5) fl(2) except_minus_one_def)
  then show ?thesis using request_types [of r] assms(3) fl(1)
    by (cases "request_text r") (simp add: enforce_request_def)
qed

lemma enforce_plain:
  assumes "knows F s" "\<And>b. conv (PyBool b) = of_bool b" "request_args r = (a, b)" "plain_id a" "plain_id b"
  shows "enforce_request conv r s = Some (Ok (policy F r))"
  using enforce_text [OF assms(1,2) _ _ _ refl assms(3), of "marshal2 a b" "EList [EStr a, EStr b]"] assms(3-5)
  by (simp add: request_text_marshal CString_marshal compile_marshal2 plain_id_def)

lemma init_knows: "26 \<le> d \<Longrightarrow> acs_lock s \<Longrightarrow> \<exists>s'. init_acs False d s = Some (Ok (), s') \<and> knows {} s'"
proof -
  have "list_all (\<lambda>l. CHR 0x00 \<notin> set l) MODEL_LINES" by code_simp
  moreover have "CHR 0x00 \<notin> set (join_with nl ls)" if "list_all (\<lambda>l. CHR 0x00 \<notin> set l) ls" for ls
    using that by (induction nl ls rule: join_with.induct) (auto simp: nl_def)
  ultimately have "CString_new MODEL_TEXT = Ok MODEL_TEXT" by (simp add: CString_new_def MODEL_TEXT_def)
  then show "26 \<le> d \<Longrightarrow> acs_lock s \<Longrightarrow> ?thesis"
    by (simp add: init_acs_def unwrap_def setup_shipped knows_def shipped_is_empty lists_for_def)
      (rule exI, rule conjI, rule refl, simp)
qed

lemma announced:
  assumes "26 \<le> d" "acs_lock s" "list_all plain_term ts"
  obtains s1 s' where "init_acs False d s = Some (Ok (), s1)" "announce_facts ts s1 = Some (Ok (), s')" "knows (set ts) s'"
  using init_knows [OF assms(1,2)] announce_all [OF _ assms(3)] by (metis Un_empty_left)

lemma data_list_policy:
  assumes "knows F s" "\<And>b. conv (PyBool b) = of_bool b" "plain_id t" "list_all plain_id ds"
  shows "authorize_data_list conv t ds s = Some (Ok (\<forall>d\<in>set ds. policy F (TaskAccessData t d)))"
  using assms(4)
proof (induction ds)
  case (Cons d ds)
  have "enforce_request conv (TaskAccessData t d) s = Some (Ok (policy F (TaskAccessData t d)))"
    using enforce_plain [OF assms(1,2), of "TaskAccessData t d"] assms(3) Cons.prems by simp
  then show ?case using Cons by (auto simp: answer_def simp del: policy.simps split: bool.splits)
qed simp

text \<open>
  C13. The service decides by the policy.  After it has started and any facts with plain identifiers were announced, the
  answers for plain identifiers are: data is for its owners, a function for everybody if it is public and else for its
  owners, a task for its participants; a staged task is accepted when its function is public or has all its owners
  among the participants of the task, and so has every input and output.\<close>

theorem policy_exact:
  assumes "26 \<le> d" "acs_lock s" "\<And>b. conv (PyBool b) = of_bool b" "list_all plain_term ts"
  shows "\<exists>s1 s'. init_acs False d s = Some (Ok (), s1) \<and> announce_facts ts s1 = Some (Ok (), s') \<and>
    (\<forall>u x. plain_id u \<and> plain_id x \<longrightarrow>
       authorize_data conv (Request_new \<lparr>ad_subject_user_id = u, ad_object_data_id = x\<rparr>) s' = Some (Ok (DataOwner x u \<in> set ts)) \<and>
       authorize_function conv (Request_new \<lparr>af_subject_user_id = u, af_object_function_id = x\<rparr>) s' =
         Some (Ok (IsPublicFunction x \<in> set ts \<or> FunctionOwner x u \<in> set ts)) \<and>
       authorize_task conv (Request_new \<lparr>at_subject_user_id = u, at_object_task_id = x\<rparr>) s' = Some (Ok (TaskParticipant x u \<in> set ts))) \<and>
    (\<forall>t f ins outs. plain_id t \<and> plain_id f \<and> list_all plain_id (ins @ outs) \<longrightarrow>
       authorize_staged_task conv (Request_new \<lparr>as_subject_task_id = t, as_object_function_id = f,
           as_object_input_data_id_list = ins, as_object_output_data_id_list = outs\<rparr>) s' =
         Some (Ok ((IsPublicFunction f \<in> set ts \<or> {u. FunctionOwner f u \<in> set ts} \<subseteq> {u. TaskParticipant t u \<in> set ts}) \<and>
           (\<forall>x\<in>set (ins @ outs). {u. DataOwner x u \<in> set ts} \<subseteq> {u. TaskParticipant t u \<in> set ts}))))"
proof -
  obtain s1 s' where run: "init_acs False d s = Some (Ok (), s1)" "announce_facts ts s1 = Some (Ok (), s')" and k: "knows (set ts) s'"
    using announced [OF assms(1,2,4)] .
  note e = enforce_plain [OF k assms(3)]
  have "authorize_staged_task conv (Request_new \<lparr>as_subject_task_id = t, as_object_function_id = f,
           as_object_input_data_id_list = ins, as_object_output_data_id_list = outs\<rparr>) s' =
      Some (Ok (policy (set ts) (TaskAccessFunction t f) \<and> (\<forall>x\<in>set (ins @ outs). policy (set ts) (TaskAccessData t x))))"
    if "plain_id t" "plain_id f" "list_all plain_id (ins @ outs)" for t f ins outs
    using that e [of "TaskAccessFunction t f"] data_list_policy [OF k assms(3), of t ins] data_list_policy [OF k assms(3), of t outs]
    by (auto simp: authorize_staged_task_def Request_new_def answer_def Let_def simp del: policy.simps split: bool.splits)
  then show ?thesis using run e
    by (auto simp: authorize_data_def authorize_function_def authorize_task_def Request_new_def answer_def subset_eq)
qed

definition impostor :: "string \<Rightarrow> string \<Rightarrow> string" where
  "impostor a v = a @ squote # ''] and ['' @ squote # v"

lemma impostor_text: "marshal2 (impostor a v) x =
    text_of [(TLsq, 0), (TStr a, 0), (TRsq, 1), (TAnd, 1), (TLsq, 0), (TStr v, 0), (TComma, 0), (TStr x, 0), (TRsq, 0)]"
  by (simp add: marshal2_def marshal_string_def text_of_def impostor_def)

lemma compile_impostor:
  "plain a \<Longrightarrow> plain v \<Longrightarrow> plain x \<Longrightarrow> py_compile (marshal2 (impostor a v) x) = Value (EAnd (EList [EStr a]) (EList [EStr v, EStr x]))"
  unfolding impostor_text by (rule compile_text) (simp_all add: numeral_eq_Suc)

text \<open>
  C21. Quotes in an identifier impersonate another user.  The identifiers are put between quotes without escaping and the
  engine evaluates the text, so a user id that closes the quote and goes on with \<^verbatim>\<open>'] and ['\<close> and the name of an owner is
  accepted for the data of that owner, although no fact mentions the id.\<close>

theorem quoted_id_impersonates:
  assumes "26 \<le> d" "acs_lock s" "\<And>b. conv (PyBool b) = of_bool b" "list_all plain_term ts"
    and "plain_id a" "plain_id v" "plain_id x" "DataOwner x v \<in> set ts"
  shows "\<exists>s1 s'. init_acs False d s = Some (Ok (), s1) \<and> announce_facts ts s1 = Some (Ok (), s') \<and>
    authorize_data conv (Request_new \<lparr>ad_subject_user_id = impostor a v, ad_object_data_id = x\<rparr>) s' = Some (Ok True) \<and>
    DataOwner x (impostor a v) \<notin> set ts"
proof -
  obtain s1 s' where run: "init_acs False d s = Some (Ok (), s1)" "announce_facts ts s1 = Some (Ok (), s')" and k: "knows (set ts) s'"
    using announced [OF assms(1,2,4)] .
  have "CString_new (marshal2 (impostor a v) x) = Ok (marshal2 (impostor a v) x)"
    using assms(5-7) by (simp add: CString_new_def impostor_def marshal2_def marshal_string_def plain_id_def squote_def)
  then have "enforce_request conv (UserAccessData (impostor a v) x) s' = Some (Ok (policy (set ts) (UserAccessData v x)))"
    using assms(5-7) by (intro enforce_text [OF k assms(3) _ compile_impostor [of a v x]]) (auto simp: plain_id_def)
  moreover have "\<not> plain_id (impostor a v)" by (simp add: plain_id_def plain_def impostor_def)
  then have "DataOwner x (impostor a v) \<notin> set ts" using assms(4) by (auto simp: list_all_iff)
  ultimately show ?thesis using run assms(8) by (simp add: authorize_data_def Request_new_def answer_def)
qed

section \<open>Witnesses\<close>

definition bool_conv :: "py_value \<Rightarrow> 32 word" where
  "bool_conv v = (case v of PyBool b \<Rightarrow> of_bool b | _ \<Rightarrow> 0)"

lemma bool_conv [simp]: "bool_conv (PyBool b) = of_bool b"
  by (simp add: bool_conv_def)

lemma mock_data_plain: "list_all plain_term mock_data"
  by code_simp

lemma mock_facts:
  "DataOwner ''mock_data'' ''mock_user_a'' \<in> set mock_data" "DataOwner ''mock_data'' ''mock_user_d'' \<notin> set mock_data"
  "IsPublicFunction ''mock_public_function'' \<in> set mock_data"
  by (code_simp, code_simp, code_simp)

lemma mock_ids: "plain_id ''mock_data''" "plain_id ''mock_user_a''" "plain_id ''mock_user_d''" "plain_id ''mock_public_function''"
  by (code_simp, code_simp, code_simp, code_simp)

theorem policy_exact_witness:
  "\<exists>s1 s'. init_acs False 26 \<lparr>acs_lock = True, acs_engine = None\<rparr> = Some (Ok (), s1) \<and> announce_facts mock_data s1 = Some (Ok (), s') \<and>
    authorize_data bool_conv (Request_new \<lparr>ad_subject_user_id = ''mock_user_a'', ad_object_data_id = ''mock_data''\<rparr>) s' = Some (Ok True) \<and>
    authorize_data bool_conv (Request_new \<lparr>ad_subject_user_id = ''mock_user_d'', ad_object_data_id = ''mock_data''\<rparr>) s' = Some (Ok False) \<and>
    authorize_function bool_conv (Request_new \<lparr>af_subject_user_id = ''mock_user_d'', af_object_function_id = ''mock_public_function''\<rparr>) s' = Some (Ok True)"
proof -
  obtain s1 s' where "init_acs False 26 \<lparr>acs_lock = True, acs_engine = None\<rparr> = Some (Ok (), s1)" "announce_facts mock_data s1 = Some (Ok (), s')"
    "\<And>u x. plain_id u \<Longrightarrow> plain_id x \<Longrightarrow>
       authorize_data bool_conv (Request_new \<lparr>ad_subject_user_id = u, ad_object_data_id = x\<rparr>) s' = Some (Ok (DataOwner x u \<in> set mock_data))"
    "\<And>u x. plain_id u \<Longrightarrow> plain_id x \<Longrightarrow>
       authorize_function bool_conv (Request_new \<lparr>af_subject_user_id = u, af_object_function_id = x\<rparr>) s' =
         Some (Ok (IsPublicFunction x \<in> set mock_data \<or> FunctionOwner x u \<in> set mock_data))"
    using policy_exact [of 26 "\<lparr>acs_lock = True, acs_engine = None\<rparr>" bool_conv mock_data, OF _ _ bool_conv mock_data_plain] by auto
  with mock_facts mock_ids show ?thesis by simp
qed

theorem quoted_id_impersonates_witness:
  "\<exists>s1 s'. init_acs False 26 \<lparr>acs_lock = True, acs_engine = None\<rparr> = Some (Ok (), s1) \<and> announce_facts mock_data s1 = Some (Ok (), s') \<and>
    authorize_data bool_conv (Request_new \<lparr>ad_subject_user_id = impostor ''mock_user_d'' ''mock_user_a'', ad_object_data_id = ''mock_data''\<rparr>) s' = Some (Ok True)"
  using quoted_id_impersonates [of 26 "\<lparr>acs_lock = True, acs_engine = None\<rparr>" bool_conv mock_data "''mock_user_d''" "''mock_user_a''" "''mock_data''",
      OF _ _ bool_conv mock_data_plain] mock_facts mock_ids by auto

end
