(* ===== verification/Rpc.thy ===== *)
theory Rpc
  imports Storage_Client
begin

text \<open>
  The framing of remote calls: \<^verbatim>\<open>rpc/src/protocol.rs\<close> and \<^verbatim>\<open>rpc/src/transport.rs\<close>.

  The stream under the protocol is one end of a connection: the bytes that the
  peer sends until it closes, the bytes written so far, and whether writing still
  works. The reading and writing of it follow the contracts of \<^verbatim>\<open>std::io\<close>:
  \<^verbatim>\<open>read_exact\<close> and \<^verbatim>\<open>write_all\<close> transfer everything or fail, while a single
  \<^verbatim>\<open>write\<close> may take only a part, which is the parameter \<open>cn_accepts\<close>. The
  serialisation is a parameter as in \<open>Types\<close>.
\<close>

section \<open>Connections\<close>

datatype io_error = UnexpectedEof | IoOther string


record conn =
  cn_in :: bytes
  cn_out :: bytes
  cn_open :: bool
  cn_accepts :: "bytes \<Rightarrow> nat"

definition read_exact :: "nat \<Rightarrow> (conn, bytes, io_error) op" where
  "read_exact n c =
     (if length (cn_in c) < n then (Err UnexpectedEof, c\<lparr>cn_in := []\<rparr>)
      else (Ok (take n (cn_in c)), c\<lparr>cn_in := drop n (cn_in c)\<rparr>))"

definition conn_write :: "bytes \<Rightarrow> (conn, nat, io_error) op" where
  "conn_write bs c =
     (if \<not> cn_open c then (Err (IoOther ''broken pipe''), c)
      else let k = min (cn_accepts c bs) (length bs) in (Ok k, c\<lparr>cn_out := cn_out c @ take k bs\<rparr>))"

definition write_all :: "bytes \<Rightarrow> (conn, unit, io_error) op" where
  "write_all bs c =
     (if \<not> cn_open c then (Err (IoOther ''broken pipe''), c)
      else (Ok (), c\<lparr>cn_out := cn_out c @ bs\<rparr>))"

definition conn_flush :: "(conn, unit, io_error) op" where
  "conn_flush c = (if \<not> cn_open c then (Err (IoOther ''broken pipe''), c) else (Ok (), c))"

section \<open>The protocol\<close>

datatype protocol_error = IoError io_error | SerdeError | ProtocolOther string


definition max_frame_len :: u64 where
  "max_frame_len = 32 * 1024 * 1024"

definition read_message :: "('v, bytes) json \<Rightarrow> (conn, 'v, protocol_error) op" where
  "read_message J =
     bind_op (map_err_op IoError (read_exact 8)) (\<lambda>header.
     let buf_len = u64_from_be_bytes header in
     if buf_len > max_frame_len then return_op (Err (ProtocolOther ''Exceed max frame length''))
     else
       bind_op (map_err_op IoError (read_exact (unat buf_len))) (\<lambda>recv_buf.
       return_op (map_err (\<lambda>_. SerdeError) (json_from_slice J recv_buf))))"

definition write_message :: "('u, bytes) json \<Rightarrow> 'u \<Rightarrow> (conn, unit, protocol_error) op" where
  "write_message J msg =
     bind_op (return_op (map_err (\<lambda>_. SerdeError) (json_to_vec J msg))) (\<lambda>send_buf.
     let header = u64_to_be_bytes (of_nat (length send_buf)) in
     bind_op (map_err_op IoError (conn_write header)) (\<lambda>_.
     bind_op (map_err_op IoError (write_all send_buf)) (\<lambda>_.
     map_err_op IoError conn_flush)))"

text \<open>\<^verbatim>\<open>JsonProtocolResult\<close> and its two conversions.\<close>

datatype ('t, 'e) json_protocol_result = JOk 't | JErr 'e

fun from_result :: "('t, 'e) result \<Rightarrow> (('t, 'e) json_protocol_result, 'f) result" where
  "from_result (Ok t) = Ok (JOk t)"
| "from_result (Err e) = Ok (JErr e)"
| "from_result Panic = Panic"


section \<open>Client and server\<close>

type_synonym 't response = "('t, teaclave_service_response_error) json_protocol_result"


definition invalid_request :: "'t response" where
  "invalid_request = JErr (RequestError ''invalid request'')"

lemma read_exact_length: "read_exact n c = (r, c') \<Longrightarrow> length (cn_in c') \<le> length (cn_in c)"
  by (auto simp: read_exact_def split: if_splits)

lemma read_message_shorter:
  assumes "read_message J c = (r, c')" "\<forall>e. r \<noteq> Err (IoError e)"
  shows "length (cn_in c') < length (cn_in c)"
proof -
  have "8 \<le> length (cn_in c)"
    using assms by (auto simp: read_message_def bind_op_def map_err_op_def read_exact_def split: if_splits)
  then obtain h c1 where h: "read_exact 8 c = (Ok h, c1)" "length (cn_in c1) < length (cn_in c)"
    by (simp add: read_exact_def)
  then have "length (cn_in c') \<le> length (cn_in c1)"
    using assms(1) by (auto simp: read_message_def bind_op_def map_err_op_def return_op_def Let_def
        split: if_splits prod.splits result.splits dest: read_exact_length)
  with h(2) show ?thesis by simp
qed

lemma write_message_in: "write_message J m c = (r, c') \<Longrightarrow> cn_in c' = cn_in c"
  by (auto simp: write_message_def bind_op_def map_err_op_def return_op_def Let_def conn_write_def write_all_def conn_flush_def
      split: if_splits prod.splits result.splits)

text \<open>
  The loop of a connection. A panic of the handler ends the thread of the
  connection. Every round takes at least a header from the stream, so the loop
  ends.
\<close>

function serve ::
    "('q request, bytes) json \<Rightarrow> ('r response, bytes) json \<Rightarrow> ('q request \<Rightarrow> ('s, 'r) service_op) \<Rightarrow> conn \<times> 's \<Rightarrow>
      (unit, protocol_error) result \<times> (conn \<times> 's)" where
  "serve JQ JR handle_request (c, s) = (case read_message JQ c of
     (Ok req, c1) \<Rightarrow> (case handle_request req s of (res, s') \<Rightarrow>
        (case from_result res of
           Ok response \<Rightarrow> (case write_message JR response c1 of
               (Ok _, c2) \<Rightarrow> serve JQ JR handle_request (c2, s')
             | (Err e, c2) \<Rightarrow> (Err e, (c2, s'))
             | (Panic, c2) \<Rightarrow> (Panic, (c2, s')))
         | Err e \<Rightarrow> (Err e, (c1, s'))
         | Panic \<Rightarrow> (Panic, (c1, s'))))
   | (Err (IoError _), c1) \<Rightarrow> (Ok (), (c1, s))
   | (Err _, c1) \<Rightarrow> (case write_message JR invalid_request c1 of
         (Ok _, c2) \<Rightarrow> serve JQ JR handle_request (c2, s)
       | (Err e, c2) \<Rightarrow> (Err e, (c2, s))
       | (Panic, c2) \<Rightarrow> (Panic, (c2, s)))
   | (Panic, c1) \<Rightarrow> (Panic, (c1, s)))"
  by pat_completeness auto
termination
  by (relation "measure (\<lambda>(_, _, _, c, _). length (cn_in c))")
    (auto dest!: read_message_shorter [OF sym] write_message_in [OF sym])

declare serve.simps [simp del]

section \<open>Frames\<close>

definition frame_of :: "bytes \<Rightarrow> bytes" where
  "frame_of v = u64_to_be_bytes (of_nat (length v)) @ v"

definition message_frame :: "('a, bytes) json \<Rightarrow> 'a \<Rightarrow> bytes" where
  "message_frame J m = (case json_to_vec J m of Ok v \<Rightarrow> frame_of v | _ \<Rightarrow> [])"


text \<open>A connection that can be written to and takes the header in one piece.\<close>

definition writable :: "conn \<Rightarrow> bool" where
  "writable c \<longleftrightarrow> cn_open c \<and> (\<forall>bs. length bs = 8 \<longrightarrow> 8 \<le> cn_accepts c bs)"

lemma unat_max_frame_len [simp]: "unat max_frame_len = 33554432"
  by (simp add: max_frame_len_def)

lemma write_frame:
  assumes "writable c" "json_to_vec J m = Ok v"
  shows "write_message J m c = (Ok (), c\<lparr>cn_out := cn_out c @ frame_of v\<rparr>)"
  using assms by (simp add: write_message_def bind_op_def return_op_def map_err_op_def conn_write_def write_all_def conn_flush_def
      writable_def frame_of_def Let_def)



lemma read_oversized:
  assumes "length h = 8" "u64_from_be_bytes h > max_frame_len"
  shows "read_message J (c\<lparr>cn_in := h @ rest\<rparr>) = (Err (ProtocolOther ''Exceed max frame length''), c\<lparr>cn_in := rest\<rparr>)"
  using assms by (simp add: read_message_def bind_op_def return_op_def map_err_op_def read_exact_def Let_def)


lemma conn_update_commute [simp]: "c\<lparr>cn_out := out, cn_in := i\<rparr> = c\<lparr>cn_in := i, cn_out := out\<rparr>"
  by simp

lemma writable_update [simp]: "writable (c\<lparr>cn_in := i\<rparr>) = writable c" "writable (c\<lparr>cn_out := out\<rparr>) = writable c"
  by (simp_all add: writable_def)

section \<open>Sessions\<close>











lemma le_val_append: "le_val (xs @ ys) = le_val xs + 256 ^ length xs * le_val ys"
  by (induction xs) (simp_all add: algebra_simps)

lemma leading_byte:
  assumes "length h = 8" "hd h \<noteq> 0"
  shows "u64_from_be_bytes h > max_frame_len"
proof -
  obtain b bs where h: "h = b # bs" "length bs = 7" using assms(1) by (cases h) auto
  have "0 < unat b" using assms(2) h(1) by (simp add: unat_gt_0)
  then have "256 ^ 7 \<le> le_val (rev h)" by (simp add: h le_val_append)
  moreover have "le_val (rev h) < 256 ^ 8" using le_val_less [of "rev h"] assms(1) by simp
  ultimately show ?thesis by (simp add: u64_from_be_bytes_def word_less_nat_alt unat_of_nat)
qed

lemma serve_oversized:
  assumes "json_to_vec JR invalid_request = Ok w" "writable c" "length h8 = 8" "u64_from_be_bytes h8 > max_frame_len"
  shows "serve JQ JR h (c\<lparr>cn_in := h8 @ rest\<rparr>, s) =
    serve JQ JR h (c\<lparr>cn_in := rest, cn_out := cn_out c @ message_frame JR invalid_request\<rparr>, s)"
proof -
  show ?thesis using read_oversized [OF assms(3,4), of JQ rest c] write_frame [OF _ assms(1), of "c\<lparr>cn_in := rest\<rparr>"] assms(1,2)
    by (subst serve.simps) (simp add: message_frame_def)
qed

lemma serve_oversized_body:
  assumes "json_to_vec JR invalid_request = Ok w"
  shows "writable c \<Longrightarrow> length v = 8 * k \<Longrightarrow> 0 \<notin> set v \<Longrightarrow> serve JQ JR h (c\<lparr>cn_in := v @ rest\<rparr>, s) =
    serve JQ JR h (c\<lparr>cn_in := rest, cn_out := cn_out c @ concat (replicate k (message_frame JR invalid_request))\<rparr>, s)"
proof (induction k arbitrary: c v)
  case (Suc k)
  let ?c = "c\<lparr>cn_out := cn_out c @ message_frame JR invalid_request\<rparr>"
  have "hd (take 8 v) \<noteq> 0" "length (take 8 v) = 8" using Suc.prems(2,3) by (cases v; auto)+
  moreover have v: "v @ rest = take 8 v @ drop 8 v @ rest" by (metis append.assoc append_take_drop_id)
  ultimately have "serve JQ JR h (c\<lparr>cn_in := v @ rest\<rparr>, s) = serve JQ JR h (?c\<lparr>cn_in := drop 8 v @ rest\<rparr>, s)"
    unfolding v using serve_oversized [OF assms Suc.prems(1) _ leading_byte, of "take 8 v" JQ h "drop 8 v @ rest" s] by simp
  moreover have "0 \<notin> set (drop 8 v)" using Suc.prems(3) by (meson in_set_dropD)
  ultimately show ?case using Suc.IH [of ?c "drop 8 v"] Suc.prems by simp
qed simp

text \<open>
  C23. An oversized request is answered many times.  A request of more than 32 MB is refused without reading its body,
  and the body is then read as further frames: a body of \<open>8 k\<close> non-zero bytes is answered by \<open>k + 1\<close> error responses,
  so that the responses to all later requests arrive \<open>k\<close> messages late.\<close>

theorem oversized_request_floods:
  assumes "json_to_vec JR invalid_request = Ok w" "writable c" "33554432 < length v" "length v < 2 ^ 64" "length v = 8 * k" "0 \<notin> set v"
  shows "serve JQ JR h (c\<lparr>cn_in := frame_of v @ rest\<rparr>, s) =
    serve JQ JR h (c\<lparr>cn_in := rest, cn_out := cn_out c @ concat (replicate (Suc k) (message_frame JR invalid_request))\<rparr>, s)"
proof -
  let ?h = "u64_to_be_bytes (of_nat (length v))"
  have "unat (of_nat (length v) :: u64) = length v" using assms(4) by (simp add: unat_of_nat)
  then have "u64_from_be_bytes ?h > max_frame_len" using assms(3) by (simp add: word_less_nat_alt)
  then have "serve JQ JR h (c\<lparr>cn_in := ?h @ v @ rest\<rparr>, s) =
      serve JQ JR h (c\<lparr>cn_in := v @ rest, cn_out := cn_out c @ message_frame JR invalid_request\<rparr>, s)"
    by (intro serve_oversized [OF assms(1,2)]) simp_all
  then show ?thesis
    using serve_oversized_body [OF assms(1) _ assms(5,6), of "c\<lparr>cn_out := cn_out c @ message_frame JR invalid_request\<rparr>" JQ h rest s] assms(2)
    by (simp add: frame_of_def)
qed

section \<open>Witnesses\<close>

text \<open>A service that counts its calls and answers whether there was one before.\<close>

definition tick :: "unit request \<Rightarrow> (nat, bool) service_op" where
  "tick q n = (Ok (0 < n), n + 1)"

definition tick_request :: "(unit request, bytes) json" where
  "tick_request = \<lparr>json_to_vec = (\<lambda>_. Ok [9]), json_from_slice = (\<lambda>_. Ok (Request_new ()))\<rparr>"

definition tick_response :: "(bool response, bytes) json" where
  "tick_response = \<lparr>json_to_vec = (\<lambda>r. Ok (case r of JOk b \<Rightarrow> [of_bool b] | JErr _ \<Rightarrow> [2])),
     json_from_slice = (\<lambda>v. Ok (if v = [0] then JOk False else if v = [1] then JOk True else invalid_request))\<rparr>"

definition fresh_conn :: conn where
  "fresh_conn = \<lparr>cn_in = [], cn_out = [], cn_open = True, cn_accepts = length\<rparr>"


theorem oversized_request_floods_witness:
  "serve tick_request tick_response tick (fresh_conn\<lparr>cn_in := frame_of (replicate 33554440 1) @ []\<rparr>, 0) =
    serve tick_request tick_response tick (fresh_conn\<lparr>cn_in := [], cn_out := cn_out fresh_conn @
      concat (replicate (Suc 4194305) (message_frame tick_response invalid_request))\<rparr>, 0)"
  by (rule oversized_request_floods [of _ "[2]"])
    (simp_all add: fresh_conn_def writable_def tick_response_def invalid_request_def)

end
