(* ===== verification/Spec2Isabelle.thy ===== *)
theory Spec2Isabelle
  imports Prelude Crypto Types Task_State Storage_Client Management Scheduler Teaclave_System Storage_Service Demo_Libs Interleaving System_Access
    Ldb_Keys Ldb_Skipmap Ldb_Memtable Ldb_Write_Batch Ldb_Log Ldb_Instances Ldb_Properties Ldb_Database Ldb_Recovery Ldb_Block Storage_Stack
    Staged_Files Execution Execution_Properties Authentication Demo_Auth Frontend Deployment Acs_Python Acs_Engine Acs_Grammar Access_Control Rpc
begin

text \<open>
  A verification development of Teaclave, a platform on which several parties
  compute on joint data inside enclaves. Paths are below \<^verbatim>\<open>src/\<close>.

  \<^bold>\<open>The program.\<close> A user registers and logs in at the authentication service and
  sends requests, with the token of the login, to the frontend
  (\<^verbatim>\<open>services/frontend\<close>). The frontend lets the authentication service
  (\<^verbatim>\<open>services/authentication\<close>) check the token and forwards the request to the
  management service (\<^verbatim>\<open>services/management\<close>), which keeps functions, files and
  tasks in the storage service (\<^verbatim>\<open>services/storage\<close>). A task is created from a
  function, gets its data assigned, is approved by its participants, and is then
  staged: the management service enqueues it, the scheduler (\<^verbatim>\<open>services/scheduler\<close>)
  hands it to an executor (\<^verbatim>\<open>services/execution\<close>), which reports a status and a
  result. The storage service keeps its map and its queues in a LevelDB database
  (\<^verbatim>\<open>common/rusty_leveldb_sgx\<close>). The access control service
  (\<^verbatim>\<open>services/access_control\<close>) decides by a policy model that a Python engine
  evaluates. The services talk over a framed protocol (\<^verbatim>\<open>rpc\<close>).

  \<^bold>\<open>Conventions\<close> (\<open>Prelude\<close>). A fallible function returns a \<open>result\<close>, whose third
  constructor \<open>Panic\<close> stands for \<^verbatim>\<open>unwrap\<close> on an error, a failed assertion, an
  index out of range and \<^verbatim>\<open>unimplemented!\<close>. A handler is an operation \<open>op\<close> on the
  state it changes and keeps the effects it had before it failed. Integers keep
  their width. Third-party crates (\<^verbatim>\<open>ring\<close>, \<^verbatim>\<open>uuid\<close>, \<^verbatim>\<open>serde_json\<close>, \<^verbatim>\<open>jsonwebtoken\<close>,
  \<^verbatim>\<open>integer-encoding\<close>, \<^verbatim>\<open>crc\<close>, \<^verbatim>\<open>rand\<close>, \<^verbatim>\<open>snap\<close>) are records of functions with their
  documented contract as a predicate (\<open>ring_ok\<close>, \<open>uuid_ok\<close>, \<open>json_ok\<close>,
  \<open>auth_libs_ok\<close>, \<open>int_enc_ok\<close>, \<open>pfs_ok\<close>); \<open>Demo_Libs\<close>, \<open>Demo_Auth\<close> and \<open>Ldb_Instances\<close> give
  concrete ones. Random identifiers, salts, the clock and the iteration order of
  hash maps are arguments.

  \<^bold>\<open>Theories.\<close>
  \<^item> \<open>Crypto\<close>, \<open>Types\<close>: keys and tags of files (\<^verbatim>\<open>crypto\<close>, \<^verbatim>\<open>types/src/crypto.rs\<close>),
    users, files, functions, staged tasks and storable objects (\<^verbatim>\<open>types\<close>). The locale
    \<open>storable\<close> is the contract of an object with a key prefix.
  \<^item> \<open>Task_State\<close>: \<^verbatim>\<open>types/src/task_state.rs\<close>, one tagged type per typestate, the
    guards, transitions and conversions; \<open>task_inv\<close> is the invariant of a task and
    \<open>task_step\<close> its life. The locale \<open>transition\<close> is interpreted on the five
    transitions.
  \<^item> \<open>Storage_Client\<close>: the storage service as its clients see it, the abstract
    store \<open>ideal_client\<close>, and the locales \<open>simulation\<close> and \<open>storage_service\<close>: a
    provider that simulates the abstract store, with room that every call uses up
    by a known cost. \<open>Management\<close> and \<open>Scheduler\<close> model all their handlers over any
    client and prove them inside the locale to simulate the same handlers on the
    abstract store.
  \<^item> \<open>Teaclave_System\<close>: both services on one store, \<open>system_call\<close> and \<open>system_step\<close>,
    the typing invariant \<open>store_inv\<close>, its preservation, and the steps that each
    call makes on stored tasks. \<open>Interleaving\<close> cuts handlers at their storage
    calls; \<open>System_Access\<close> gives exact conditions of the handlers.
  \<^item> \<open>Storage_Service\<close>: the persistent queue and the request loop over any
    key-value database (locale \<open>kv_store\<close>, a sublocale of \<open>storage_service\<close>).
  \<^item> \<open>Ldb_Keys\<close>, \<open>Ldb_Skipmap\<close>, \<open>Ldb_Memtable\<close>, \<open>Ldb_Write_Batch\<close>, \<open>Ldb_Log\<close>,
    \<open>Ldb_Database\<close>, \<open>Ldb_Recovery\<close>: the files of the same names of the database. The
    skip list is a store of nodes linked by addresses, related to a sorted list by
    a representation predicate; comparators satisfy the locale \<open>key_order\<close>.
    \<open>Ldb_Properties\<close> states what the in-memory half promises.
  \<^item> \<open>Ldb_Block\<close>: \<^verbatim>\<open>block_builder.rs\<close> and \<^verbatim>\<open>block.rs\<close>, the blocks of a table file
    with shared key prefixes and restart points, and their iterator. The iterator is
    related to a cursor on the list of entries; the lemmas on the order of the
    entries are in the locale \<open>key_order\<close>.
  \<^item> \<open>Storage_Stack\<close> interprets \<open>kv_store\<close> on the database, once for a running one
    (\<open>ldb\<close>) and once for one that can be reopened (\<open>dur\<close>).
  \<^item> \<open>Authentication\<close>, \<open>Frontend\<close>: the two services; \<open>Deployment\<close> composes them with
    management and scheduler (\<open>deployed_run\<close>).
  \<^item> \<open>Acs_Python\<close>, \<open>Acs_Engine\<close>, \<open>Acs_Grammar\<close>, \<open>Access_Control\<close>: the part of Python
    that the engine evaluates, the engine (\<^verbatim>\<open>acs_engine.py\<close>) with its parser
    combinators, the reading of the shipped \<^verbatim>\<open>model.conf\<close>, and the Rust service.
  \<^item> \<open>Rpc\<close>: \<^verbatim>\<open>rpc/src/protocol.rs\<close> and \<^verbatim>\<open>rpc/src/transport.rs\<close> over a byte stream.
  \<^item> \<open>Staged_Files\<close>, \<open>Execution\<close>, \<open>Execution_Properties\<close>: the files of a task
    (\<^verbatim>\<open>types/src/staged_file.rs\<close>) over the protected file library, and how the execution
    service downloads, checks and stages inputs, chooses an executor, runs the function
    and converts and uploads outputs (\<^verbatim>\<open>task_file_manager.rs\<close>, \<^verbatim>\<open>worker/src/worker.rs\<close>,
    \<^verbatim>\<open>runtime/src/default.rs\<close>). The host is an arbitrary state with arbitrary operations.
    \<open>run_task\<close> is what the parameter \<open>execute\<close> of \<open>execution_round\<close> stands for.

  \<^bold>\<open>What the theorems show.\<close> A task reaches an executor only with all its data
  and the consent of its participants, each given through an authenticated
  request; what was approved does not change; a task is handed out once; no
  handler panics in a reachable store; reads and writes are served exactly to
  their owners. Any sequence of calls of the services, served by the storage
  service from the LevelDB model, gets the answers of the abstract store, and so
  does a database reopened after a crash. Registered users are authenticated
  exactly, and the access control service decides exactly by its policy for
  identifiers that need no escaping. A function reads from its inputs what their owners
  encrypted, whatever the host does, and the tags of its outputs stand for their
  contents. Remote calls give the results of local ones.
  The parts of the database are correct against abstract ones: the memtable
  against a map from keys and sequence numbers, the log and the batch by round
  trips, snapshots by stability, blocks
  by a cursor over the entries that were added. Several theorems
  show behaviour that differs from what the code or its documentation intends:
  lost approvals, an overtaken invocation, an output tag that blocks a task, a
  failed write that poisons its repetition, snapshot handles used as sequence
  numbers, impersonation by a quote in an identifier, inputs staged over each other, a block
  iterator that remembers its place after a reset, and responses that go out of
  step after an oversized request.

  \<^bold>\<open>Bounds.\<close> \<open>derive\<close> in \<open>Acs_Python\<close> takes a depth of eight per token, which is
  more than the precedence levels of the grammar; running out gives \<open>Outside\<close>, about
  which nothing is claimed, and the shipped model and all marshalled requests are
  proved to derive. \<open>call\<close> in \<open>Acs_Engine\<close> takes the recursion limit of the
  interpreter; 26 levels read the shipped model. The loops of the skip list, the
  log reader, the recovery, the block iterator and the file conversion are partial
  functions and are proved to return; the
  loop of a connection ends because every round takes a header.

  \<^bold>\<open>Not modelled.\<close> The SGX side (\<^verbatim>\<open>attestation\<close>, \<^verbatim>\<open>binder\<close>, \<^verbatim>\<open>dcap\<close>, \<^verbatim>\<open>edl\<close>, the enclave
  entry points) is calls of the SGX library and of the network. \<^verbatim>\<open>protected_fs_rs\<close>
  binds the C++ protected file library of the SGX SDK, whose contract is \<open>pfs_ok\<close>. The protobuf types are generated by the build, so the
  conversions in \<^verbatim>\<open>services/proto\<close> convert from code that is not in the repository.
  The file agent copies files outside the enclave. The functions that tasks run
  and the MesaPy interpreter are parameters. Of the database, \<^verbatim>\<open>version.rs\<close>, \<^verbatim>\<open>version_set.rs\<close>,
  the table files, the caches, the filters, the merging and database iterators and
  the environments are not modelled: what the database calls of them is the record
  \<open>env_levels\<close>, a parameter. The protocol over the attested TLS channel is
  the byte stream of \<open>Rpc\<close>. The command line, the SDKs, the tools, the
  configuration, the examples and the tests are clients or build material.
\<close>

section \<open>Properties of the task services\<close>

text \<open>
  C1. Multi-party consent.  In every store that a sequence of calls of the
  management and scheduler services leads to, a staged task that the scheduler
  hands to an executor belongs to a stored task all of whose data is assigned,
  and runs on exactly the files, arguments and registered function of that task;
  unless the task has a single participant, every participant, among them the
  creator and every owner of every input and output file of the task, has called
  \<^verbatim>\<open>approve_task\<close> on it.
\<close>

theorem executed_task_was_approved:
  assumes "libs_ok L" and "system_run L iter empty_store cs s" and "pull_task ideal_client L s = (Ok st, s')"
  shows "\<exists>ts f. holds L (S_task L) s ts \<and> holds L (S_function L) s f \<and>
    external_id_of (S_function L) f = function_id ts \<and>
    st_task_id st = task_id ts \<and> all_data_assigned ts \<and>
    st_input_data st = FunctionInputFiles_from (assigned_inputs ts) \<and>
    st_output_data st = FunctionOutputFiles_from (assigned_outputs ts) \<and>
    st_function_arguments st = function_arguments ts \<and> st_function_payload st = fn_payload f \<and>
    (OwnerList_len (participants ts) \<noteq> 1 \<longrightarrow>
       creator ts |\<in>| participants ts \<and>
       (\<forall>n i. fmlookup (assigned_inputs ts) n = Some i \<longrightarrow> in_owner i |\<subseteq>| participants ts) \<and>
       (\<forall>n out. fmlookup (assigned_outputs ts) n = Some out \<longrightarrow> out_owner out |\<subseteq>| participants ts) \<and>
       (\<forall>u. u |\<in>| participants ts \<longrightarrow>
          (\<exists>r. ApproveTaskCall r \<in> set cs \<and> ext_uuid (message r) = task_id ts \<and>
             get_request_user_id (metadata r) = Ok u)))"
proof -
  have inv: "store_inv L s" using system_run_inv [OF assms(2,1) empty_store_inv] .
  obtain ts where ts: "holds L (S_task L) s ts" "Staged \<le> status ts" "staged_from L s ts st"
    using pulled_entry [OF assms(1) inv assms(3)] by blast
  have ti: "task_inv ts" using holds_task_inv [OF assms(1) store_inv_kv_inv [OF inv] ts(1)] .
  then have base: "creator ts |\<in>| participants ts" "all_data_assigned ts"
    using ts(2) by (auto simp: task_inv_def less_eq_task_status_def)
  have asked: "\<exists>r. ApproveTaskCall r \<in> set cs \<and> ext_uuid (message r) = task_id ts \<and>
      get_request_user_id (metadata r) = Ok u" if "u |\<in>| approved_users ts" for u
    using system_run_approved [OF assms(2,1) empty_store_inv ts(1) that]
    by (auto simp: call_approvals_iff holds_def empty_store_def)
  obtain f where f: "holds L (S_function L) s f" "external_id_of (S_function L) f = function_id ts"
    "stage_for_running \<lparr>state = ts, extra = Stage\<rparr> (creator ts) f = Ok st"
    using ts(3) by (auto simp: staged_from_def)
  have "creator ts |\<in>| participants ts \<and>
      (\<forall>n i. fmlookup (assigned_inputs ts) n = Some i \<longrightarrow> in_owner i |\<subseteq>| participants ts) \<and>
      (\<forall>n out. fmlookup (assigned_outputs ts) n = Some out \<longrightarrow> out_owner out |\<subseteq>| participants ts) \<and>
      (\<forall>u. u |\<in>| participants ts \<longrightarrow> (\<exists>r. ApproveTaskCall r \<in> set cs \<and> ext_uuid (message r) = task_id ts \<and>
         get_request_user_id (metadata r) = Ok u))" if "OwnerList_len (participants ts) \<noteq> 1"
    using asked base(1) owners_participate [OF ti] staged_consent [OF ti ts(2)] that
    by (simp add: OwnerList_len_def)
  then show ?thesis
    using ts(1) f base(2) by (intro exI [of _ ts] exI [of _ f]) (simp add: res_simps)
qed

theorem executed_task_was_approved_witness:
  "\<exists>cs r. system_run demo_libs demo_iter empty_store cs demo_s5 \<and> ApproveTaskCall r \<in> set cs \<and>
     ext_uuid (message r) = 2 \<and> get_request_user_id (metadata r) = Ok ''alice''"
proof -
  obtain cs where cs: "system_run demo_libs demo_iter empty_store cs demo_s5"
    using demo_reachable_s5 reachable_run by blast
  obtain ts where ts: "holds demo_libs (S_task demo_libs) demo_s5 ts" "st_task_id demo_staged = task_id ts"
    "OwnerList_len (participants ts) \<noteq> 1 \<Longrightarrow> \<forall>u. u |\<in>| participants ts \<longrightarrow>
       (\<exists>r. ApproveTaskCall r \<in> set cs \<and> ext_uuid (message r) = task_id ts \<and> get_request_user_id (metadata r) = Ok u)"
    using executed_task_was_approved [OF demo_libs_ok cs demo_pull] by blast
  have "holds demo_libs (S_task demo_libs) demo_s5 (demo_task {|''alice'', ''bob''|} Staged)"
    unfolding demo_s5_def by (rule holds_put_same [OF demo_impls(5)])
  from holds_unique [OF demo_impls(5) ts(1) this] ts(2)
  have "ts = demo_task {|''alice'', ''bob''|} Staged" by (simp add: demo_staged_def)
  then have "OwnerList_len (participants ts) \<noteq> 1" "''alice'' |\<in>| participants ts" "task_id ts = 2"
    by (simp_all add: OwnerList_len_def fcard_finsert_if)
  with ts(3) cs show ?thesis by metis
qed

text \<open>
  C3. Refinement of the services by the life of a task.  Along any run from a
  reachable store a stored task stays stored under its identifier and changes
  only by a sequence of the steps of its life (assigning data, approving,
  invoking, running, finishing); its creator, function, arguments, ownership
  tables and participants never change and its status never goes back.
\<close>

theorem stored_task_lives_by_steps:
  assumes "libs_ok L" and "reachable L iter s" and "system_run L iter s cs s'" and "holds L (S_task L) s ts"
  shows "\<exists>ts' es. holds L (S_task L) s' ts' \<and> task_steps ts es ts' \<and>
    task_fixed ts' = task_fixed ts \<and> status ts \<le> status ts'"
proof -
  obtain ts' es where "holds L (S_task L) s' ts'" "task_steps ts es ts'"
    using system_run_task [OF assms(3,1) reachable_store_inv [OF assms(2,1)] assms(4)] by blast
  with task_steps_fixed task_steps_status show ?thesis by blast
qed

theorem stored_task_lives_by_steps_witness:
  "\<exists>ts' es. holds demo_libs (S_task demo_libs) demo_s5 ts' \<and>
     task_steps (demo_task {|''alice'', ''bob''|} Approved) es ts' \<and> Approved \<le> status ts'"
proof -
  have "system_run demo_libs demo_iter demo_s4 ([] @ [invoke_call]) demo_s5"
    using demo_invoke by (intro run_snoc [OF run_nil]) (simp add: system_step_def invoke_call_def)
  moreover have "holds demo_libs (S_task demo_libs) demo_s4 (demo_task {|''alice'', ''bob''|} Approved)"
    unfolding demo_s4_def by (rule holds_put_same [OF demo_impls(5)])
  ultimately show ?thesis
    using stored_task_lives_by_steps [OF demo_libs_ok demo_reachable_s4] by fastforce
qed

text \<open>
  C4. What was approved is what runs.  Once somebody has approved a stored task,
  no run of the services changes the function, arguments, executor, input files
  or output locations and keys of that task, and no approval is taken back.
\<close>

theorem approved_content_is_frozen:
  assumes "libs_ok L" and "reachable L iter s" and "system_run L iter s cs s'"
    and "holds L (S_task L) s ts" and "approved_users ts \<noteq> {||}"
  shows "\<exists>ts'. holds L (S_task L) s' ts' \<and> task_id ts' = task_id ts \<and>
    task_content ts' = task_content ts \<and> approved_users ts |\<subseteq>| approved_users ts'"
proof -
  have inv: "store_inv L s" using assms(2,1) by (rule reachable_store_inv)
  obtain ts' es where ts': "holds L (S_task L) s' ts'" "task_steps ts es ts'"
    using system_run_task [OF assms(3,1) inv assms(4)] by blast
  have "task_inv ts" using holds_task_inv [OF assms(1) store_inv_kv_inv [OF inv] assms(4)] .
  from task_steps_content [OF ts'(2) this assms(5)] task_steps_fixed [OF ts'(2)] ts'(1)
  show ?thesis by (auto simp: task_fixed_def)
qed

theorem approved_content_is_frozen_witness:
  "\<exists>ts'. holds demo_libs (S_task demo_libs) demo_s5 ts' \<and>
     task_content ts' = task_content (demo_task {|''alice'', ''bob''|} Approved)"
proof -
  have "system_run demo_libs demo_iter demo_s4 ([] @ [invoke_call]) demo_s5"
    using demo_invoke by (intro run_snoc [OF run_nil]) (simp add: system_step_def invoke_call_def)
  moreover have "holds demo_libs (S_task demo_libs) demo_s4 (demo_task {|''alice'', ''bob''|} Approved)"
    unfolding demo_s4_def by (rule holds_put_same [OF demo_impls(5)])
  ultimately show ?thesis
    using approved_content_is_frozen [OF demo_libs_ok demo_reachable_s4] by fastforce
qed



text \<open>
  C8. The invariant of the store.  In every reachable store each key holds an
  object of the type its prefix names; every stored task has its approvals within
  its participants, the owners of its files among its participants, files owned
  as its ownership tables demand, complete data once it left the status Created,
  and full approval once it left DataAssigned; every queue entry is the staged
  image of a stored task that has been invoked.
\<close>

theorem reachable_store_invariant:
  assumes "libs_ok L" and "reachable L iter s"
  shows "store_inv L s"
  using assms(2,1) by (rule reachable_store_inv)

theorem reachable_store_invariant_witness: "store_inv demo_libs demo_s5"
  using reachable_store_invariant [OF demo_libs_ok demo_reachable_s5] .





text \<open>
  C16. Who may write files.  \<^verbatim>\<open>update_input_file\<close> is served exactly for the sole
  owner of a stored input file and stores a new file, under the fresh identifier,
  with the new location and the tag, key and owner of the old one.
  \<^verbatim>\<open>register_input_from_output\<close> is served exactly for an owner of a stored output
  file that has been produced, and the input it stores carries the tag of that
  output.
\<close>

theorem file_writes_are_authorised:
  assumes "libs_ok L" and "reachable L iter s"
  shows "(update_input_file ideal_client L fresh req s = (Ok k, s') \<longleftrightarrow>
      (\<exists>u old f. get_request_user_id (metadata req) = Ok u \<and> holds L (S_input L) s old \<and>
         uif_data_id (message req) = external_id_of (S_input L) old \<and> in_owner old = {|u|} \<and>
         f = \<lparr>in_url = uif_url (message req), in_cmac = in_cmac old, in_crypto = in_crypto old,
              in_owner = in_owner old, in_uuid = fresh\<rparr> \<and>
         k = external_id_of (S_input L) f \<and> s' = put_obj L (S_input L) f s)) \<and>
     (register_input_from_output ideal_client L req' s = (Ok k, s') \<longleftrightarrow>
      (\<exists>u out c f. get_request_user_id (metadata req') = Ok u \<and> holds L (S_output L) s out \<and>
         message req' = external_id_of (S_output L) out \<and> u |\<in>| out_owner out \<and> out_cmac out = Some c \<and>
         f = \<lparr>in_url = out_url out, in_cmac = c, in_crypto = out_crypto out,
              in_owner = out_owner out, in_uuid = out_uuid out\<rparr> \<and>
         k = external_id_of (S_input L) f \<and> s' = put_obj L (S_input L) f s))"
proof -
  have kv: "kv_inv L s" using reachable_store_inv [OF assms(2,1)] by (rule store_inv_kv_inv)
  show ?thesis
    using update_input_file_Ok [OF assms(1) kv] register_input_from_output_Ok [OF assms(1) kv] by (intro conjI)
qed

theorem file_writes_are_authorised_witness:
  "\<exists>s'. update_input_file ideal_client demo_libs 8
     \<lparr>metadata = user_meta ''bob'', message = \<lparr>uif_data_id = ExternalID_new ''input'' 7, uif_url = ''b''\<rparr>\<rparr> demo_i1 =
     (Ok (ExternalID_new ''input'' 8), s')"
  using demo_holds_input file_writes_are_authorised [OF demo_libs_ok demo_reachable_i1, THEN conjunct1]
  by (force simp: get_request_user_id_def user_meta_def external_id_of_def demo_input_def)



text \<open>
  C18. Concurrent approvals can be lost.  \<^verbatim>\<open>approve_task\<close> is a read of the task
  followed by a write, with no lock across the two, and the management service
  serves each connection in a thread of its own.  When the requests of two
  participants come in over two connections (a single frontend sends its requests
  one after the other, two frontends do not), both can read before either writes;
  both calls then succeed, and the stored task lacks the approval of the first.
\<close>

theorem concurrent_approval_lost:
  assumes "libs_ok L" and "holds L (S_task L) s ts"
    and "status ts = Created \<and> all_data_assigned ts \<or> status ts = DataAssigned"
    and "message r1 = external_id_of (S_task L) ts" "get_request_user_id (metadata r1) = Ok u" "u |\<in>| participants ts"
    and "message r2 = external_id_of (S_task L) ts" "get_request_user_id (metadata r2) = Ok v" "v |\<in>| participants ts"
    and "u \<noteq> v" "u |\<notin>| approved_users ts"
  shows "approve_task ideal_client L r = bind_op (approve_load ideal_client L r) (write_or_fail ideal_client L (S_task L)) \<and>
    (\<exists>t1 t2 s1 s2. approve_load ideal_client L r1 s = (Ok t1, s) \<and> approve_load ideal_client L r2 s = (Ok t2, s) \<and>
      write_or_fail ideal_client L (S_task L) t1 s = (Ok (), s1) \<and>
      write_or_fail ideal_client L (S_task L) t2 s1 = (Ok (), s2) \<and>
      u |\<in>| approved_users t1 \<and> holds L (S_task L) s2 t2 \<and> task_id t2 = task_id ts \<and> u |\<notin>| approved_users t2)"
proof -
  note impl = libs_ok_impls(5) [OF assms(1)]
  obtain st1 where l1: "approve_load ideal_client L r1 s =
      (Ok (ts\<lparr>approved_users := finsert u (approved_users ts), status := st1\<rparr>), s)"
    using approve_load_held [OF assms(1,2,4,5,6,3)] by blast
  obtain st2 where l2: "approve_load ideal_client L r2 s =
      (Ok (ts\<lparr>approved_users := finsert v (approved_users ts), status := st2\<rparr>), s)"
    using approve_load_held [OF assms(1,2,7,8,9,3)] by blast
  show ?thesis
    using assms(10,11) holds_put_same [OF impl]
    by (intro conjI approve_task_cut exI [of _ "ts\<lparr>approved_users := finsert u (approved_users ts), status := st1\<rparr>"]
        exI [of _ "ts\<lparr>approved_users := finsert v (approved_users ts), status := st2\<rparr>"])
      (simp_all add: l1 l2 write_ideal [OF impl])
qed

theorem concurrent_approval_lost_witness:
  "\<exists>t1 t2 s1 s2. write_or_fail ideal_client demo_libs (S_task demo_libs) t1 demo_s2 = (Ok (), s1) \<and>
     write_or_fail ideal_client demo_libs (S_task demo_libs) t2 s1 = (Ok (), s2) \<and>
     ''alice'' |\<in>| approved_users t1 \<and> holds demo_libs (S_task demo_libs) s2 t2 \<and> ''alice'' |\<notin>| approved_users t2"
proof -
  have "holds demo_libs (S_task demo_libs) demo_s2 (demo_task {||} Created)"
    unfolding demo_s2_def by (rule holds_put_same [OF demo_impls(5)])
  from concurrent_approval_lost [OF demo_libs_ok this, THEN conjunct2,
      of "\<lparr>metadata = user_meta ''alice'', message = external_id_of (S_task demo_libs) (demo_task {||} Created)\<rparr>" "''alice''"
        "\<lparr>metadata = user_meta ''bob'', message = external_id_of (S_task demo_libs) (demo_task {||} Created)\<rparr>" "''bob''"]
  show ?thesis by (fastforce simp: get_request_user_id_def user_meta_def all_data_assigned_def)
qed

text \<open>
  C19. A task can be invoked and never run.  \<^verbatim>\<open>invoke_task\<close> puts the staged task in
  the queue before it stores the status Staged.  An executor that pulls between
  the two finds the task not yet staged: marking it running is refused, reporting
  the outcome is refused, and the queue entry is gone.  When \<^verbatim>\<open>invoke_task\<close> then
  stores its status and returns success, the task is Staged, no queue entry for it
  exists, and invoking it again is refused.
\<close>

theorem invoked_task_overtaken:
  assumes "libs_ok L" and "holds L (S_task L) s ts" and "status ts = Approved"
    and "holds L (S_function L) s f" and "function_id ts = external_id_of (S_function L) f"
    and "message req = external_id_of (S_task L) ts" and "get_request_user_id (metadata req) = Ok (creator ts)"
    and "queues s (into_bytes QUEUE_KEY) = []"
  shows "\<exists>staged task s1 s2 s3 e.
    invoke_load ideal_client L req s = (Ok (staged, task), s) \<and>
    invoke_enqueue ideal_client L staged s = (Ok (), s1) \<and>
    execution_round ideal_client L iter execute s1 = (Err e, s2) \<and>
    invoke_store ideal_client L task s2 = (Ok (), s3) \<and>
    holds L (S_task L) s3 (ts\<lparr>status := Staged\<rparr>) \<and> queues s3 (into_bytes QUEUE_KEY) = [] \<and>
    fst (invoke_task ideal_client L req s3) = Err (mgmt_error PermissionDenied)"
proof -
  note impls = libs_ok_impls [OF assms(1)]
  obtain st where load: "invoke_load ideal_client L req s = (Ok (st, \<lparr>state = ts, extra = Stage\<rparr>), s)"
    and id: "st_task_id st = task_id ts"
    using invoke_load_held [OF assms(1-7)] by blast
  let ?s1 = "s\<lparr>queues := (queues s)(into_bytes QUEUE_KEY := [enc (S_staged L) st])\<rparr>"
  have enq: "invoke_enqueue ideal_client L st s = (Ok (), ?s1)"
    using wp_enqueue [OF impls(6), of "into_bytes QUEUE_KEY" st "\<lambda>r s'. r = Ok () \<and> s' = ?s1" s] assms(8)
    by (simp add: wp_def invoke_enqueue_def prod_eq_iff)
  have h1: "holds L (S_task L) ?s1 ts" using assms(2) by simp
  let ?s2 = "s\<lparr>queues := (queues s)(into_bytes QUEUE_KEY := [])\<rparr>"
  obtain e where round: "execution_round ideal_client L iter execute ?s1 = (Err e, ?s2)"
    using execution_round_refused [OF assms(1) h1 _ _ _ id, of "[]"] assms(3) by auto
  let ?s3 = "put_obj L (S_task L) (ts\<lparr>status := Staged\<rparr>) ?s2"
  have store: "invoke_store ideal_client L \<lparr>state = ts, extra = Stage\<rparr> ?s2 = (Ok (), ?s3)"
    by (simp add: invoke_store_def bind_op_def return_op_def ready_default_def write_ideal [OF impls(5)])
  have h3: "holds L (S_task L) ?s3 (ts\<lparr>status := Staged\<rparr>)" by (rule holds_put_same [OF impls(5)])
  have f3: "holds L (S_function L) ?s3 f" using assms(4) by (simp add: holds_put_other impls(1))
  have "fst (invoke_task ideal_client L req ?s3) = Err (mgmt_error PermissionDenied)"
    using invoke_task_refused [OF assms(1) h3 _ f3] assms(5-7) by (simp add: external_id_of_def)
  with load enq round store h3 show ?thesis by (intro exI conjI) simp_all
qed

theorem invoked_task_overtaken_witness:
  "\<exists>task s2 s3. invoke_store ideal_client demo_libs task s2 = (Ok (), s3) \<and>
     queues s3 (into_bytes QUEUE_KEY) = [] \<and>
     holds demo_libs (S_task demo_libs) s3 (demo_task {|''alice'', ''bob''|} Staged)"
proof -
  have h: "holds demo_libs (S_task demo_libs) demo_s4 (demo_task {|''alice'', ''bob''|} Approved)"
    unfolding demo_s4_def by (rule holds_put_same [OF demo_impls(5)])
  have f: "holds demo_libs (S_function demo_libs) demo_s4 demo_function"
    unfolding demo_s4_def demo_s3_def demo_s2_def demo_s1_def
    by (simp add: holds_put_other demo_uuid_ok holds_put_same [OF demo_impls(2)])
  show ?thesis
    using invoked_task_overtaken [OF demo_libs_ok h _ f,
        of "\<lparr>metadata = user_meta ''bob'', message = external_id_of (S_task demo_libs) (demo_task {|''alice'', ''bob''|} Approved)\<rparr>"]
    by (force simp: external_id_of_def get_request_user_id_def user_meta_def demo_queues_s4)
qed




end
